(* ===== verification/Prelude.thy ===== *)
theory Prelude
  imports Main "HOL-Library.Multiset"
begin

text \<open>
  The prelude of the development: the types that every component shares, the bounds of Go's
  \<open>int64\<close>, the error-and-state sequencing that the store's transactions are written with, and
  the generic facts about tables (lists of rows) that a conditional \<open>UPDATE\<close>, a \<open>DELETE\<close>, an
  \<open>INSERT\<close> and an \<open>ORDER BY ... LIMIT\<close> rest on.
\<close>

section \<open>Shared types and theorem collections\<close>

text \<open>Database timestamps (\<open>timestamptz\<close>) count microseconds, Go durations count nanoseconds.\<close>

type_synonym time = int
type_synonym duration = int

named_theorems row_defs "the predicates and keys of a row that the indexes are built from"
named_theorems env_defs "the readers of the environment"

definition max_int64 :: int where
  "max_int64 = 2 ^ 63 - 1"

definition min_int64 :: int where
  "min_int64 = - (2 ^ 63)"

text \<open>Go's integer division truncates towards zero.\<close>

definition go_div :: "int \<Rightarrow> int \<Rightarrow> int" where
  "go_div a b = (if (0 \<le> a) = (0 \<le> b) then \<bar>a\<bar> div \<bar>b\<bar> else - (\<bar>a\<bar> div \<bar>b\<bar>))"

lemma go_div_nonneg [simp]: "0 \<le> a \<Longrightarrow> 0 < b \<Longrightarrow> go_div a b = a div b"
  by (simp add: go_div_def)


section \<open>Sequencing calls that can fail and that change a state\<close>

text \<open>
  A call of the program takes the state and returns an error or a value with the new state: the
  state is returned on both branches, because a failed statement can leave something behind (a
  sequence value that was drawn, for example).
\<close>

type_synonym ('s, 'e, 'a) action = "'s \<Rightarrow> ('e + 'a) \<times> 's"

definition returnA :: "'a \<Rightarrow> ('s, 'e, 'a) action" where
  "returnA a s = (Inr a, s)"

definition bindA :: "('s, 'e, 'a) action \<Rightarrow> ('a \<Rightarrow> ('s, 'e, 'b) action) \<Rightarrow> ('s, 'e, 'b) action" where
  "bindA m f s = (case m s of (Inl e, s') \<Rightarrow> (Inl e, s') | (Inr a, s') \<Rightarrow> f a s')"

definition mapErrA :: "('e \<Rightarrow> 'f) \<Rightarrow> ('s, 'e, 'a) action \<Rightarrow> ('s, 'f, 'a) action" where
  "mapErrA h m s = (case m s of (Inl e, s') \<Rightarrow> (Inl (h e), s') | (Inr a, s') \<Rightarrow> (Inr a, s'))"

lemma returnA_simps [simp]: "returnA a s = (Inr a, s)"
  by (simp add: returnA_def)

lemma bindA_return [simp]: "bindA (returnA a) f = f a"
  by (rule ext) (simp add: bindA_def)

lemma bindA_assoc: "bindA (bindA m f) g = bindA m (\<lambda>a. bindA (f a) g)"
  by (rule ext) (simp add: bindA_def split: prod.splits sum.splits)

lemma bindA_Inr_iff:
  "bindA m f s = (Inr b, s'') \<longleftrightarrow> (\<exists>a s'. m s = (Inr a, s') \<and> f a s' = (Inr b, s''))"
  by (auto simp: bindA_def split: prod.splits sum.splits)

lemma bindA_Inl_iff:
  "bindA m f s = (Inl e, s'') \<longleftrightarrow>
     m s = (Inl e, s'') \<or> (\<exists>a s'. m s = (Inr a, s') \<and> f a s' = (Inl e, s''))"
  by (auto simp: bindA_def split: prod.splits sum.splits)

lemma bindA_eval:
  "m s = (Inr a, s') \<Longrightarrow> bindA m f s = f a s'"
  "m s = (Inl e, s') \<Longrightarrow> bindA m f s = (Inl e, s')"
  by (simp_all add: bindA_def)

lemma mapErrA_Inr_iff [simp]: "mapErrA h m s = (Inr a, s') \<longleftrightarrow> m s = (Inr a, s')"
  by (auto simp: mapErrA_def split: prod.splits sum.splits)

lemma mapErrA_Inl_iff: "mapErrA h m s = (Inl f, s') \<longleftrightarrow> (\<exists>e. m s = (Inl e, s') \<and> f = h e)"
  by (auto simp: mapErrA_def split: prod.splits sum.splits)

lemma mapErrA_returnA [simp]: "mapErrA h (returnA a) = returnA a"
  by (rule ext) (simp add: mapErrA_def)

lemma mapErrA_snd [simp]: "snd (mapErrA h m s) = snd (m s)"
  by (auto simp: mapErrA_def split: prod.splits sum.splits)

lemma mapErrA_eval:
  "m s = (Inr a, s') \<Longrightarrow> mapErrA h m s = (Inr a, s')"
  "m s = (Inl e, s') \<Longrightarrow> mapErrA h m s = (Inl (h e), s')"
  by (simp_all add: mapErrA_def)

text \<open>
  What an action does to the state, as a relation between the state before and the state after
  that holds whatever the action returns: keeping an invariant, growing a counter, moving along a
  transition system. The relations of interest are preorders, and for a preorder the combinators
  compose; the locale proves that once.
\<close>

definition obeys :: "('s \<Rightarrow> 's \<Rightarrow> bool) \<Rightarrow> ('s, 'e, 'a) action \<Rightarrow> bool" where
  "obeys R m \<longleftrightarrow> (\<forall>s. R s (snd (m s)))"

abbreviation keeping :: "('s \<Rightarrow> bool) \<Rightarrow> 's \<Rightarrow> 's \<Rightarrow> bool" where
  "keeping I s s' \<equiv> I s \<longrightarrow> I s'"

fun forEachA :: "('x \<Rightarrow> 's \<Rightarrow> 's) \<Rightarrow> 'x list \<Rightarrow> 's \<Rightarrow> 's" where
  "forEachA f [] s = s"
| "forEachA f (x # xs) s = forEachA f xs (f x s)"

lemma obeysI [intro?]: "(\<And>s. R s (snd (m s))) \<Longrightarrow> obeys R m"
  by (simp add: obeys_def)

lemma obeysD: "obeys R m \<Longrightarrow> R s (snd (m s))"
  by (simp add: obeys_def)

lemma obeys_eqD: "obeys R m \<Longrightarrow> m s = (r, s') \<Longrightarrow> R s s'"
  by (metis obeysD snd_conv)

locale step_contract =
  fixes R :: "'s \<Rightarrow> 's \<Rightarrow> bool"
  assumes R_refl: "R s s"
    and R_trans: "R s t \<Longrightarrow> R t u \<Longrightarrow> R s u"
begin

lemma obeys_returnA: "obeys R (returnA a)"
  by (simp add: obeys_def R_refl)

lemma obeys_bindA:
  assumes "obeys R m" and "\<And>a. obeys R (f a)"
  shows "obeys R (bindA m f)"
proof
  fix s
  obtain r s' where ms: "m s = (r, s')" by (cases "m s")
  then have "R s s'" using obeys_eqD [OF assms(1)] by simp
  moreover have "R s' (snd (f a s'))" for a using obeysD [OF assms(2)] by simp
  ultimately show "R s (snd (bindA m f s))"
    using ms by (cases r) (auto simp: bindA_def intro: R_trans)
qed

lemma obeys_mapErrA: "obeys R m \<Longrightarrow> obeys R (mapErrA h m)"
  by (simp add: obeys_def)

lemma obeys_if: "(c \<Longrightarrow> obeys R m) \<Longrightarrow> (\<not> c \<Longrightarrow> obeys R m') \<Longrightarrow> obeys R (if c then m else m')"
  by simp

lemma obeys_forEach: "(\<And>x s. x \<in> set xs \<Longrightarrow> R s (f x s)) \<Longrightarrow> R s (forEachA f xs s)"
proof (induction xs arbitrary: s)
  case Nil
  then show ?case by (simp add: R_refl)
next
  case (Cons x xs)
  then have "R s (f x s)" and "R (f x s) (forEachA f xs (f x s))" by auto
  then show ?case by (auto intro: R_trans)
qed

lemmas obeys_intros = obeys_returnA obeys_bindA obeys_mapErrA obeys_if

end

interpretation keep: step_contract "keeping I" for I
  by unfold_locales auto


section \<open>Tables as lists of rows\<close>

text \<open>\<open>UPDATE ... SET f WHERE P\<close> rewrites the matching rows in place.\<close>

definition update_where :: "('r \<Rightarrow> bool) \<Rightarrow> ('r \<Rightarrow> 'r) \<Rightarrow> 'r list \<Rightarrow> 'r list" where
  "update_where P f rows = map (\<lambda>r. if P r then f r else r) rows"

text \<open>\<open>... ORDER BY k LIMIT n\<close>: a negative \<open>LIMIT\<close> is an error in PostgreSQL, see the callers.\<close>

definition order_limit :: "('r \<Rightarrow> 'k::linorder) \<Rightarrow> nat \<Rightarrow> 'r list \<Rightarrow> 'r list" where
  "order_limit k n rows = take n (sort_key k rows)"

lemma update_where_Nil [simp]: "update_where P f [] = []"
  by (simp add: update_where_def)

lemma update_where_Cons [simp]:
  "update_where P f (r # rs) = (if P r then f r else r) # update_where P f rs"
  by (simp add: update_where_def)

lemma length_update_where [simp]: "length (update_where P f rows) = length rows"
  by (simp add: update_where_def)

lemma set_update_where:
  "set (update_where P f rows) = (\<lambda>r. if P r then f r else r) ` set rows"
  by (simp add: update_where_def)

lemma update_where_none: "(\<And>r. r \<in> set rows \<Longrightarrow> \<not> P r) \<Longrightarrow> update_where P f rows = rows"
  by (simp add: update_where_def map_idI)

lemma update_where_append [simp]:
  "update_where P f (xs @ ys) = update_where P f xs @ update_where P f ys"
  by (simp add: update_where_def)

lemma map_update_where:
  "(\<And>r. r \<in> set rows \<Longrightarrow> P r \<Longrightarrow> k (f r) = k r) \<Longrightarrow> map k (update_where P f rows) = map k rows"
  by (simp add: update_where_def)

lemma in_update_whereE:
  assumes "r' \<in> set (update_where P f rows)"
  obtains r where "r \<in> set rows" "P r" "r' = f r" | "r' \<in> set rows" "\<not> P r'"
  using assms by (auto simp: set_update_where split: if_splits)

text \<open>
  A partial unique index survives an update that puts no row into it and keeps the key of the rows
  that stay in it.
\<close>

lemma distinct_index_update_where:
  assumes "distinct (map k (filter Q rows))"
    and "\<And>r. r \<in> set rows \<Longrightarrow> P r \<Longrightarrow> Q (f r) \<Longrightarrow> Q r \<and> k (f r) = k r"
  shows "distinct (map k (filter Q (update_where P f rows)))"
  using assms
proof (induction rows)
  case Nil
  then show ?case by simp
next
  case (Cons r rs)
  let ?g = "\<lambda>r. if P r then f r else r"
  have key: "Q (?g x) \<Longrightarrow> Q x \<and> k (?g x) = k x" if "x \<in> set (r # rs)" for x
    using Cons.prems(2) [OF that] by (simp split: if_splits)
  have sub: "k ` {x \<in> set (update_where P f rs). Q x} \<subseteq> k ` {x \<in> set rs. Q x}"
    using key by (fastforce simp: set_update_where)
  have "distinct (map k (filter Q (update_where P f rs)))"
    by (rule Cons.IH) (use Cons.prems in \<open>auto split: if_splits\<close>)
  moreover have "k (?g r) \<notin> k ` {x \<in> set (update_where P f rs). Q x}" if "Q (?g r)"
    using sub key [of r] that Cons.prems(1) by auto
  ultimately show ?case
    by (cases "P r") (auto simp: image_iff)
qed

lemma distinct_index_filter:
  "distinct (map k (filter Q rows)) \<Longrightarrow> distinct (map k (filter Q (filter P rows)))"
  by (induction rows) auto

lemma distinct_map_filter_imp: "distinct (map k rows) \<Longrightarrow> distinct (map k (filter P rows))"
  by (rule distinct_map_filter)

text \<open>A primary key finds one row: two rows with the same key are the same row.\<close>

lemma distinct_key_eq:
  "distinct (map k rows) \<Longrightarrow> a \<in> set rows \<Longrightarrow> b \<in> set rows \<Longrightarrow> k a = k b \<Longrightarrow> a = b"
  by (auto simp: distinct_map dest: inj_onD)

lemma distinct_index_eq:
  "distinct (map k (filter Q rows)) \<Longrightarrow> a \<in> set rows \<Longrightarrow> b \<in> set rows \<Longrightarrow> Q a \<Longrightarrow> Q b
     \<Longrightarrow> k a = k b \<Longrightarrow> a = b"
  by (rule distinct_key_eq [of k "filter Q rows"]) auto

lemma distinct_key_index_le_1:
  assumes "distinct (map k (filter Q rows))"
  shows "length (filter (\<lambda>r. Q r \<and> k r = x) rows) \<le> 1"
  using assms
proof (induction rows)
  case Nil
  then show ?case by simp
next
  case (Cons r rs)
  show ?case
  proof (cases "Q r \<and> k r = x")
    case True
    with Cons.prems have "filter (\<lambda>r. Q r \<and> k r = x) rs = []"
      by (auto simp: filter_empty_conv image_iff)
    with True show ?thesis by simp
  next
    case False
    with Cons show ?thesis by (auto split: if_splits)
  qed
qed

lemma filter_key_singleton:
  assumes "distinct (map k rows)" and "r \<in> set rows"
  shows "filter (\<lambda>x. k x = k r) rows = [r]"
  using assms
proof (induction rows)
  case Nil
  then show ?case by simp
next
  case (Cons x xs)
  show ?case
  proof (cases "x = r")
    case True
    with Cons.prems have "k r \<notin> k ` set xs" by simp
    then have "filter (\<lambda>y. k y = k r) xs = []" by (auto simp: filter_empty_conv image_iff)
    with True show ?thesis by simp
  next
    case False
    with Cons.prems have "r \<in> set xs" and "k x \<noteq> k r" by auto
    with Cons show ?thesis by simp
  qed
qed

lemma filter_key_and:
  assumes "distinct (map k rows)" and "r \<in> set rows"
  shows "filter (\<lambda>x. k x = k r \<and> P x) rows = (if P r then [r] else [])"
proof -
  have "filter (\<lambda>x. k x = k r \<and> P x) rows = filter P (filter (\<lambda>x. k x = k r) rows)"
    by (simp add: conj_commute)
  then show ?thesis by (simp add: filter_key_singleton [OF assms])
qed


lemma length_filter_le_imp:
  "(\<And>x. x \<in> set xs \<Longrightarrow> P x \<Longrightarrow> Q x) \<Longrightarrow> length (filter P xs) \<le> length (filter Q xs)"
  by (induction xs) (auto simp: le_SucI)

lemma update_where_key_absent:
  "i \<notin> k ` set rows \<Longrightarrow> update_where (\<lambda>r. k r = i \<and> P r) f rows = rows"
  by (rule update_where_none) auto

lemma mset_index_update_one:
  assumes "distinct (map k rows)" and "b \<in> set rows" and "P b" and "k (f b) = k b"
    and "\<not> Q b" and "Q (f b)"
  shows "mset (map k (filter Q (update_where (\<lambda>r. k r = k b \<and> P r) f rows))) =
           add_mset (k b) (mset (map k (filter Q rows)))"
  using assms
proof (induction rows)
  case Nil
  then show ?case by simp
next
  case (Cons r rs)
  show ?case
  proof (cases "k r = k b")
    case True
    with Cons.prems have "r = b" and "k b \<notin> k ` set rs" by (auto simp: image_iff)
    with Cons.prems show ?thesis by (simp add: update_where_key_absent)
  next
    case False
    with Cons.prems have "b \<in> set rs" by auto
    with Cons False show ?thesis by (auto simp: add_mset_commute)
  qed
qed

text \<open>\<open>ORDER BY ... LIMIT\<close> picks at most \<open>n\<close> rows of the table, the smallest keys first.\<close>

lemma filter_map_same:
  "(\<And>r. r \<in> set rows \<Longrightarrow> Q (g r) \<longleftrightarrow> Q' r) \<Longrightarrow> (\<And>r. r \<in> set rows \<Longrightarrow> Q' r \<Longrightarrow> g r = r) \<Longrightarrow>
     filter Q (map g rows) = filter Q' rows"
  by (induction rows) auto

lemma length_order_limit [simp]: "length (order_limit k n rows) = min n (length rows)"
  by (simp add: order_limit_def min_def)

lemma set_order_limit_subset: "set (order_limit k n rows) \<subseteq> set rows"
  by (auto simp: order_limit_def dest: in_set_takeD)

lemma in_order_limitD: "r \<in> set (order_limit k n rows) \<Longrightarrow> r \<in> set rows"
  using set_order_limit_subset by fastforce

lemma order_limit_all: "length rows \<le> n \<Longrightarrow> order_limit k n rows = sort_key k rows"
  by (simp add: order_limit_def)

lemma order_limit_oldest:
  assumes "r \<in> set (order_limit k n rows)" and "s \<in> set rows" and "s \<notin> set (order_limit k n rows)"
  shows "k r \<le> k s"
proof -
  let ?l = "sort_key k rows"
  have "sorted (map k (take n ?l @ drop n ?l))" by simp
  then have le: "\<forall>x \<in> set (take n ?l). \<forall>y \<in> set (drop n ?l). k x \<le> k y"
    by (simp only: map_append sorted_append) auto
  have "set rows = set (take n ?l) \<union> set (drop n ?l)"
    by (metis append_take_drop_id set_append set_sort)
  then have "s \<in> set (drop n ?l)" using assms(2,3) by (auto simp: order_limit_def)
  with le assms(1) show ?thesis by (auto simp: order_limit_def)
qed

lemma distinct_order_limit:
  assumes "distinct (map k rows)"
  shows "distinct (map k (order_limit j n rows))"
proof -
  have "distinct rows" and "inj_on k (set rows)"
    using assms by (simp_all add: distinct_map)
  then have "distinct (order_limit j n rows)" and "inj_on k (set (order_limit j n rows))"
    by (simp add: order_limit_def) (meson inj_on_subset set_order_limit_subset \<open>inj_on k (set rows)\<close>)
  then show ?thesis by (simp add: distinct_map)
qed


section \<open>Decimal numbers\<close>

text \<open>\<open>strconv.Itoa\<close> and \<open>%d\<close>.\<close>

definition show_digit :: "nat \<Rightarrow> char" where
  "show_digit n = char_of (48 + n mod 10)"

fun show_nat :: "nat \<Rightarrow> string" where
  "show_nat n = (if n < 10 then [show_digit n] else show_nat (n div 10) @ [show_digit n])"

declare show_nat.simps [simp del]

definition show_int :: "int \<Rightarrow> string" where
  "show_int i = (if i < 0 then CHR ''-'' # show_nat (nat (- i)) else show_nat (nat i))"

definition read_nat :: "string \<Rightarrow> nat" where
  "read_nat ds = foldl (\<lambda>a c. 10 * a + (of_char c - 48)) 0 ds"

lemma of_char_show_digit [simp]: "of_char (show_digit n) = 48 + n mod 10"
proof -
  have "48 + n mod 10 < (256 :: nat)" by (rule less_trans [of _ 58]) simp_all
  then show ?thesis by (simp add: show_digit_def)
qed

lemma read_nat_show_nat [simp]: "read_nat (show_nat n) = n"
proof (induction n rule: less_induct)
  case (less n)
  show ?case
  proof (cases "n < 10")
    case True
    then show ?thesis by (simp add: show_nat.simps [of n] read_nat_def)
  next
    case False
    then have "read_nat (show_nat (n div 10)) = n div 10" by (intro less) simp
    then show ?thesis using False by (simp add: show_nat.simps [of n] read_nat_def)
  qed
qed

lemma show_nat_inj [simp]: "show_nat m = show_nat n \<longleftrightarrow> m = n"
  by (metis read_nat_show_nat)

lemma show_nat_digits: "c \<in> set (show_nat n) \<Longrightarrow> \<exists>k. c = show_digit k"
proof (induction n rule: show_nat.induct)
  case (1 n)
  then show ?case by (cases "n < 10") (auto simp: show_nat.simps [of n])
qed

lemma show_nat_no_sign: "c = CHR '':'' \<or> c = CHR ''-'' \<Longrightarrow> c \<notin> set (show_nat n)"
proof
  assume c: "c = CHR '':'' \<or> c = CHR ''-''" and "c \<in> set (show_nat n)"
  then obtain k where "c = show_digit k" using show_nat_digits by blast
  then have "(of_char c :: nat) = 48 + k mod 10" by simp
  moreover have "k mod 10 < 10" by simp
  ultimately show False using c by auto
qed

end
