(* ===== verification/Errors.thy ===== *)
theory Errors
  imports Prelude
begin

text \<open>
  Go error values as the program builds and inspects them: the sentinels of
  \<open>internal/store/errors.go\<close> (which \<open>internal/booking/errors.go\<close> re-exports), the errors the
  driver and the context return, and \<open>fmt.Errorf\<close> wrapping, with \<open>errors.Is\<close> and \<open>errors.As\<close>
  walking the chain. \<open>isUniqueViolation\<close> and \<open>isRetryable\<close> classify by SQLSTATE.
\<close>

section \<open>Error values\<close>

datatype go_error =
    ErrSeatUnavailable
  | ErrHoldExpired
  | ErrNotFound
  | ErrIdempotencyKeyReuse
  | ErrNoRows                    \<comment> \<open>\<open>pgx.ErrNoRows\<close>\<close>
  | PgError string               \<comment> \<open>\<open>*pgconn.PgError\<close> with its SQLSTATE\<close>
  | DeadlineExceeded             \<comment> \<open>\<open>context.DeadlineExceeded\<close>\<close>
  | ContextCanceled              \<comment> \<open>\<open>context.Canceled\<close>\<close>
  | OtherError string            \<comment> \<open>an error with no structure the program inspects\<close>
  | Wrap string go_error         \<comment> \<open>\<open>fmt.Errorf("prefix: %w", err)\<close>\<close>
  | WrapLast go_error go_error   \<comment> \<open>\<open>fmt.Errorf("%w (last retryable error: %v)", err, last)\<close>\<close>

text \<open>\<open>%v\<close> formats its operand into the text only, so \<open>WrapLast\<close> unwraps to its first argument.\<close>

fun unwrap :: "go_error \<Rightarrow> go_error option" where
  "unwrap (Wrap p e) = Some e"
| "unwrap (WrapLast e l) = Some e"
| "unwrap e = None"

fun errors_Is :: "go_error \<Rightarrow> go_error \<Rightarrow> bool" where
  "errors_Is (Wrap p e) t = (Wrap p e = t \<or> errors_Is e t)"
| "errors_Is (WrapLast e l) t = (WrapLast e l = t \<or> errors_Is e t)"
| "errors_Is e t = (e = t)"

fun errors_As_PgError :: "go_error \<Rightarrow> string option" where
  "errors_As_PgError (PgError c) = Some c"
| "errors_As_PgError (Wrap p e) = errors_As_PgError e"
| "errors_As_PgError (WrapLast e l) = errors_As_PgError e"
| "errors_As_PgError e = None"

definition uniqueViolationCode :: string where
  "uniqueViolationCode = ''23505''"

definition isUniqueViolation :: "go_error \<Rightarrow> bool" where
  "isUniqueViolation err = (errors_As_PgError err = Some uniqueViolationCode)"

definition serializationFailure :: string where
  "serializationFailure = ''40001''"

definition deadlockDetected :: string where
  "deadlockDetected = ''40P01''"

definition isRetryable :: "go_error \<Rightarrow> bool" where
  "isRetryable err =
     (case errors_As_PgError err of
        None \<Rightarrow> False
      | Some code \<Rightarrow> code = serializationFailure \<or> code = deadlockDetected)"

text \<open>
  An error that comes from below the store (the driver, the pool, the context) is never one of the
  store's own sentinels and never \<open>pgx.ErrNoRows\<close>, which the driver reserves for an empty result.
\<close>

definition driver_error :: "go_error \<Rightarrow> bool" where
  "driver_error e \<longleftrightarrow>
     \<not> errors_Is e ErrSeatUnavailable \<and> \<not> errors_Is e ErrHoldExpired \<and> \<not> errors_Is e ErrNotFound
     \<and> \<not> errors_Is e ErrIdempotencyKeyReuse \<and> \<not> errors_Is e ErrNoRows"


section \<open>The chain\<close>

lemma errors_Is_refl [simp]: "errors_Is e e"
  by (cases e) simp_all

lemma errors_Is_unwrap:
  "errors_Is e t \<longleftrightarrow> e = t \<or> (\<exists>e'. unwrap e = Some e' \<and> errors_Is e' t)"
  by (cases e) auto

lemma isUniqueViolation_simps [simp]:
  "isUniqueViolation (PgError c) = (c = uniqueViolationCode)"
  "isUniqueViolation (Wrap p e) = isUniqueViolation e"
  "\<not> isUniqueViolation ErrNoRows"
  "\<not> isUniqueViolation ErrSeatUnavailable"
  by (simp_all add: isUniqueViolation_def)

lemma isRetryable_simps [simp]:
  "isRetryable (PgError c) = (c = serializationFailure \<or> c = deadlockDetected)"
  "isRetryable (Wrap p e) = isRetryable e"
  "isRetryable (WrapLast e l) = isRetryable e"
  "\<not> isRetryable ErrSeatUnavailable"
  "\<not> isRetryable ErrHoldExpired"
  "\<not> isRetryable ErrNotFound"
  "\<not> isRetryable ErrIdempotencyKeyReuse"
  "\<not> isRetryable DeadlineExceeded"
  "\<not> isRetryable ContextCanceled"
  by (simp_all add: isRetryable_def)

text \<open>The two classifications never overlap: a lost seat race is not retried.\<close>

lemma unique_violation_not_retryable: "isUniqueViolation e \<Longrightarrow> \<not> isRetryable e"
  by (auto simp: isUniqueViolation_def isRetryable_def uniqueViolationCode_def
      serializationFailure_def deadlockDetected_def)

lemma driver_error_Wrap [simp]: "driver_error (Wrap p e) \<longleftrightarrow> driver_error e"
  by (simp add: driver_error_def)

lemma driver_error_PgError [simp]: "driver_error (PgError c)"
  by (simp add: driver_error_def)

end
