(* ===== verification/Schema.thy ===== *)
theory Schema
  imports Errors
begin

text \<open>
  The database the program owns: the tables of \<open>migrations/0001\<close> to \<open>0008\<close> as lists of rows, the
  identity sequences, the constraints every write is checked against, and the way the Go code
  talks to it (a call that may fail before or after it took effect, a transaction with its
  deferred rollback). The theory ends with the invariant \<open>schema_inv\<close> that the constraints and
  the sequences give.
\<close>

section \<open>Rows and tables\<close>

record seats_row =
  se_match_id :: string
  se_seat_id :: string
  se_section :: string

record matches_row =
  ma_id :: string
  ma_name :: string
  ma_start_time :: time

text \<open>\<open>CHECK (status IN ('held','confirmed','expired','cancelled'))\<close>\<close>

datatype bstatus = Held | Confirmed | Expired | Cancelled

fun status_text :: "bstatus \<Rightarrow> string" where
  "status_text Held = ''held''"
| "status_text Confirmed = ''confirmed''"
| "status_text Expired = ''expired''"
| "status_text Cancelled = ''cancelled''"

record bookings_row =
  bk_id :: int
  bk_match_id :: string
  bk_seat_id :: string
  bk_buyer_id :: string
  bk_status :: bstatus
  bk_hold_expires_at :: "time option"
  bk_confirmed_at :: "time option"
  bk_cancelled_at :: "time option"
  bk_created_at :: time

text \<open>\<open>CHECK (status IN ('pending','refunded','failed'))\<close>\<close>

datatype rstatus = Pending | Refunded | Failed

fun rstatus_text :: "rstatus \<Rightarrow> string" where
  "rstatus_text Pending = ''pending''"
| "rstatus_text Refunded = ''refunded''"
| "rstatus_text Failed = ''failed''"

definition rstatus_of_text :: "string \<Rightarrow> rstatus option" where
  "rstatus_of_text t =
     (if t = ''pending'' then Some Pending
      else if t = ''refunded'' then Some Refunded
      else if t = ''failed'' then Some Failed
      else None)"

record refunds_row =
  rf_id :: int
  rf_booking_id :: int
  rf_status :: rstatus
  rf_requested_at :: time
  rf_completed_at :: "time option"
  rf_external_ref :: "string option"

text \<open>
  A \<open>jsonb\<close> value. Numbers that are integers are kept apart from the others, since decoding into
  an \<open>int64\<close> field accepts only the former.
\<close>

datatype jsonb =
    JNull
  | JBool bool
  | JInt int
  | JNumber string
  | JString string
  | JArray "jsonb list"
  | JObject "(string \<times> jsonb) list"

record outbox_events_row =
  ob_id :: int
  ob_event_type :: string
  ob_booking_id :: int
  ob_payload :: jsonb
  ob_created_at :: time
  ob_processed_at :: "time option"
  ob_claimed_at :: "time option"

record idempotency_keys_row =
  ik_key :: string
  ik_booking_id :: int
  ik_created_at :: time

record db =
  seats :: "seats_row list"
  matches :: "matches_row list"
  bookings :: "bookings_row list"
  refunds :: "refunds_row list"
  outbox_events :: "outbox_events_row list"
  idempotency_keys :: "idempotency_keys_row list"
  bookings_id_seq :: int
  refunds_id_seq :: int
  outbox_events_id_seq :: int


section \<open>Constraints\<close>

definition is_held :: "bookings_row \<Rightarrow> bool" where
  "is_held b \<longleftrightarrow> bk_status b = Held"

text \<open>The predicate of \<open>ux_bookings_active_seat\<close>.\<close>

definition active :: "bookings_row \<Rightarrow> bool" where
  "active b \<longleftrightarrow> bk_status b = Held \<or> bk_status b = Confirmed"

definition seat_key :: "bookings_row \<Rightarrow> string \<times> string" where
  "seat_key b = (bk_match_id b, bk_seat_id b)"

definition buyer_key :: "bookings_row \<Rightarrow> string \<times> string" where
  "buyer_key b = (bk_match_id b, bk_buyer_id b)"

text \<open>
  The SQLSTATE a write to \<open>bookings\<close> fails with, \<open>None\<close> when it is accepted: the row check
  (23514), then the primary key and the two partial unique indexes (23505), then the foreign keys
  (23503), which PostgreSQL checks at the end of the statement.
\<close>

definition bookings_violation :: "db \<Rightarrow> bookings_row list \<Rightarrow> string option" where
  "bookings_violation d rows =
     (if \<not> list_all (\<lambda>b. is_held b \<longrightarrow> bk_hold_expires_at b \<noteq> None) rows
      then Some ''23514''
      else if \<not> (distinct (map bk_id rows)
               \<and> distinct (map seat_key (filter active rows))
               \<and> distinct (map buyer_key (filter is_held rows)))
      then Some uniqueViolationCode
      else if \<not> list_all (\<lambda>b. seat_key b \<in> set (map (\<lambda>s. (se_match_id s, se_seat_id s)) (seats d))
                            \<and> bk_match_id b \<in> set (map ma_id (matches d))) rows
      then Some ''23503''
      else None)"

definition write_bookings :: "bookings_row list \<Rightarrow> (db, go_error, unit) action" where
  "write_bookings rows d =
     (case bookings_violation d rows of
        Some code \<Rightarrow> (Inl (PgError code), d)
      | None \<Rightarrow> (Inr (), d\<lparr>bookings := rows\<rparr>))"

text \<open>\<open>GENERATED ALWAYS AS IDENTITY\<close>: a \<open>bigint\<close> sequence from 1, an error once exhausted.\<close>

definition sequence_exhausted :: go_error where
  "sequence_exhausted = PgError ''2200H''"


section \<open>Calls and transactions\<close>

text \<open>
  What can happen to one call on the pool or on a transaction: it works, it fails before it
  reached the server, or it took effect and its reply was lost. Inside a transaction the last two
  are the same, because the deferred rollback undoes the statement.
\<close>

datatype fault = NoFault | FailBefore go_error | FailAfter go_error

definition withFault :: "fault \<Rightarrow> (db, go_error, 'a) action \<Rightarrow> (db, go_error, 'a) action" where
  "withFault f m d =
     (case f of
        NoFault \<Rightarrow> m d
      | FailBefore e \<Rightarrow> (Inl e, d)
      | FailAfter e \<Rightarrow> (Inl e, snd (m d)))"

text \<open>A rollback restores the tables; values drawn from a sequence are not given back.\<close>

definition rollback :: "db \<Rightarrow> db \<Rightarrow> db" where
  "rollback d w = d\<lparr>bookings_id_seq := bookings_id_seq w,
                    refunds_id_seq := refunds_id_seq w,
                    outbox_events_id_seq := outbox_events_id_seq w\<rparr>"

text \<open>
  \<open>tx, err := pool.Begin(ctx); defer tx.Rollback(ctx); ...; tx.Commit(ctx)\<close>: \<open>fb\<close> is the fate of
  \<open>Begin\<close>, \<open>fc\<close> that of \<open>Commit\<close>, each with the wrapping its error gets.
\<close>

definition in_tx ::
  "fault \<Rightarrow> (go_error \<Rightarrow> 'e) \<Rightarrow> fault \<Rightarrow> (go_error \<Rightarrow> 'e) \<Rightarrow> (db, 'e, 'a) action \<Rightarrow> (db, 'e, 'a) action"
where
  "in_tx fb wb fc wc body d =
     (case fb of
        FailBefore e \<Rightarrow> (Inl (wb e), d)
      | FailAfter e \<Rightarrow> (Inl (wb e), d)
      | NoFault \<Rightarrow>
          (case body d of
             (Inl e, w) \<Rightarrow> (Inl e, rollback d w)
           | (Inr a, w) \<Rightarrow>
               (case fc of
                  NoFault \<Rightarrow> (Inr a, w)
                | FailBefore e \<Rightarrow> (Inl (wc e), rollback d w)
                | FailAfter e \<Rightarrow> (Inl (wc e), w))))"

text \<open>\<open>UPDATE bookings SET f WHERE P\<close>, and the same with a \<open>RETURNING\<close> that the Go code scans the first row of.\<close>

definition update_bookings ::
  "(bookings_row \<Rightarrow> bool) \<Rightarrow> (bookings_row \<Rightarrow> bookings_row) \<Rightarrow> (db, go_error, unit) action"
where
  "update_bookings P f d = write_bookings (update_where P f (bookings d)) d"

definition update_bookings_returning ::
  "(bookings_row \<Rightarrow> bool) \<Rightarrow> (bookings_row \<Rightarrow> bookings_row) \<Rightarrow> (db, go_error, bookings_row) action"
where
  "update_bookings_returning P f d =
     (case update_bookings P f d of
        (Inl e, d') \<Rightarrow> (Inl e, d')
      | (Inr _, d') \<Rightarrow>
          (case map f (filter P (bookings d)) of
             [] \<Rightarrow> (Inl ErrNoRows, d')
           | r # _ \<Rightarrow> (Inr r, d')))"

text \<open>The tables of two states agree (their sequences may differ).\<close>

definition same_tables :: "db \<Rightarrow> db \<Rightarrow> bool" where
  "same_tables d d' \<longleftrightarrow>
     seats d' = seats d \<and> matches d' = matches d \<and> bookings d' = bookings d \<and> refunds d' = refunds d
     \<and> outbox_events d' = outbox_events d \<and> idempotency_keys d' = idempotency_keys d"

definition seqs_grow :: "db \<Rightarrow> db \<Rightarrow> bool" where
  "seqs_grow d d' \<longleftrightarrow>
     bookings_id_seq d \<le> bookings_id_seq d' \<and> refunds_id_seq d \<le> refunds_id_seq d'
     \<and> outbox_events_id_seq d \<le> outbox_events_id_seq d'"

text \<open>No statement writes the inventory: \<open>seats\<close> and \<open>matches\<close> come from the fixtures.\<close>

definition same_inventory :: "db \<Rightarrow> db \<Rightarrow> bool" where
  "same_inventory d d' \<longleftrightarrow> seats d' = seats d \<and> matches d' = matches d"


section \<open>The invariant of the schema\<close>

definition bookings_ok :: "db \<Rightarrow> bookings_row list \<Rightarrow> bool" where
  "bookings_ok d rows \<longleftrightarrow>
     list_all (\<lambda>b. is_held b \<longrightarrow> bk_hold_expires_at b \<noteq> None) rows
     \<and> distinct (map bk_id rows)
     \<and> distinct (map seat_key (filter active rows))
     \<and> distinct (map buyer_key (filter is_held rows))
     \<and> list_all (\<lambda>b. seat_key b \<in> set (map (\<lambda>s. (se_match_id s, se_seat_id s)) (seats d))
                    \<and> bk_match_id b \<in> set (map ma_id (matches d))) rows"

definition in_sequence :: "int \<Rightarrow> int list \<Rightarrow> bool" where
  "in_sequence n ids \<longleftrightarrow> 1 \<le> n \<and> n \<le> max_int64 + 1 \<and> list_all (\<lambda>i. 1 \<le> i \<and> i < n) ids"

definition inventory_ok :: "db \<Rightarrow> bool" where
  "inventory_ok d \<longleftrightarrow>
     distinct (map (\<lambda>s. (se_match_id s, se_seat_id s)) (seats d)) \<and> distinct (map ma_id (matches d))"

definition schema_inv :: "db \<Rightarrow> bool" where
  "schema_inv d \<longleftrightarrow>
     inventory_ok d
     \<and> bookings_ok d (bookings d)
     \<and> distinct (map rf_id (refunds d))
     \<and> distinct (map ob_id (outbox_events d))
     \<and> distinct (map ik_key (idempotency_keys d))
     \<and> list_all (\<lambda>r. rf_booking_id r \<in> set (map bk_id (bookings d))) (refunds d)
     \<and> list_all (\<lambda>e. ob_booking_id e \<in> set (map bk_id (bookings d))) (outbox_events d)
     \<and> list_all (\<lambda>k. ik_booking_id k \<in> set (map bk_id (bookings d))) (idempotency_keys d)
     \<and> in_sequence (bookings_id_seq d) (map bk_id (bookings d))
     \<and> in_sequence (refunds_id_seq d) (map rf_id (refunds d))
     \<and> in_sequence (outbox_events_id_seq d) (map ob_id (outbox_events d))"

declare is_held_def [row_defs] active_def [row_defs] seat_key_def [row_defs] buyer_key_def [row_defs]

lemma bookings_violation_None [simp]: "bookings_violation d rows = None \<longleftrightarrow> bookings_ok d rows"
  by (auto simp: bookings_violation_def bookings_ok_def)

lemma bookings_ok_same_inventory:
  "same_inventory d d' \<Longrightarrow> bookings_ok d' rows \<longleftrightarrow> bookings_ok d rows"
  by (simp add: bookings_ok_def same_inventory_def)

lemma bookings_ok_update [simp]:
  "bookings_ok (d\<lparr>bookings := r\<rparr>) rows = bookings_ok d rows"
  "bookings_ok (d\<lparr>refunds := rf\<rparr>) rows = bookings_ok d rows"
  "bookings_ok (d\<lparr>outbox_events := oe\<rparr>) rows = bookings_ok d rows"
  "bookings_ok (d\<lparr>idempotency_keys := ks\<rparr>) rows = bookings_ok d rows"
  "bookings_ok (d\<lparr>bookings_id_seq := n\<rparr>) rows = bookings_ok d rows"
  "bookings_ok (d\<lparr>refunds_id_seq := n\<rparr>) rows = bookings_ok d rows"
  "bookings_ok (d\<lparr>outbox_events_id_seq := n\<rparr>) rows = bookings_ok d rows"
  by (simp_all add: bookings_ok_def)

lemma bookings_violation_update [simp]:
  "bookings_violation (d\<lparr>bookings := r\<rparr>) rows = bookings_violation d rows"
  "bookings_violation (d\<lparr>refunds := rf\<rparr>) rows = bookings_violation d rows"
  "bookings_violation (d\<lparr>outbox_events := oe\<rparr>) rows = bookings_violation d rows"
  "bookings_violation (d\<lparr>idempotency_keys := ks\<rparr>) rows = bookings_violation d rows"
  "bookings_violation (d\<lparr>bookings_id_seq := n\<rparr>) rows = bookings_violation d rows"
  "bookings_violation (d\<lparr>refunds_id_seq := n\<rparr>) rows = bookings_violation d rows"
  "bookings_violation (d\<lparr>outbox_events_id_seq := n\<rparr>) rows = bookings_violation d rows"
  by (simp_all add: bookings_violation_def)

lemma write_bookings_ok: "bookings_ok d rows \<Longrightarrow> write_bookings rows d = (Inr (), d\<lparr>bookings := rows\<rparr>)"
  by (simp add: write_bookings_def split: option.splits)


section \<open>Updates that take rows out of the indexes\<close>

text \<open>
  Every \<open>UPDATE\<close> of the store leaves the identity of a row alone and moves it, if at all, out of
  the active or the held rows. Such an update never violates a constraint, so it never raises.
\<close>

definition demotes :: "(bookings_row \<Rightarrow> bool) \<Rightarrow> (bookings_row \<Rightarrow> bookings_row) \<Rightarrow> bool" where
  "demotes P f \<longleftrightarrow>
     (\<forall>r. P r \<longrightarrow> bk_id (f r) = bk_id r \<and> seat_key (f r) = seat_key r \<and> buyer_key (f r) = buyer_key r
        \<and> (active (f r) \<longrightarrow> active r)
        \<and> (is_held (f r) \<longrightarrow> is_held r \<and> (bk_hold_expires_at (f r) = None \<longrightarrow> bk_hold_expires_at r = None)))"

lemma bookings_ok_demotes:
  assumes "bookings_ok d rows" and "demotes P f"
  shows "bookings_ok d (update_where P f rows)"
proof -
  note dm = assms(2) [unfolded demotes_def, rule_format]
  have match: "bk_match_id (f r) = bk_match_id r" if "P r" for r
    using dm [OF that] by (simp add: seat_key_def)
  have "map bk_id (update_where P f rows) = map bk_id rows"
    by (rule map_update_where) (use dm in blast)
  moreover have "distinct (map seat_key (filter active (update_where P f rows)))"
    by (rule distinct_index_update_where) (use assms(1) dm in \<open>auto simp: bookings_ok_def\<close>)
  moreover have "distinct (map buyer_key (filter is_held (update_where P f rows)))"
    by (rule distinct_index_update_where) (use assms(1) dm in \<open>auto simp: bookings_ok_def\<close>)
  moreover have "bk_hold_expires_at (f r) \<noteq> None" if "r \<in> set rows" "P r" "is_held (f r)" for r
    using dm [OF that(2)] that assms(1) by (auto simp: bookings_ok_def list_all_iff)
  ultimately show ?thesis
    using assms(1) dm match
    by (auto simp: bookings_ok_def list_all_iff set_update_where split: if_splits)
qed

lemma bookings_ok_self: "schema_inv d \<Longrightarrow> bookings_ok d (bookings d)"
  by (simp add: schema_inv_def)

lemma update_bookings_ok:
  assumes "bookings_ok d (bookings d)" and "demotes P f"
  shows "update_bookings P f d = (Inr (), d\<lparr>bookings := update_where P f (bookings d)\<rparr>)"
  using bookings_ok_demotes [OF assms] by (simp add: update_bookings_def write_bookings_ok)

lemmas update_bookings_demotes = update_bookings_ok [OF bookings_ok_self]

lemma schema_inv_demotes:
  assumes "schema_inv d" and "demotes P f"
  shows "schema_inv (d\<lparr>bookings := update_where P f (bookings d)\<rparr>)"
proof -
  have "map bk_id (update_where P f (bookings d)) = map bk_id (bookings d)"
    by (rule map_update_where) (use assms(2) in \<open>simp add: demotes_def\<close>)
  then show ?thesis
    using assms bookings_ok_demotes [OF bookings_ok_self [OF assms(1)] assms(2)]
    by (simp add: schema_inv_def inventory_ok_def del: list.set_map)
qed


section \<open>The contract of a statement and of a transaction\<close>

text \<open>
  A relation on database states that a statement obeys, whatever its outcome. A transaction obeys
  it when a rollback from any state the body can leave behind stays within it.
\<close>

locale db_contract = step_contract R for R :: "db \<Rightarrow> db \<Rightarrow> bool" +
  assumes R_rollback: "R d w \<Longrightarrow> R d (rollback d w)"
begin

lemma obeys_withFault: "obeys R m \<Longrightarrow> obeys R (withFault f m)"
  by (auto simp: obeys_def withFault_def R_refl split: fault.splits)

lemma obeys_in_tx:
  assumes "obeys R body"
  shows "obeys R (in_tx fb wb fc wc body)"
proof
  fix d
  obtain r w where b: "body d = (r, w)" by (cases "body d")
  then have "R d w" using assms by (metis obeys_eqD)
  then show "R d (snd (in_tx fb wb fc wc body d))"
    using b R_refl R_rollback by (auto simp: in_tx_def split: fault.splits sum.splits)
qed

lemmas tx_intros = obeys_intros obeys_withFault obeys_in_tx

end

text \<open>
  The instance every statement of the store is proved to obey: it keeps the schema's invariant,
  lets the sequences grow only, and never writes the inventory.
\<close>

definition schema_step :: "db \<Rightarrow> db \<Rightarrow> bool" where
  "schema_step d d' \<longleftrightarrow> (schema_inv d \<longrightarrow> schema_inv d') \<and> seqs_grow d d' \<and> same_inventory d d'"

lemma in_sequence_grow: "in_sequence n ids \<Longrightarrow> n \<le> m \<Longrightarrow> in_sequence m ids' \<Longrightarrow> in_sequence m ids"
  by (auto simp: in_sequence_def list_all_iff)

lemma schema_inv_rollback:
  "schema_inv d \<Longrightarrow> schema_inv w \<Longrightarrow> seqs_grow d w \<Longrightarrow> schema_inv (rollback d w)"
  by (auto simp: schema_inv_def rollback_def seqs_grow_def inventory_ok_def intro: in_sequence_grow
      simp del: list.set_map)

interpretation schema: db_contract schema_step
proof unfold_locales
  fix d w :: db
  assume "schema_step d w"
  then show "schema_step d (rollback d w)"
    using schema_inv_rollback [of d w]
    by (auto simp: schema_step_def seqs_grow_def same_inventory_def rollback_def)
qed (auto simp: schema_step_def seqs_grow_def same_inventory_def)

lemma write_bookings_inventory [simp]:
  "same_inventory d (snd (write_bookings rows d))" "seqs_grow d (snd (write_bookings rows d))"
  by (auto simp: write_bookings_def same_inventory_def seqs_grow_def split: option.splits)

lemma obeys_update_bookings:
  assumes "demotes P f"
  shows "obeys schema_step (update_bookings P f)"
proof
  fix d
  have "schema_inv d \<Longrightarrow> schema_inv (snd (update_bookings P f d))"
    using assms by (simp add: update_bookings_demotes schema_inv_demotes)
  then show "schema_step d (snd (update_bookings P f d))"
    by (simp add: schema_step_def) (simp add: update_bookings_def)
qed

lemma update_bookings_returning_snd [simp]:
  "snd (update_bookings_returning P f d) = snd (update_bookings P f d)"
  by (auto simp: update_bookings_returning_def split: prod.splits sum.splits list.splits)

lemma obeys_update_bookings_returning:
  "demotes P f \<Longrightarrow> obeys schema_step (update_bookings_returning P f)"
  using obeys_update_bookings by (simp add: obeys_def)

lemma update_returning_ok:
  assumes "bookings_ok d (bookings d)" and "demotes P f"
  shows "update_bookings_returning P f d =
           ((case filter P (bookings d) of [] \<Rightarrow> Inl ErrNoRows | r # _ \<Rightarrow> Inr (f r)),
            d\<lparr>bookings := update_where P f (bookings d)\<rparr>)"
  by (simp add: update_bookings_returning_def update_bookings_ok [OF assms] split: list.splits)

lemmas update_bookings_returning_demotes = update_returning_ok [OF bookings_ok_self]

text \<open>A compare-and-swap on the primary key reads and writes at most the one row.\<close>

lemma schema_inv_bk_id: "schema_inv d \<Longrightarrow> distinct (map bk_id (bookings d))"
  by (simp add: schema_inv_def bookings_ok_def)

lemma cas_ok:
  assumes "bookings_ok d (bookings d)" and "demotes (\<lambda>r. bk_id r = i \<and> P r) f"
    and "b \<in> set (bookings d)" and "bk_id b = i"
  shows "update_bookings_returning (\<lambda>r. bk_id r = i \<and> P r) f d =
           (if P b then Inr (f b) else Inl ErrNoRows,
            d\<lparr>bookings := update_where (\<lambda>r. bk_id r = i \<and> P r) f (bookings d)\<rparr>)"
  using filter_key_and [of bk_id "bookings d" b P] assms
  by (simp add: update_returning_ok [OF assms(1,2)] bookings_ok_def)

lemmas cas_on_id = cas_ok [OF bookings_ok_self]

lemma cas_no_row:
  assumes "schema_inv d" and "\<forall>b \<in> set (bookings d). \<not> P b"
  shows "update_bookings_returning P f d = (Inl ErrNoRows, d)"
proof -
  have "update_where P f (bookings d) = bookings d" by (rule update_where_none) (use assms in blast)
  moreover have "filter P (bookings d) = []" using assms(2) by (simp add: filter_empty_conv)
  ultimately show ?thesis
    using bookings_ok_self [OF assms(1)]
    by (simp add: update_bookings_returning_def update_bookings_def write_bookings_ok)
qed

lemma rollback_same_tables [simp]: "same_tables d (rollback d w)"
  by (simp add: same_tables_def rollback_def)

lemma rollback_self [simp]: "rollback d d = d"
  by (simp add: rollback_def)

lemma withFault_NoFault [simp]: "withFault NoFault m = m"
  by (rule ext) (simp add: withFault_def)

lemma withFault_Inr: "withFault f m d = (Inr a, d') \<longleftrightarrow> f = NoFault \<and> m d = (Inr a, d')"
  by (auto simp: withFault_def split: fault.splits)

lemma in_tx_Inr: "in_tx fb wb fc wc body d = (Inr a, d') \<longleftrightarrow> fb = NoFault \<and> fc = NoFault \<and> body d = (Inr a, d')"
  by (auto simp: in_tx_def split: fault.splits prod.splits sum.splits)

text \<open>A transaction leaves the tables as they were, or as its body left them on success.\<close>

lemma in_tx_atomic:
  assumes "in_tx fb wb fc wc body d = (r, d')"
  shows "same_tables d d' \<or> (\<exists>a. body d = (Inr a, d'))"
  using assms
  by (auto simp: in_tx_def same_tables_def rollback_def split: fault.splits prod.splits sum.splits)

lemma in_tx_error_same_tables:
  assumes "in_tx fb wb fc wc body d = (Inl e, d')" and "\<nexists>e. fc = FailAfter e"
  shows "same_tables d d'"
  using assms by (auto simp: in_tx_def same_tables_def rollback_def split: fault.splits prod.splits sum.splits)

end
