(* ===== verification/Holds.thy ===== *)
theory Holds
  imports Schema
begin

text \<open>
  The hold path of \<open>internal/store/holds.go\<close>: \<open>placeHold\<close> with its idempotency keys (and the two
  entry points over it), \<open>lookupIdempotentHold\<close>, \<open>ConfirmHold\<close> and \<open>ReleaseHold\<close>. One definition
  per SQL statement, one per Go function. What other sessions commit between two separate round
  trips of one call, the database clock at each of them and the faults of every call are
  parameters, collected in the record \<open>hold_env\<close>.
\<close>

section \<open>Go types\<close>

record BookingRow =
  br_ID :: int
  br_MatchID :: string
  br_SeatID :: string
  br_BuyerID :: string
  br_Status :: string
  br_HoldExpiresAt :: "time option"
  br_ConfirmedAt :: "time option"

datatype idemState = idemMiss | idemLive | idemDead | idemMismatch

text \<open>The calls of \<open>placeHold\<close> on the pool and on its transaction, in the order of the code.\<close>

datatype hold_site =
    LookupKey | BeginTx | LockBuyer | ClearStaleKey | ReleasePrevious | ExpireStale
  | InsertHold | RecordKey | CommitTx | ReplayLookup

record hold_env =
  he_lookup_now :: time           \<comment> \<open>database clock at the first lookup\<close>
  he_before_tx :: "db \<Rightarrow> db"      \<comment> \<open>commits of other sessions between the lookup and the transaction\<close>
  he_tx_now :: time               \<comment> \<open>\<open>now()\<close> of the transaction\<close>
  he_before_replay :: "db \<Rightarrow> db"  \<comment> \<open>commits of other sessions before the second lookup\<close>
  he_replay_now :: time
  he_fault :: "hold_site \<Rightarrow> fault"


section \<open>Statements\<close>

text \<open>\<open>hold_expires_at > now()\<close> and \<open>hold_expires_at < now()\<close>; a NULL compares to neither.\<close>

definition expires_after :: "time \<Rightarrow> bookings_row \<Rightarrow> bool" where
  "expires_after now b = (case bk_hold_expires_at b of None \<Rightarrow> False | Some e \<Rightarrow> e > now)"

definition expires_before :: "time \<Rightarrow> bookings_row \<Rightarrow> bool" where
  "expires_before now b = (case bk_hold_expires_at b of None \<Rightarrow> False | Some e \<Rightarrow> e < now)"

text \<open>
  \<open>pg_advisory_xact_lock\<close> blocks until the lock is free and changes no table; transactions are
  serialised here, so it is free. \<open>ReadCommitted\<close> has transactions that overlap, and what the lock does for them.
\<close>

definition sql_lock_buyer :: "string \<Rightarrow> string \<Rightarrow> (db, go_error, unit) action" where
  "sql_lock_buyer matchID buyerID = returnA ()"

definition sql_clear_stale_key :: "string \<Rightarrow> int \<Rightarrow> (db, go_error, unit) action" where
  "sql_clear_stale_key key bookingID d =
     (Inr (), d\<lparr>idempotency_keys :=
        filter (\<lambda>k. \<not> (ik_key k = key \<and> ik_booking_id k = bookingID)) (idempotency_keys d)\<rparr>)"

definition cancel_row :: "time \<Rightarrow> bookings_row \<Rightarrow> bookings_row" where
  "cancel_row now b = b\<lparr>bk_status := Cancelled, bk_cancelled_at := Some now\<rparr>"

definition expire_row :: "bookings_row \<Rightarrow> bookings_row" where
  "expire_row b = b\<lparr>bk_status := Expired\<rparr>"

definition confirm_row :: "time \<Rightarrow> bookings_row \<Rightarrow> bookings_row" where
  "confirm_row now b =
     b\<lparr>bk_status := Confirmed, bk_confirmed_at := Some now, bk_hold_expires_at := None\<rparr>"

definition previous_hold :: "string \<Rightarrow> string \<Rightarrow> string \<Rightarrow> bookings_row \<Rightarrow> bool" where
  "previous_hold matchID seatID buyerID b \<longleftrightarrow>
     bk_match_id b = matchID \<and> bk_buyer_id b = buyerID \<and> bk_status b = Held \<and> bk_seat_id b \<noteq> seatID"

definition sql_release_previous ::
  "time \<Rightarrow> string \<Rightarrow> string \<Rightarrow> string \<Rightarrow> (db, go_error, unit) action"
where
  "sql_release_previous now matchID seatID buyerID =
     update_bookings (previous_hold matchID seatID buyerID) (cancel_row now)"

definition stale_hold :: "time \<Rightarrow> string \<Rightarrow> string \<Rightarrow> bookings_row \<Rightarrow> bool" where
  "stale_hold now matchID seatID b \<longleftrightarrow>
     bk_match_id b = matchID \<and> bk_seat_id b = seatID \<and> bk_status b = Held \<and> expires_before now b"

definition sql_expire_stale :: "time \<Rightarrow> string \<Rightarrow> string \<Rightarrow> (db, go_error, unit) action" where
  "sql_expire_stale now matchID seatID = update_bookings (stale_hold now matchID seatID) expire_row"

definition new_hold :: "int \<Rightarrow> string \<Rightarrow> string \<Rightarrow> string \<Rightarrow> time \<Rightarrow> time \<Rightarrow> bookings_row" where
  "new_hold i matchID seatID buyerID expires now =
     \<lparr>bk_id = i, bk_match_id = matchID, bk_seat_id = seatID, bk_buyer_id = buyerID,
      bk_status = Held, bk_hold_expires_at = Some expires, bk_confirmed_at = None,
      bk_cancelled_at = None, bk_created_at = now\<rparr>"

definition sql_insert_hold ::
  "time \<Rightarrow> string \<Rightarrow> string \<Rightarrow> string \<Rightarrow> int \<Rightarrow> (db, go_error, bookings_row) action"
where
  "sql_insert_hold now matchID seatID buyerID micros d =
     (if max_int64 < bookings_id_seq d then (Inl sequence_exhausted, d)
      else let i = bookings_id_seq d;
               row = new_hold i matchID seatID buyerID (now + micros) now
           in (case write_bookings (bookings d @ [row]) (d\<lparr>bookings_id_seq := i + 1\<rparr>) of
                 (Inl e, d') \<Rightarrow> (Inl e, d')
               | (Inr _, d') \<Rightarrow> (Inr row, d')))"

definition sql_record_key :: "time \<Rightarrow> string \<Rightarrow> int \<Rightarrow> (db, go_error, unit) action" where
  "sql_record_key now key bookingID d =
     (if key \<in> set (map ik_key (idempotency_keys d)) then (Inl (PgError uniqueViolationCode), d)
      else if bookingID \<notin> set (map bk_id (bookings d)) then (Inl (PgError ''23503''), d)
      else (Inr (), d\<lparr>idempotency_keys := idempotency_keys d @
              [\<lparr>ik_key = key, ik_booking_id = bookingID, ik_created_at = now\<rparr>]\<rparr>))"


section \<open>lookupIdempotentHold\<close>

definition live :: "time \<Rightarrow> bookings_row \<Rightarrow> bool" where
  "live now b \<longleftrightarrow> bk_status b = Confirmed \<or> (bk_status b = Held \<and> expires_after now b)"

definition booking_row_of :: "bookings_row \<Rightarrow> BookingRow" where
  "booking_row_of b =
     \<lparr>br_ID = bk_id b, br_MatchID = bk_match_id b, br_SeatID = bk_seat_id b, br_BuyerID = bk_buyer_id b,
      br_Status = status_text (bk_status b), br_HoldExpiresAt = bk_hold_expires_at b,
      br_ConfirmedAt = bk_confirmed_at b\<rparr>"

definition zero_row :: BookingRow where
  "zero_row = \<lparr>br_ID = 0, br_MatchID = '''', br_SeatID = '''', br_BuyerID = '''', br_Status = '''',
               br_HoldExpiresAt = None, br_ConfirmedAt = None\<rparr>"

text \<open>The join of the key with its booking, and the classification of its first row.\<close>

definition key_bookings :: "string \<Rightarrow> db \<Rightarrow> bookings_row list" where
  "key_bookings key d =
     concat (map (\<lambda>k. filter (\<lambda>b. bk_id b = ik_booking_id k) (bookings d))
               (filter (\<lambda>k. ik_key k = key) (idempotency_keys d)))"

definition sql_lookup_key :: "fault \<Rightarrow> string \<Rightarrow> db \<Rightarrow> go_error + bookings_row" where
  "sql_lookup_key f idemKey d =
     (case f of
        FailBefore e \<Rightarrow> Inl e
      | FailAfter e \<Rightarrow> Inl e
      | NoFault \<Rightarrow> (case key_bookings idemKey d of [] \<Rightarrow> Inl ErrNoRows | b # _ \<Rightarrow> Inr b))"

definition lookupIdempotentHold ::
  "fault \<Rightarrow> time \<Rightarrow> string \<Rightarrow> string \<Rightarrow> string \<Rightarrow> string \<Rightarrow> db \<Rightarrow> go_error + BookingRow \<times> idemState"
where
  "lookupIdempotentHold f now matchID seatID buyerID idemKey d =
     (case sql_lookup_key f idemKey d of
        Inl err \<Rightarrow>
          if errors_Is err ErrNoRows then Inr (zero_row, idemMiss)
          else Inl (Wrap ''place hold: lookup idempotency key'' err)
      | Inr b \<Rightarrow>
          if bk_match_id b \<noteq> matchID \<or> bk_seat_id b \<noteq> seatID \<or> bk_buyer_id b \<noteq> buyerID
          then Inr (zero_row, idemMismatch)
          else if \<not> live now b then Inr (booking_row_of b, idemDead)
          else Inr (booking_row_of b, idemLive))"


section \<open>placeHold\<close>

text \<open>
  A failed transaction is an error to return, or a unique violation of one of the two \<open>INSERT\<close>s,
  which sends the code back to the key lookup.
\<close>

datatype hold_failure = FailWith go_error | Conflict

definition microseconds :: "duration \<Rightarrow> int" where
  "microseconds ttl = go_div ttl 1000"

definition insert_failure :: "go_error \<Rightarrow> hold_failure" where
  "insert_failure e = (if isUniqueViolation e then Conflict else FailWith (Wrap ''place hold: insert'' e))"

definition record_failure :: "go_error \<Rightarrow> hold_failure" where
  "record_failure e =
     (if isUniqueViolation e then Conflict else FailWith (Wrap ''place hold: record idempotency key'' e))"

definition hold_body ::
  "hold_env \<Rightarrow> string \<Rightarrow> string \<Rightarrow> string \<Rightarrow> duration \<Rightarrow> string \<Rightarrow> int \<Rightarrow> (db, hold_failure, BookingRow) action"
where
  "hold_body env matchID seatID buyerID ttl idemKey staleBookingID =
     (let now = he_tx_now env; flt = he_fault env in
      bindA (mapErrA (\<lambda>e. FailWith (Wrap ''place hold: lock buyer match'' e))
              (withFault (flt LockBuyer) (sql_lock_buyer matchID buyerID)))
      (\<lambda>_. bindA (if staleBookingID \<noteq> 0
                  then mapErrA (\<lambda>e. FailWith (Wrap ''place hold: clear stale idempotency key'' e))
                         (withFault (flt ClearStaleKey) (sql_clear_stale_key idemKey staleBookingID))
                  else returnA ())
      (\<lambda>_. bindA (mapErrA (\<lambda>e. FailWith (Wrap ''place hold: release previous buyer hold'' e))
              (withFault (flt ReleasePrevious) (sql_release_previous now matchID seatID buyerID)))
      (\<lambda>_. bindA (mapErrA (\<lambda>e. FailWith (Wrap ''place hold: expire stale hold'' e))
              (withFault (flt ExpireStale) (sql_expire_stale now matchID seatID)))
      (\<lambda>_. bindA (mapErrA insert_failure
              (withFault (flt InsertHold)
                (sql_insert_hold now matchID seatID buyerID (microseconds ttl))))
      (\<lambda>row. bindA (if idemKey \<noteq> ''''
                  then mapErrA record_failure
                         (withFault (flt RecordKey) (sql_record_key now idemKey (bk_id row)))
                  else returnA ())
      (\<lambda>_. returnA (booking_row_of row))))))))"

definition hold_tx ::
  "hold_env \<Rightarrow> string \<Rightarrow> string \<Rightarrow> string \<Rightarrow> duration \<Rightarrow> string \<Rightarrow> int \<Rightarrow> (db, hold_failure, BookingRow) action"
where
  "hold_tx env matchID seatID buyerID ttl idemKey staleBookingID =
     in_tx (he_fault env BeginTx) (\<lambda>e. FailWith (Wrap ''place hold: begin tx'' e))
           (he_fault env CommitTx) (\<lambda>e. FailWith (Wrap ''place hold: commit'' e))
           (hold_body env matchID seatID buyerID ttl idemKey staleBookingID)"

text \<open>After a unique violation the holder of the seat, or of the key, may be this request's own original.\<close>

definition replayHold ::
  "hold_env \<Rightarrow> string \<Rightarrow> string \<Rightarrow> string \<Rightarrow> string \<Rightarrow> db \<Rightarrow> go_error + BookingRow"
where
  "replayHold env matchID seatID buyerID idemKey d =
     (if idemKey \<noteq> '''' then
        (case lookupIdempotentHold (he_fault env ReplayLookup) (he_replay_now env)
                matchID seatID buyerID idemKey d of
           Inl lerr \<Rightarrow> Inl lerr
         | Inr (r, state) \<Rightarrow>
             if state = idemMismatch then Inl ErrIdempotencyKeyReuse
             else if state = idemLive then Inr r
             else Inl ErrSeatUnavailable)
      else Inl ErrSeatUnavailable)"

definition hold_attempt ::
  "hold_env \<Rightarrow> string \<Rightarrow> string \<Rightarrow> string \<Rightarrow> duration \<Rightarrow> string \<Rightarrow> int \<Rightarrow> (db, go_error, BookingRow) action"
where
  "hold_attempt env matchID seatID buyerID ttl idemKey staleBookingID d =
     (case hold_tx env matchID seatID buyerID ttl idemKey staleBookingID (he_before_tx env d) of
        (Inr row, d') \<Rightarrow> (Inr row, d')
      | (Inl (FailWith e), d') \<Rightarrow> (Inl e, d')
      | (Inl Conflict, d') \<Rightarrow>
          (let d'' = he_before_replay env d'
           in (replayHold env matchID seatID buyerID idemKey d'', d'')))"

definition placeHold ::
  "hold_env \<Rightarrow> string \<Rightarrow> string \<Rightarrow> string \<Rightarrow> duration \<Rightarrow> string \<Rightarrow> (db, go_error, BookingRow) action"
where
  "placeHold env matchID seatID buyerID ttl idemKey d =
     (if idemKey \<noteq> '''' then
        (case lookupIdempotentHold (he_fault env LookupKey) (he_lookup_now env)
                matchID seatID buyerID idemKey d of
           Inl err \<Rightarrow> (Inl err, d)
         | Inr (row, state) \<Rightarrow>
             if state = idemMismatch then (Inl ErrIdempotencyKeyReuse, d)
             else if state = idemLive then (Inr row, d)
             else if state = idemDead
             then hold_attempt env matchID seatID buyerID ttl idemKey (br_ID row) d
             else hold_attempt env matchID seatID buyerID ttl idemKey 0 d)
      else hold_attempt env matchID seatID buyerID ttl idemKey 0 d)"

definition PlaceHold ::
  "hold_env \<Rightarrow> string \<Rightarrow> string \<Rightarrow> string \<Rightarrow> duration \<Rightarrow> (db, go_error, BookingRow) action"
where
  "PlaceHold env matchID seatID buyerID ttl = placeHold env matchID seatID buyerID ttl ''''"

definition PlaceHoldWithKey ::
  "hold_env \<Rightarrow> string \<Rightarrow> string \<Rightarrow> string \<Rightarrow> duration \<Rightarrow> string \<Rightarrow> (db, go_error, BookingRow) action"
where
  "PlaceHoldWithKey env matchID seatID buyerID ttl idempotencyKey =
     placeHold env matchID seatID buyerID ttl idempotencyKey"


section \<open>ConfirmHold and ReleaseHold\<close>

definition confirmable :: "time \<Rightarrow> string \<Rightarrow> bookings_row \<Rightarrow> bool" where
  "confirmable now buyerID b \<longleftrightarrow> bk_buyer_id b = buyerID \<and> bk_status b = Held \<and> expires_after now b"

definition sql_confirm_hold :: "time \<Rightarrow> int \<Rightarrow> string \<Rightarrow> (db, go_error, bookings_row) action" where
  "sql_confirm_hold now holdID buyerID =
     update_bookings_returning (\<lambda>b. bk_id b = holdID \<and> confirmable now buyerID b) (confirm_row now)"

definition ConfirmHold :: "fault \<Rightarrow> time \<Rightarrow> int \<Rightarrow> string \<Rightarrow> (db, go_error, BookingRow) action" where
  "ConfirmHold f now holdID buyerID d =
     (case withFault f (sql_confirm_hold now holdID buyerID) d of
        (Inl err, d') \<Rightarrow>
          (if errors_Is err ErrNoRows then (Inl ErrHoldExpired, d')
           else (Inl (Wrap ''confirm hold'' err), d'))
      | (Inr b, d') \<Rightarrow>
          (Inr \<lparr>br_ID = holdID, br_MatchID = bk_match_id b, br_SeatID = bk_seat_id b,
                br_BuyerID = buyerID, br_Status = ''confirmed'',
                br_HoldExpiresAt = None, br_ConfirmedAt = bk_confirmed_at b\<rparr>, d'))"

definition releasable :: "string \<Rightarrow> bookings_row \<Rightarrow> bool" where
  "releasable buyerID b \<longleftrightarrow> bk_buyer_id b = buyerID \<and> bk_status b = Held"

definition sql_release_hold :: "time \<Rightarrow> int \<Rightarrow> string \<Rightarrow> (db, go_error, bookings_row) action" where
  "sql_release_hold now holdID buyerID =
     update_bookings_returning (\<lambda>b. bk_id b = holdID \<and> releasable buyerID b) (cancel_row now)"

definition ReleaseHold :: "fault \<Rightarrow> time \<Rightarrow> int \<Rightarrow> string \<Rightarrow> (db, go_error, string) action" where
  "ReleaseHold f now holdID buyerID d =
     (case withFault f (sql_release_hold now holdID buyerID) d of
        (Inl err, d') \<Rightarrow>
          (if errors_Is err ErrNoRows then (Inl ErrNotFound, d')
           else (Inl (Wrap ''release hold'' err), d'))
      | (Inr b, d') \<Rightarrow> (Inr (bk_match_id b), d'))"


section \<open>What the statements obey\<close>

lemma cancel_row_simps [simp]:
  "bk_id (cancel_row now b) = bk_id b" "seat_key (cancel_row now b) = seat_key b"
  "buyer_key (cancel_row now b) = buyer_key b" "bk_status (cancel_row now b) = Cancelled"
  "\<not> active (cancel_row now b)" "\<not> is_held (cancel_row now b)"
  by (simp_all add: cancel_row_def row_defs)

lemma expire_row_simps [simp]:
  "bk_id (expire_row b) = bk_id b" "seat_key (expire_row b) = seat_key b"
  "buyer_key (expire_row b) = buyer_key b" "bk_status (expire_row b) = Expired"
  "\<not> active (expire_row b)" "\<not> is_held (expire_row b)"
  by (simp_all add: expire_row_def row_defs)

lemma confirm_row_simps [simp]:
  "bk_id (confirm_row now b) = bk_id b" "seat_key (confirm_row now b) = seat_key b"
  "buyer_key (confirm_row now b) = buyer_key b" "bk_status (confirm_row now b) = Confirmed"
  "active (confirm_row now b)" "\<not> is_held (confirm_row now b)"
  by (simp_all add: confirm_row_def row_defs)

lemma demotes_cancel [simp, intro]: "demotes P (cancel_row now)"
  by (simp add: demotes_def)

lemma demotes_expire [simp, intro]: "demotes P expire_row"
  by (simp add: demotes_def)

lemma demotes_confirm [simp, intro]: "demotes (\<lambda>b. bk_id b = i \<and> confirmable now buyer b) (confirm_row now)"
  by (simp add: demotes_def confirmable_def active_def)

text \<open>
  \<open>placeHold\<close> composes six statements; a relation that each of them obeys, that survives a rollback
  and that the other sessions obey is obeyed by the whole call, on every path through it.
\<close>

definition env_obeys :: "(db \<Rightarrow> db \<Rightarrow> bool) \<Rightarrow> hold_env \<Rightarrow> bool" where
  "env_obeys R env \<longleftrightarrow> (\<forall>d. R d (he_before_tx env d)) \<and> (\<forall>d. R d (he_before_replay env d))"

locale hold_contract = db_contract R for R :: "db \<Rightarrow> db \<Rightarrow> bool" +
  assumes clear_key_R: "obeys R (sql_clear_stale_key key bid)"
    and release_previous_R: "obeys R (sql_release_previous now m s b)"
    and expire_stale_R: "obeys R (sql_expire_stale now m s)"
    and insert_hold_R: "obeys R (sql_insert_hold now m s b us)"
    and record_key_R: "obeys R (sql_record_key now key bid)"
    and confirm_R: "obeys R (sql_confirm_hold now i b)"
    and release_R: "obeys R (sql_release_hold now i b)"
begin

lemma obeys_hold_body: "obeys R (hold_body env m s b ttl key stale)"
  unfolding hold_body_def Let_def sql_lock_buyer_def
  by (intro tx_intros clear_key_R release_previous_R expire_stale_R insert_hold_R record_key_R)

lemma obeys_hold_tx: "obeys R (hold_tx env m s b ttl key stale)"
  unfolding hold_tx_def by (intro obeys_in_tx obeys_hold_body)

lemma obeys_hold_attempt:
  assumes "env_obeys R env"
  shows "obeys R (hold_attempt env m s b ttl key stale)"
proof
  fix d
  obtain r d' where tx: "hold_tx env m s b ttl key stale (he_before_tx env d) = (r, d')"
    by (cases "hold_tx env m s b ttl key stale (he_before_tx env d)")
  have "R d d'"
    using assms obeys_eqD [OF obeys_hold_tx tx] by (auto simp: env_obeys_def intro: R_trans)
  then show "R d (snd (hold_attempt env m s b ttl key stale d))"
    using tx assms
    by (auto simp: hold_attempt_def env_obeys_def Let_def intro: R_trans
        split: sum.splits hold_failure.splits)
qed

lemma obeys_placeHold:
  assumes "env_obeys R env"
  shows "obeys R (placeHold env m s b ttl key)"
proof
  fix d
  show "R d (snd (placeHold env m s b ttl key d))"
    using obeysD [OF obeys_hold_attempt [OF assms]] R_refl
    by (auto simp: placeHold_def split: sum.splits prod.splits)
qed

lemma obeys_ConfirmHold: "obeys R (ConfirmHold f now i b)"
proof
  fix d
  show "R d (snd (ConfirmHold f now i b d))"
    using obeysD [OF obeys_withFault [OF confirm_R]]
    by (auto simp: ConfirmHold_def split: sum.splits prod.splits) (metis snd_conv)+
qed

lemma obeys_ReleaseHold: "obeys R (ReleaseHold f now i b)"
proof
  fix d
  show "R d (snd (ReleaseHold f now i b d))"
    using obeysD [OF obeys_withFault [OF release_R]]
    by (auto simp: ReleaseHold_def split: sum.splits prod.splits) (metis snd_conv)+
qed

end

lemma sql_insert_hold_cases:
  obtains (exhausted) "max_int64 < bookings_id_seq d"
      "sql_insert_hold now m s b us d = (Inl sequence_exhausted, d)"
  | (refused) code where "bookings_id_seq d \<le> max_int64"
      "bookings_violation d (bookings d @ [new_hold (bookings_id_seq d) m s b (now + us) now]) = Some code"
      "sql_insert_hold now m s b us d = (Inl (PgError code), d\<lparr>bookings_id_seq := bookings_id_seq d + 1\<rparr>)"
  | (inserted) "bookings_id_seq d \<le> max_int64"
      "bookings_ok d (bookings d @ [new_hold (bookings_id_seq d) m s b (now + us) now])"
      "sql_insert_hold now m s b us d =
         (Inr (new_hold (bookings_id_seq d) m s b (now + us) now),
          d\<lparr>bookings_id_seq := bookings_id_seq d + 1,
            bookings := bookings d @ [new_hold (bookings_id_seq d) m s b (now + us) now]\<rparr>)"
proof (cases "max_int64 < bookings_id_seq d")
  case True
  then show thesis using exhausted by (simp add: sql_insert_hold_def)
next
  case False
  let ?rows = "bookings d @ [new_hold (bookings_id_seq d) m s b (now + us) now]"
  have same: "bookings_violation (d\<lparr>bookings_id_seq := bookings_id_seq d + 1\<rparr>) ?rows = bookings_violation d ?rows"
    by (simp add: bookings_violation_def)
  show thesis
  proof (cases "bookings_violation d ?rows")
    case None
    then have "bookings_ok d ?rows" by simp
    then show thesis using inserted False by (simp add: sql_insert_hold_def Let_def write_bookings_ok)
  next
    case (Some code)
    then show thesis using refused False same
      by (simp add: sql_insert_hold_def Let_def write_bookings_def)
  qed
qed

lemma new_hold_simps [simp]:
  "bk_id (new_hold i m s b e now) = i" "seat_key (new_hold i m s b e now) = (m, s)"
  "buyer_key (new_hold i m s b e now) = (m, b)" "bk_status (new_hold i m s b e now) = Held"
  "active (new_hold i m s b e now)" "is_held (new_hold i m s b e now)"
  "bk_match_id (new_hold i m s b e now) = m" "bk_seat_id (new_hold i m s b e now) = s"
  "bk_buyer_id (new_hold i m s b e now) = b" "bk_hold_expires_at (new_hold i m s b e now) = Some e"
  "bk_confirmed_at (new_hold i m s b e now) = None" "bk_cancelled_at (new_hold i m s b e now) = None"
  "bk_created_at (new_hold i m s b e now) = now"
  by (simp_all add: new_hold_def row_defs)

lemma schema_inv_seq_grow:
  "schema_inv d \<Longrightarrow> bookings_id_seq d \<le> n \<Longrightarrow> n \<le> max_int64 + 1 \<Longrightarrow> schema_inv (d\<lparr>bookings_id_seq := n\<rparr>)"
  by (fastforce simp: schema_inv_def inventory_ok_def in_sequence_def list_all_iff simp del: list.set_map)

lemma schema_inv_seq_bump:
  "schema_inv d \<Longrightarrow> bookings_id_seq d \<le> max_int64 \<Longrightarrow> schema_inv (d\<lparr>bookings_id_seq := bookings_id_seq d + 1\<rparr>)"
  by (rule schema_inv_seq_grow) simp_all

lemma schema_inv_insert:
  assumes "schema_inv d" and "bookings_id_seq d \<le> max_int64" and "bk_id row = bookings_id_seq d"
    and "bookings_ok d (bookings d @ [row])"
  shows "schema_inv (d\<lparr>bookings_id_seq := bookings_id_seq d + 1, bookings := bookings d @ [row]\<rparr>)"
  using assms by (fastforce simp: schema_inv_def inventory_ok_def in_sequence_def list_all_iff)

lemma obeys_insert_hold: "obeys schema_step (sql_insert_hold now m s b us)"
proof
  fix d
  show "schema_step d (snd (sql_insert_hold now m s b us d))"
  proof (cases rule: sql_insert_hold_cases [where d = d and now = now and m = m and s = s and b = b and us = us])
    case exhausted
    then show ?thesis by (simp add: schema.R_refl)
  next
    case (refused code)
    then show ?thesis
      using schema_inv_seq_bump by (auto simp: schema_step_def seqs_grow_def same_inventory_def)
  next
    case inserted
    then show ?thesis
      using schema_inv_insert [of d] by (auto simp: schema_step_def seqs_grow_def same_inventory_def)
  qed
qed

lemma schema_inv_keys:
  assumes "schema_inv d" and "distinct (map ik_key ks)"
    and "\<forall>k \<in> set ks. ik_booking_id k \<in> bk_id ` set (bookings d)"
  shows "schema_inv (d\<lparr>idempotency_keys := ks\<rparr>)"
  using assms by (simp add: schema_inv_def inventory_ok_def list_all_iff)

lemma obeys_clear_stale_key: "obeys schema_step (sql_clear_stale_key key bid)"
proof
  fix d
  have "schema_inv (snd (sql_clear_stale_key key bid d))" if "schema_inv d"
    unfolding sql_clear_stale_key_def snd_conv
    by (rule schema_inv_keys [OF that])
      (use that in \<open>auto simp: schema_inv_def list_all_iff distinct_map_filter\<close>)
  then show "schema_step d (snd (sql_clear_stale_key key bid d))"
    by (auto simp: schema_step_def seqs_grow_def same_inventory_def sql_clear_stale_key_def)
qed

lemma obeys_record_key: "obeys schema_step (sql_record_key now key bid)"
proof
  fix d
  have "schema_inv (snd (sql_record_key now key bid d))" if inv: "schema_inv d"
  proof (cases "key \<in> set (map ik_key (idempotency_keys d)) \<or> bid \<notin> set (map bk_id (bookings d))")
    case True
    then show ?thesis using inv by (auto simp: sql_record_key_def)
  next
    case False
    then show ?thesis
      using inv by (auto simp: sql_record_key_def schema_inv_def inventory_ok_def list_all_iff)
  qed
  then show "schema_step d (snd (sql_record_key now key bid d))"
    by (auto simp: schema_step_def seqs_grow_def same_inventory_def sql_record_key_def)
qed

interpretation hold_schema: hold_contract schema_step
proof unfold_locales
  show "obeys schema_step (sql_clear_stale_key key bid)" for key bid by (rule obeys_clear_stale_key)
  show "obeys schema_step (sql_release_previous now m s b)" for now m s b
    unfolding sql_release_previous_def by (rule obeys_update_bookings) simp
  show "obeys schema_step (sql_expire_stale now m s)" for now m s
    unfolding sql_expire_stale_def by (rule obeys_update_bookings) simp
  show "obeys schema_step (sql_insert_hold now m s b us)" for now m s b us by (rule obeys_insert_hold)
  show "obeys schema_step (sql_record_key now key bid)" for now key bid by (rule obeys_record_key)
  show "obeys schema_step (sql_confirm_hold now i b)" for now i b
    unfolding sql_confirm_hold_def by (rule obeys_update_bookings_returning) simp
  show "obeys schema_step (sql_release_hold now i b)" for now i b
    unfolding sql_release_hold_def by (rule obeys_update_bookings_returning) simp
qed

end
