(* ===== verification/Refunds.thy ===== *)
theory Refunds
  imports Holds
begin

text \<open>
  Cancellation and refunds: \<open>CancelBooking\<close> and \<open>MarkRefundStatus\<close> of \<open>internal/store/refunds.go\<close>,
  with \<open>insertOutboxEvent\<close> of \<open>internal/store/outbox.go\<close>, which writes within the caller's
  transaction. The invariant \<open>refund_inv\<close> ties the three tables together: a booking that was sold
  and cancelled has exactly one refund, a refund exactly one outbox event, and no event is marked
  processed while its refund is pending.
\<close>

section \<open>Statements\<close>

text \<open>\<open>json.Marshal(map[string]any{"refund_id": refundID})\<close>\<close>

definition refund_payload :: "int \<Rightarrow> jsonb" where
  "refund_payload refundID = JObject [(''refund_id'', JInt refundID)]"

definition cancellable :: "time \<Rightarrow> string \<Rightarrow> matches_row list \<Rightarrow> bookings_row \<Rightarrow> bool" where
  "cancellable now buyerID ms b \<longleftrightarrow>
     bk_buyer_id b = buyerID \<and> bk_status b = Confirmed
     \<and> list_ex (\<lambda>m. bk_match_id b = ma_id m \<and> now < ma_start_time m) ms"

definition sql_cancel_booking :: "time \<Rightarrow> int \<Rightarrow> string \<Rightarrow> (db, go_error, bookings_row) action" where
  "sql_cancel_booking now bookingID buyerID d =
     update_bookings_returning
       (\<lambda>b. bk_id b = bookingID \<and> cancellable now buyerID (matches d) b) (cancel_row now) d"

definition sql_insert_refund :: "time \<Rightarrow> int \<Rightarrow> (db, go_error, int) action" where
  "sql_insert_refund now bookingID d =
     (if max_int64 < refunds_id_seq d then (Inl sequence_exhausted, d)
      else let i = refunds_id_seq d; d1 = d\<lparr>refunds_id_seq := i + 1\<rparr>
           in if bookingID \<notin> set (map bk_id (bookings d)) then (Inl (PgError ''23503''), d1)
              else (Inr i, d1\<lparr>refunds := refunds d @
                     [\<lparr>rf_id = i, rf_booking_id = bookingID, rf_status = Pending, rf_requested_at = now,
                       rf_completed_at = None, rf_external_ref = None\<rparr>]\<rparr>))"

definition sql_insert_outbox_event ::
  "time \<Rightarrow> string \<Rightarrow> int \<Rightarrow> jsonb \<Rightarrow> (db, go_error, unit) action"
where
  "sql_insert_outbox_event now eventType bookingID payload d =
     (if max_int64 < outbox_events_id_seq d then (Inl sequence_exhausted, d)
      else let i = outbox_events_id_seq d; d1 = d\<lparr>outbox_events_id_seq := i + 1\<rparr>
           in if bookingID \<notin> set (map bk_id (bookings d)) then (Inl (PgError ''23503''), d1)
              else (Inr (), d1\<lparr>outbox_events := outbox_events d @
                     [\<lparr>ob_id = i, ob_event_type = eventType, ob_booking_id = bookingID,
                       ob_payload = payload, ob_created_at = now, ob_processed_at = None,
                       ob_claimed_at = None\<rparr>]\<rparr>))"

definition insertOutboxEvent ::
  "fault \<Rightarrow> time \<Rightarrow> string \<Rightarrow> int \<Rightarrow> jsonb \<Rightarrow> (db, go_error, unit) action"
where
  "insertOutboxEvent f now eventType bookingID payload =
     mapErrA (Wrap ''insert outbox event'')
       (withFault f (sql_insert_outbox_event now eventType bookingID payload))"


section \<open>CancelBooking and MarkRefundStatus\<close>

datatype cancel_site = CancelBegin | CancelUpdate | CancelInsertRefund | CancelInsertEvent | CancelCommit

record cancel_env =
  ce_now :: time
  ce_fault :: "cancel_site \<Rightarrow> fault"

definition cancel_update_error :: "go_error \<Rightarrow> go_error" where
  "cancel_update_error err =
     (if errors_Is err ErrNoRows then ErrHoldExpired else Wrap ''cancel booking: cas update'' err)"

definition cancel_body :: "cancel_env \<Rightarrow> int \<Rightarrow> string \<Rightarrow> (db, go_error, BookingRow) action" where
  "cancel_body env bookingID buyerID =
     (let now = ce_now env; flt = ce_fault env in
      bindA (mapErrA cancel_update_error
              (withFault (flt CancelUpdate) (sql_cancel_booking now bookingID buyerID)))
      (\<lambda>b. bindA (mapErrA (Wrap ''cancel booking: insert refund'')
              (withFault (flt CancelInsertRefund) (sql_insert_refund now bookingID)))
      (\<lambda>refundID. bindA (mapErrA (Wrap ''cancel booking: insert outbox event'')
              (insertOutboxEvent (flt CancelInsertEvent) now ''refund_requested'' bookingID
                 (refund_payload refundID)))
      (\<lambda>_. returnA \<lparr>br_ID = bookingID, br_MatchID = bk_match_id b, br_SeatID = bk_seat_id b,
                    br_BuyerID = buyerID, br_Status = ''cancelled'',
                    br_HoldExpiresAt = None, br_ConfirmedAt = None\<rparr>))))"

definition CancelBooking :: "cancel_env \<Rightarrow> int \<Rightarrow> string \<Rightarrow> (db, go_error, BookingRow) action" where
  "CancelBooking env bookingID buyerID =
     in_tx (ce_fault env CancelBegin) (Wrap ''cancel booking: begin tx'')
           (ce_fault env CancelCommit) (Wrap ''cancel booking: commit'')
           (cancel_body env bookingID buyerID)"

definition sql_mark_refund :: "time \<Rightarrow> int \<Rightarrow> string \<Rightarrow> string \<Rightarrow> (db, go_error, unit) action" where
  "sql_mark_refund now refundID status externalRef d =
     (let P = (\<lambda>r. rf_id r = refundID \<and> rf_status r = Pending) in
      case rstatus_of_text status of
        None \<Rightarrow> (if list_ex P (refunds d) then (Inl (PgError ''23514''), d) else (Inr (), d))
      | Some st \<Rightarrow>
          (Inr (), d\<lparr>refunds := update_where P
             (\<lambda>r. r\<lparr>rf_status := st, rf_completed_at := Some now, rf_external_ref := Some externalRef\<rparr>)
             (refunds d)\<rparr>))"

definition MarkRefundStatus ::
  "fault \<Rightarrow> time \<Rightarrow> int \<Rightarrow> string \<Rightarrow> string \<Rightarrow> (db, go_error, unit) action"
where
  "MarkRefundStatus f now refundID status externalRef =
     mapErrA (Wrap ''mark refund status'') (withFault f (sql_mark_refund now refundID status externalRef))"


section \<open>The schema's contract\<close>

lemma obeys_cancel_booking: "obeys schema_step (sql_cancel_booking now i b)"
proof
  fix d :: db
  have "obeys schema_step (update_bookings_returning (\<lambda>r. bk_id r = i \<and> cancellable now b (matches d) r) (cancel_row now))"
    by (rule obeys_update_bookings_returning) simp
  then show "schema_step d (snd (sql_cancel_booking now i b d))"
    by (simp add: sql_cancel_booking_def obeys_def)
qed

lemma obeys_insert_refund: "obeys schema_step (sql_insert_refund now i)"
proof
  fix d :: db
  show "schema_step d (snd (sql_insert_refund now i d))"
    by (fastforce simp: sql_insert_refund_def Let_def schema_step_def seqs_grow_def same_inventory_def
        schema_inv_def inventory_ok_def in_sequence_def list_all_iff)
qed

lemma obeys_insert_outbox_event: "obeys schema_step (sql_insert_outbox_event now ty i p)"
proof
  fix d :: db
  show "schema_step d (snd (sql_insert_outbox_event now ty i p d))"
    by (fastforce simp: sql_insert_outbox_event_def Let_def schema_step_def seqs_grow_def
        same_inventory_def schema_inv_def inventory_ok_def in_sequence_def list_all_iff)
qed

lemma schema_CancelBooking: "obeys schema_step (CancelBooking env i b)"
  unfolding CancelBooking_def cancel_body_def insertOutboxEvent_def Let_def
  by (intro schema.tx_intros obeys_cancel_booking obeys_insert_refund obeys_insert_outbox_event)

lemma schema_inv_refunds:
  assumes "schema_inv d" and "map rf_id rs = map rf_id (refunds d)"
    and "map rf_booking_id rs = map rf_booking_id (refunds d)"
  shows "schema_inv (d\<lparr>refunds := rs\<rparr>)"
proof -
  have "rf_booking_id ` set rs = rf_booking_id ` set (refunds d)"
    using arg_cong [OF assms(3), of set] by simp
  then have "list_all (\<lambda>r. rf_booking_id r \<in> set (map bk_id (bookings d))) rs"
    using assms(1) by (fastforce simp: schema_inv_def list_all_iff)
  then show ?thesis using assms(1,2) by (simp add: schema_inv_def inventory_ok_def)
qed

lemma schema_MarkRefundStatus: "obeys schema_step (MarkRefundStatus f now i st ref)"
proof -
  have "obeys schema_step (sql_mark_refund now i st ref)"
  proof
    fix d :: db
    show "schema_step d (snd (sql_mark_refund now i st ref d))"
      by (auto simp: sql_mark_refund_def Let_def schema_step_def seqs_grow_def same_inventory_def
          split: option.splits intro!: schema_inv_refunds map_update_where)
  qed
  then show ?thesis unfolding MarkRefundStatus_def by (intro schema.tx_intros)
qed


section \<open>The refund invariant\<close>

definition sold_cancelled :: "bookings_row \<Rightarrow> bool" where
  "sold_cancelled b \<longleftrightarrow> bk_status b = Cancelled \<and> bk_confirmed_at b \<noteq> None"

definition booking_wf :: "bookings_row \<Rightarrow> bool" where
  "booking_wf b \<longleftrightarrow>
     (case bk_status b of
        Held \<Rightarrow> bk_confirmed_at b = None \<and> bk_cancelled_at b = None
      | Confirmed \<Rightarrow> bk_confirmed_at b \<noteq> None \<and> bk_cancelled_at b = None \<and> bk_hold_expires_at b = None
      | Expired \<Rightarrow> bk_confirmed_at b = None \<and> bk_cancelled_at b = None
      | Cancelled \<Rightarrow> bk_cancelled_at b \<noteq> None)"

definition refund_wf :: "refunds_row \<Rightarrow> bool" where
  "refund_wf r \<longleftrightarrow>
     (rf_status r = Pending \<longleftrightarrow> rf_completed_at r = None) \<and> (rf_status r = Pending \<longleftrightarrow> rf_external_ref r = None)"

definition event_of_refund :: "refunds_row \<Rightarrow> string \<times> int \<times> jsonb" where
  "event_of_refund r = (''refund_requested'', rf_booking_id r, refund_payload (rf_id r))"

definition event_content :: "outbox_events_row \<Rightarrow> string \<times> int \<times> jsonb" where
  "event_content e = (ob_event_type e, ob_booking_id e, ob_payload e)"

definition refund_inv :: "db \<Rightarrow> bool" where
  "refund_inv d \<longleftrightarrow>
     list_all booking_wf (bookings d)
     \<and> list_all refund_wf (refunds d)
     \<and> mset (map rf_booking_id (refunds d)) = mset (map bk_id (filter sold_cancelled (bookings d)))
     \<and> mset (map event_content (outbox_events d)) = mset (map event_of_refund (refunds d))
     \<and> list_all (\<lambda>e. ob_processed_at e \<noteq> None \<longrightarrow>
          list_all (\<lambda>r. ob_payload e = refund_payload (rf_id r) \<longrightarrow> rf_status r \<noteq> Pending) (refunds d))
        (outbox_events d)"

definition db_inv :: "db \<Rightarrow> bool" where
  "db_inv d \<longleftrightarrow> schema_inv d \<and> refund_inv d"

definition refund_done :: "refunds_row list \<Rightarrow> outbox_events_row \<Rightarrow> bool" where
  "refund_done rs e \<longleftrightarrow> list_all (\<lambda>r. ob_payload e = refund_payload (rf_id r) \<longrightarrow> rf_status r \<noteq> Pending) rs"

lemma refund_inv_parts:
  "refund_inv d \<longleftrightarrow>
     (\<forall>b \<in> set (bookings d). booking_wf b) \<and> (\<forall>r \<in> set (refunds d). refund_wf r)
     \<and> mset (map rf_booking_id (refunds d)) = mset (map bk_id (filter sold_cancelled (bookings d)))
     \<and> mset (map event_content (outbox_events d)) = mset (map event_of_refund (refunds d))
     \<and> (\<forall>e \<in> set (outbox_events d). ob_processed_at e \<noteq> None \<longrightarrow> refund_done (refunds d) e)"
  by (simp add: refund_inv_def list_all_iff refund_done_def)

lemma refund_payload_eq [simp]: "refund_payload i = refund_payload j \<longleftrightarrow> i = j"
  by (simp add: refund_payload_def)

lemma refund_wf_pending [simp]:
  "refund_wf \<lparr>rf_id = i, rf_booking_id = b, rf_status = Pending, rf_requested_at = now,
     rf_completed_at = None, rf_external_ref = None\<rparr>"
  by (simp add: refund_wf_def)

lemma refund_inv_same_tables: "same_tables d d' \<Longrightarrow> refund_inv d' = refund_inv d"
  by (simp add: refund_inv_def same_tables_def)

interpretation refund: db_contract "keeping refund_inv"
  by unfold_locales (auto simp: refund_inv_same_tables [OF rollback_same_tables])

lemma refund_inv_update_where:
  assumes "refund_inv d"
    and "\<And>r. P r \<Longrightarrow> booking_wf r \<Longrightarrow>
           booking_wf (f r) \<and> bk_id (f r) = bk_id r \<and> sold_cancelled (f r) = sold_cancelled r"
  shows "refund_inv (d\<lparr>bookings := update_where P f (bookings d)\<rparr>)"
proof -
  have wf: "list_all booking_wf (bookings d)" using assms(1) by (simp add: refund_inv_def)
  have "map bk_id (filter sold_cancelled (update_where P f rows)) = map bk_id (filter sold_cancelled rows)"
    if "list_all booking_wf rows" for rows
    using that assms(2) by (induction rows) auto
  then show ?thesis
    using assms wf by (auto simp: refund_inv_def list_all_iff set_update_where)
qed

lemma obeys_refund_update_bookings:
  assumes "\<And>r. P r \<Longrightarrow> booking_wf r \<Longrightarrow>
             booking_wf (f r) \<and> bk_id (f r) = bk_id r \<and> sold_cancelled (f r) = sold_cancelled r"
  shows "obeys (keeping refund_inv) (update_bookings P f)"
    and "obeys (keeping refund_inv) (update_bookings_returning P f)"
  using refund_inv_update_where [where P = P and f = f] assms
  by (auto simp: obeys_def update_bookings_def write_bookings_def split: option.splits)

lemma booking_wf_cancel_held: "bk_status r = Held \<Longrightarrow> booking_wf r \<Longrightarrow>
    booking_wf (cancel_row now r) \<and> bk_id (cancel_row now r) = bk_id r
    \<and> sold_cancelled (cancel_row now r) = sold_cancelled r"
  by (simp add: booking_wf_def sold_cancelled_def cancel_row_def)

lemma booking_wf_expire_held: "bk_status r = Held \<Longrightarrow> booking_wf r \<Longrightarrow>
    booking_wf (expire_row r) \<and> bk_id (expire_row r) = bk_id r
    \<and> sold_cancelled (expire_row r) = sold_cancelled r"
  by (simp add: booking_wf_def sold_cancelled_def expire_row_def)

lemma booking_wf_confirm_held: "bk_status r = Held \<Longrightarrow> booking_wf r \<Longrightarrow>
    booking_wf (confirm_row now r) \<and> bk_id (confirm_row now r) = bk_id r
    \<and> sold_cancelled (confirm_row now r) = sold_cancelled r"
  by (simp add: booking_wf_def sold_cancelled_def confirm_row_def)

lemma new_hold_wf [simp]: "booking_wf (new_hold i m s b e now)" "\<not> sold_cancelled (new_hold i m s b e now)"
  by (simp_all add: booking_wf_def sold_cancelled_def)

lemma obeys_refund_insert_hold: "obeys (keeping refund_inv) (sql_insert_hold now m s b us)"
proof
  fix d :: db
  show "keeping refund_inv d (snd (sql_insert_hold now m s b us d))"
    by (cases rule: sql_insert_hold_cases [where d = d and now = now and m = m and s = s and b = b and us = us])
      (auto simp: refund_inv_def)
qed

interpretation hold_refund: hold_contract "keeping refund_inv"
proof unfold_locales
  show "obeys (keeping refund_inv) (sql_clear_stale_key key bid)" for key bid
    by (simp add: obeys_def sql_clear_stale_key_def refund_inv_def)
  show "obeys (keeping refund_inv) (sql_release_previous now m s b)" for now m s b
    unfolding sql_release_previous_def
    by (rule obeys_refund_update_bookings) (simp add: booking_wf_cancel_held previous_hold_def)
  show "obeys (keeping refund_inv) (sql_expire_stale now m s)" for now m s
    unfolding sql_expire_stale_def
    by (rule obeys_refund_update_bookings) (simp add: booking_wf_expire_held stale_hold_def)
  show "obeys (keeping refund_inv) (sql_insert_hold now m s b us)" for now m s b us
    by (rule obeys_refund_insert_hold)
  show "obeys (keeping refund_inv) (sql_record_key now key bid)" for now key bid
    by (simp add: obeys_def sql_record_key_def refund_inv_def)
  show "obeys (keeping refund_inv) (sql_confirm_hold now i b)" for now i b
    unfolding sql_confirm_hold_def
    by (rule obeys_refund_update_bookings) (simp add: booking_wf_confirm_held confirmable_def)
  show "obeys (keeping refund_inv) (sql_release_hold now i b)" for now i b
    unfolding sql_release_hold_def
    by (rule obeys_refund_update_bookings) (simp add: booking_wf_cancel_held releasable_def)
qed


section \<open>CancelBooking: all three writes or none\<close>

definition cancelled_db :: "time \<Rightarrow> int \<Rightarrow> string \<Rightarrow> db \<Rightarrow> db" where
  "cancelled_db now i buyer d =
     d\<lparr>bookings := update_where (\<lambda>b. bk_id b = i \<and> cancellable now buyer (matches d) b) (cancel_row now) (bookings d),
       refunds := refunds d @
         [\<lparr>rf_id = refunds_id_seq d, rf_booking_id = i, rf_status = Pending, rf_requested_at = now,
           rf_completed_at = None, rf_external_ref = None\<rparr>],
       outbox_events := outbox_events d @
         [\<lparr>ob_id = outbox_events_id_seq d, ob_event_type = ''refund_requested'', ob_booking_id = i,
           ob_payload = refund_payload (refunds_id_seq d), ob_created_at = now, ob_processed_at = None,
           ob_claimed_at = None\<rparr>],
       refunds_id_seq := refunds_id_seq d + 1,
       outbox_events_id_seq := outbox_events_id_seq d + 1\<rparr>"

definition cancelled_row :: "int \<Rightarrow> string \<Rightarrow> bookings_row \<Rightarrow> BookingRow" where
  "cancelled_row i buyer b =
     \<lparr>br_ID = i, br_MatchID = bk_match_id b, br_SeatID = bk_seat_id b, br_BuyerID = buyer,
      br_Status = ''cancelled'', br_HoldExpiresAt = None, br_ConfirmedAt = None\<rparr>"

lemma bk_id_update_cancel [simp]:
  "bk_id ` set (update_where P (cancel_row now) rows) = bk_id ` set rows"
  using map_update_where [of rows P bk_id "cancel_row now"] by (metis cancel_row_simps(1) list.set_map)

lemma sql_cancel_booking_ok:
  assumes "bookings_ok d (bookings d)"
  shows "sql_cancel_booking now i buyer d =
     ((case filter (\<lambda>b. bk_id b = i \<and> cancellable now buyer (matches d) b) (bookings d) of
         [] \<Rightarrow> Inl ErrNoRows | b # _ \<Rightarrow> Inr (cancel_row now b)),
      d\<lparr>bookings := update_where (\<lambda>b. bk_id b = i \<and> cancellable now buyer (matches d) b) (cancel_row now) (bookings d)\<rparr>)"
  unfolding sql_cancel_booking_def by (rule update_returning_ok [OF assms]) simp

lemmas sql_cancel_booking_outcome = sql_cancel_booking_ok [OF bookings_ok_self]

lemma cancel_body_Inr:
  assumes "schema_inv d" and "cancel_body env i buyer d = (Inr row, w)"
  shows "\<exists>b \<in> set (bookings d). bk_id b = i \<and> cancellable (ce_now env) buyer (matches d) b
           \<and> row = cancelled_row i buyer b" and "w = cancelled_db (ce_now env) i buyer d"
proof -
  let ?P = "\<lambda>b. bk_id b = i \<and> cancellable (ce_now env) buyer (matches d) b"
  from assms obtain b rest where b: "filter ?P (bookings d) = b # rest" and row: "row = cancelled_row i buyer b"
    and w: "w = cancelled_db (ce_now env) i buyer d"
    by (auto simp: cancel_body_def Let_def bindA_Inr_iff withFault_Inr sql_cancel_booking_outcome
        sql_insert_refund_def insertOutboxEvent_def sql_insert_outbox_event_def cancelled_db_def
        cancelled_row_def cancel_row_def split: if_splits list.splits)
  have "b \<in> set (filter ?P (bookings d))" by (simp add: b)
  then show "\<exists>b \<in> set (bookings d). bk_id b = i \<and> cancellable (ce_now env) buyer (matches d) b
           \<and> row = cancelled_row i buyer b" using row by auto
  show "w = cancelled_db (ce_now env) i buyer d" by (rule w)
qed

lemma cancel_body_ok:
  assumes "bookings_ok d (bookings d)" and "b \<in> set (bookings d)" and "bk_id b = i"
    and "cancellable (ce_now env) buyer (matches d) b"
    and "\<And>site. ce_fault env site = NoFault"
    and "refunds_id_seq d \<le> max_int64" and "outbox_events_id_seq d \<le> max_int64"
  shows "cancel_body env i buyer d = (Inr (cancelled_row i buyer b), cancelled_db (ce_now env) i buyer d)"
proof -
  have "filter (\<lambda>r. bk_id r = i \<and> cancellable (ce_now env) buyer (matches d) r) (bookings d) = [b]"
    using filter_key_and [of bk_id "bookings d" b "cancellable (ce_now env) buyer (matches d)"] assms(1-4)
    by (simp add: bookings_ok_def)
  moreover have "i \<in> bk_id ` set (bookings d)" using assms(2,3) by auto
  ultimately show ?thesis
    using assms(5-7)
    by (simp add: cancel_body_def Let_def bindA_def mapErrA_def sql_cancel_booking_ok [OF assms(1)]
        sql_insert_refund_def insertOutboxEvent_def sql_insert_outbox_event_def cancelled_db_def
        cancelled_row_def cancel_row_def)
qed

lemmas cancel_body_eval = cancel_body_ok [OF bookings_ok_self]

lemma CancelBooking_atomic_cases:
  assumes "schema_inv d" and "CancelBooking env i buyer d = (r, d')"
  shows "same_tables d d' \<or>
     d' = cancelled_db (ce_now env) i buyer d
     \<and> (\<exists>b \<in> set (bookings d). bk_id b = i \<and> cancellable (ce_now env) buyer (matches d) b)"
  using in_tx_atomic [OF assms(2) [unfolded CancelBooking_def]] cancel_body_Inr [OF assms(1)]
  by blast

text \<open>An event belongs to a refund, and a refund to an event.\<close>

lemma refund_inv_event_of:
  assumes "refund_inv d"
  shows "event_content ` set (outbox_events d) = event_of_refund ` set (refunds d)"
  using assms mset_eq_setD [of "map event_content (outbox_events d)" "map event_of_refund (refunds d)"]
  unfolding refund_inv_parts by simp

lemma refund_inv_eventE:
  assumes "refund_inv d" and "e \<in> set (outbox_events d)"
  obtains r where "r \<in> set (refunds d)" "ob_event_type e = ''refund_requested''"
    "ob_booking_id e = rf_booking_id r" "ob_payload e = refund_payload (rf_id r)"
proof -
  have "event_content e \<in> event_of_refund ` set (refunds d)"
    using assms refund_inv_event_of [OF assms(1)] by blast
  then show thesis using that by (auto simp: event_content_def event_of_refund_def)
qed

lemma refund_inv_cancelled_db:
  assumes inv: "schema_inv d" "refund_inv d" and b: "b \<in> set (bookings d)" "bk_id b = i"
    and c: "cancellable now buyer (matches d) b"
  shows "refund_inv (cancelled_db now i buyer d)"
proof -
  let ?P = "cancellable now buyer (matches d)"
  let ?rows = "update_where (\<lambda>b. bk_id b = i \<and> ?P b) (cancel_row now) (bookings d)"
  have wf: "booking_wf b" using inv(2) b(1) by (simp add: refund_inv_def list_all_iff)
  have conf: "bk_status b = Confirmed" using c by (simp add: cancellable_def)
  have "mset (map bk_id (filter sold_cancelled ?rows)) =
      add_mset i (mset (map bk_id (filter sold_cancelled (bookings d))))"
    using mset_index_update_one [OF schema_inv_bk_id [OF inv(1)] b(1), of ?P "cancel_row now" sold_cancelled]
      c conf wf b(2)
    by (simp add: sold_cancelled_def booking_wf_def) (simp add: cancel_row_def)
  moreover have "list_all booking_wf ?rows"
    using inv(2) by (auto simp: refund_inv_def list_all_iff set_update_where)
      (simp add: booking_wf_def cancel_row_def)
  moreover have "ob_payload e \<noteq> refund_payload (refunds_id_seq d)" if e: "e \<in> set (outbox_events d)" for e
  proof -
    obtain r where "r \<in> set (refunds d)" "ob_payload e = refund_payload (rf_id r)"
      using refund_inv_eventE [OF inv(2) e] .
    moreover have "rf_id r < refunds_id_seq d" if "r \<in> set (refunds d)" for r
      using inv(1) that by (simp add: schema_inv_def in_sequence_def list_all_iff)
    ultimately show ?thesis by fastforce
  qed
  ultimately show ?thesis
    using inv(2) unfolding refund_inv_parts cancelled_db_def
    by (simp add: event_content_def event_of_refund_def refund_done_def list_all_iff)
qed

lemma db_inv_same_tables_obeys:
  "schema_step d d' \<Longrightarrow> same_tables d d' \<Longrightarrow> db_inv d \<Longrightarrow> db_inv d'"
  by (simp add: db_inv_def schema_step_def refund_inv_same_tables)

lemma CancelBooking_db_inv: "db_inv d \<Longrightarrow> db_inv (snd (CancelBooking env i buyer d))"
proof -
  assume inv: "db_inv d"
  obtain r d' where c: "CancelBooking env i buyer d = (r, d')" by (cases "CancelBooking env i buyer d")
  have step: "schema_step d d'" using obeys_eqD [OF schema_CancelBooking c] .
  show ?thesis
  proof (cases "same_tables d d'")
    case True
    then show ?thesis using db_inv_same_tables_obeys [OF step _ inv] c by simp
  next
    case False
    then have "refund_inv d'"
      using CancelBooking_atomic_cases [OF _ c] inv refund_inv_cancelled_db by (auto simp: db_inv_def)
    then show ?thesis using step inv c by (simp add: db_inv_def schema_step_def)
  qed
qed

text \<open>\<open>MarkRefundStatus\<close> moves a refund out of pending, never back, when it is given a final status.\<close>

lemma MarkRefundStatus_refund_inv:
  assumes "status \<noteq> ''pending''"
  shows "obeys (keeping refund_inv) (MarkRefundStatus f now i status ref)"
proof -
  have "obeys (keeping refund_inv) (sql_mark_refund now i status ref)"
  proof
    fix d :: db
    let ?P = "\<lambda>r. rf_id r = i \<and> rf_status r = Pending"
    let ?f = "\<lambda>st r. r\<lparr>rf_status := st, rf_completed_at := Some now, rf_external_ref := Some ref\<rparr>"
    have keys: "map event_of_refund (update_where ?P (?f st) rs) = map event_of_refund rs"
      "map rf_booking_id (update_where ?P (?f st) rs) = map rf_booking_id rs" for st rs
      by (rule map_update_where, simp add: event_of_refund_def)+
    have wf: "\<forall>r \<in> set (update_where ?P (?f st) rs). refund_wf r"
      if "\<forall>r \<in> set rs. refund_wf r" and "st \<noteq> Pending" for st rs
      using that by (auto simp: set_update_where refund_wf_def)
    have fin: "refund_done (update_where ?P (?f st) rs) e" if "refund_done rs e" and "st \<noteq> Pending" for st rs e
      using that by (auto simp: refund_done_def list_all_iff set_update_where)
    have st: "st \<noteq> Pending" if "rstatus_of_text status = Some st" for st
      using that assms by (auto simp: rstatus_of_text_def split: if_splits)
    show "keeping refund_inv d (snd (sql_mark_refund now i status ref d))"
    proof (cases "rstatus_of_text status")
      case None
      then show ?thesis by (simp add: sql_mark_refund_def Let_def)
    next
      case (Some st')
      then show ?thesis
        using st [OF Some] wf [of "refunds d" st'] fin [of "refunds d" _ st']
        by (simp add: sql_mark_refund_def refund_inv_parts keys del: mset_map)
    qed
  qed
  then show ?thesis unfolding MarkRefundStatus_def by (intro refund.tx_intros)
qed

end
