(* ===== verification/Outbox.thy ===== *)
theory Outbox
  imports Refunds
begin

text \<open>
  The outbox queue of \<open>internal/store/outbox.go\<close>: \<open>PollUnprocessed\<close> claims a bounded batch under a
  lease, \<open>ReleaseClaim\<close> gives a claim back, \<open>MarkProcessed\<close> records completion. The rows that
  another worker has locked at the moment of the poll (\<open>FOR UPDATE SKIP LOCKED\<close>) are a parameter.
\<close>

section \<open>Operations\<close>

record OutboxEvent =
  oe_ID :: int
  oe_EventType :: string
  oe_BookingID :: int
  oe_Payload :: jsonb

definition claimLeaseTTL :: duration where
  "claimLeaseTTL = 30 * 1000000000"

text \<open>\<open>make_interval(secs => claimLeaseTTL.Seconds())\<close>, in microseconds.\<close>

definition claim_lease :: int where
  "claim_lease = claimLeaseTTL div 1000"

definition claimable :: "time \<Rightarrow> outbox_events_row \<Rightarrow> bool" where
  "claimable now e \<longleftrightarrow>
     ob_processed_at e = None
     \<and> (case ob_claimed_at e of None \<Rightarrow> True | Some t \<Rightarrow> t < now - claim_lease)"

definition poll_ids :: "time \<Rightarrow> (int \<Rightarrow> bool) \<Rightarrow> int \<Rightarrow> outbox_events_row list \<Rightarrow> int list" where
  "poll_ids now locked limit es =
     map ob_id (order_limit ob_created_at (nat limit) (filter (\<lambda>e. claimable now e \<and> \<not> locked (ob_id e)) es))"

definition outbox_event_of :: "outbox_events_row \<Rightarrow> OutboxEvent" where
  "outbox_event_of e = \<lparr>oe_ID = ob_id e, oe_EventType = ob_event_type e, oe_BookingID = ob_booking_id e,
                        oe_Payload = ob_payload e\<rparr>"

definition sql_poll_unprocessed ::
  "time \<Rightarrow> (int \<Rightarrow> bool) \<Rightarrow> int \<Rightarrow> (db, go_error, OutboxEvent list) action"
where
  "sql_poll_unprocessed now locked limit d =
     (if limit < 0 then (Inl (PgError ''2201W''), d)
      else let ids = poll_ids now locked limit (outbox_events d);
               P = (\<lambda>e. ob_id e \<in> set ids)
           in (Inr (map outbox_event_of (filter P (outbox_events d))),
               d\<lparr>outbox_events := update_where P (\<lambda>e. e\<lparr>ob_claimed_at := Some now\<rparr>) (outbox_events d)\<rparr>))"

definition PollUnprocessed ::
  "fault \<Rightarrow> time \<Rightarrow> (int \<Rightarrow> bool) \<Rightarrow> int \<Rightarrow> (db, go_error, OutboxEvent list) action"
where
  "PollUnprocessed f now locked limit =
     mapErrA (Wrap ''poll unprocessed outbox events'') (withFault f (sql_poll_unprocessed now locked limit))"

definition sql_release_claim :: "int \<Rightarrow> (db, go_error, unit) action" where
  "sql_release_claim eventID d =
     (Inr (), d\<lparr>outbox_events :=
        update_where (\<lambda>e. ob_id e = eventID \<and> ob_processed_at e = None) (\<lambda>e. e\<lparr>ob_claimed_at := None\<rparr>)
          (outbox_events d)\<rparr>)"

definition ReleaseClaim :: "fault \<Rightarrow> int \<Rightarrow> (db, go_error, unit) action" where
  "ReleaseClaim f eventID = mapErrA (Wrap ''release outbox claim'') (withFault f (sql_release_claim eventID))"

definition sql_mark_processed :: "time \<Rightarrow> int \<Rightarrow> (db, go_error, unit) action" where
  "sql_mark_processed now eventID d =
     (Inr (), d\<lparr>outbox_events :=
        update_where (\<lambda>e. ob_id e = eventID \<and> ob_processed_at e = None)
          (\<lambda>e. e\<lparr>ob_processed_at := Some now\<rparr>) (outbox_events d)\<rparr>)"

definition MarkProcessed :: "fault \<Rightarrow> time \<Rightarrow> int \<Rightarrow> (db, go_error, unit) action" where
  "MarkProcessed f now eventID =
     mapErrA (Wrap ''mark outbox event processed'') (withFault f (sql_mark_processed now eventID))"


section \<open>What the operations keep\<close>

lemmas sql_outbox_defs = sql_poll_unprocessed_def sql_release_claim_def sql_mark_processed_def

lemma schema_inv_events:
  assumes "schema_inv d" and "map ob_id es = map ob_id (outbox_events d)"
    and "map ob_booking_id es = map ob_booking_id (outbox_events d)"
  shows "schema_inv (d\<lparr>outbox_events := es\<rparr>)"
proof -
  have "ob_booking_id ` set es = ob_booking_id ` set (outbox_events d)"
    using arg_cong [OF assms(3), of set] by simp
  then have "list_all (\<lambda>r. ob_booking_id r \<in> set (map bk_id (bookings d))) es"
    using assms(1) by (fastforce simp: schema_inv_def list_all_iff)
  then show ?thesis using assms(1,2) by (simp add: schema_inv_def inventory_ok_def)
qed

lemma schema_step_events:
  assumes "map ob_id es = map ob_id (outbox_events d)"
    and "map ob_booking_id es = map ob_booking_id (outbox_events d)"
  shows "schema_step d (d\<lparr>outbox_events := es\<rparr>)"
  using schema_inv_events [OF _ assms] by (simp add: schema_step_def seqs_grow_def same_inventory_def)

lemma obeys_outbox_statements:
  "obeys schema_step (sql_poll_unprocessed now locked limit)"
  "obeys schema_step (sql_release_claim i)"
  "obeys schema_step (sql_mark_processed now i)"
  by (auto simp: obeys_def sql_outbox_defs Let_def schema.R_refl intro!: schema_step_events map_update_where)

lemma obeys_outbox:
  "obeys schema_step (PollUnprocessed f now locked limit)"
  "obeys schema_step (ReleaseClaim f i)"
  "obeys schema_step (MarkProcessed f now i)"
  unfolding PollUnprocessed_def ReleaseClaim_def MarkProcessed_def
  by (intro schema.tx_intros obeys_outbox_statements)+

lemma refund_inv_events:
  assumes "refund_inv d" and "map event_content es = map event_content (outbox_events d)"
    and "\<And>e. e \<in> set es \<Longrightarrow> ob_processed_at e \<noteq> None \<Longrightarrow> refund_done (refunds d) e"
  shows "refund_inv (d\<lparr>outbox_events := es\<rparr>)"
proof -
  have "mset (map event_content es) = mset (map event_content (outbox_events d))"
    using assms(2) by (rule arg_cong)
  then show ?thesis using assms(1,3) unfolding refund_inv_parts by simp
qed

lemma refund_done_payload: "ob_payload e' = ob_payload e \<Longrightarrow> refund_done rs e' = refund_done rs e"
  by (simp add: refund_done_def)

lemma refund_inv_update_events:
  assumes inv: "refund_inv d" and content: "\<And>e. event_content (f e) = event_content e"
    and processed: "\<And>e. e \<in> set (outbox_events d) \<Longrightarrow> P e \<Longrightarrow> ob_processed_at (f e) \<noteq> None \<Longrightarrow>
           ob_processed_at e \<noteq> None \<or> refund_done (refunds d) e"
  shows "refund_inv (d\<lparr>outbox_events := update_where P f (outbox_events d)\<rparr>)"
proof (rule refund_inv_events [OF inv])
  show "map event_content (update_where P f (outbox_events d)) = map event_content (outbox_events d)"
    by (rule map_update_where) (rule content)
next
  fix e' assume e': "e' \<in> set (update_where P f (outbox_events d))" and p: "ob_processed_at e' \<noteq> None"
  have done_iff: "refund_done (refunds d) (f e) = refund_done (refunds d) e" for e
    using content [of e] by (intro refund_done_payload) (simp add: event_content_def)
  have old: "refund_done (refunds d) e" if "e \<in> set (outbox_events d)" "ob_processed_at e \<noteq> None" for e
    using inv that unfolding refund_inv_parts by blast
  show "refund_done (refunds d) e'"
    using e'
  proof (cases rule: in_update_whereE)
    case (1 e)
    then show ?thesis using processed [of e] old [of e] p done_iff by blast
  next
    case 2
    then show ?thesis using old p by blast
  qed
qed

lemma refund_inv_claims:
  "obeys (keeping refund_inv) (sql_poll_unprocessed now locked limit)"
  "obeys (keeping refund_inv) (sql_release_claim i)"
  by (auto simp: obeys_def sql_outbox_defs Let_def event_content_def intro!: refund_inv_update_events)

lemma obeys_refund_outbox:
  "obeys (keeping refund_inv) (PollUnprocessed f now locked limit)"
  "obeys (keeping refund_inv) (ReleaseClaim f i)"
  unfolding PollUnprocessed_def ReleaseClaim_def
  by (intro refund.tx_intros refund_inv_claims)+

lemma refund_inv_mark_processed:
  assumes "refund_inv d" and "\<And>e. e \<in> set (outbox_events d) \<Longrightarrow> ob_id e = i \<Longrightarrow> refund_done (refunds d) e"
  shows "refund_inv (snd (MarkProcessed f now i d))"
proof -
  have "refund_inv (snd (sql_mark_processed now i d))"
    unfolding sql_mark_processed_def snd_conv
    by (rule refund_inv_update_events [OF assms(1)]) (use assms(2) in \<open>simp_all add: event_content_def\<close>)
  then show ?thesis using assms(1) by (auto simp: MarkProcessed_def withFault_def split: fault.splits)
qed


section \<open>Claims\<close>

lemma schema_inv_ob_id: "schema_inv d \<Longrightarrow> distinct (map ob_id (outbox_events d))"
  by (simp add: schema_inv_def)

lemma poll_ids_in:
  "i \<in> set (poll_ids now locked limit es) \<Longrightarrow>
     \<exists>e \<in> set es. ob_id e = i \<and> claimable now e \<and> \<not> locked i"
  by (fastforce simp: poll_ids_def dest: in_order_limitD)

lemma length_poll_ids: "length (poll_ids now locked limit es) \<le> nat limit"
  by (simp add: poll_ids_def)

lemma polled_are_poll_ids:
  assumes "distinct (map ob_id es)"
  shows "length (filter (\<lambda>e. ob_id e \<in> set (poll_ids now locked limit es)) es) \<le> nat limit"
proof -
  let ?ids = "poll_ids now locked limit es"
  let ?l = "filter (\<lambda>e. ob_id e \<in> set ?ids) es"
  have "distinct (map ob_id ?l)" using assms by (rule distinct_map_filter)
  then have "length ?l = card (set (map ob_id ?l))" by (metis distinct_card length_map)
  also have "\<dots> \<le> card (set ?ids)" by (rule card_mono) auto
  also have "\<dots> \<le> length ?ids" by (rule card_length)
  finally show ?thesis using length_poll_ids [of now locked limit es] by linarith
qed

text \<open>An unlocked, claimable event that a poll did not return is younger than all it returned.\<close>

lemma poll_oldest_first:
  assumes "distinct (map ob_id es)" and "e \<in> set es" "ob_id e \<in> set (poll_ids now locked limit es)"
    and "e' \<in> set es" "claimable now e'" "\<not> locked (ob_id e')"
    and "ob_id e' \<notin> set (poll_ids now locked limit es)"
  shows "ob_created_at e \<le> ob_created_at e'"
proof -
  let ?c = "filter (\<lambda>e. claimable now e \<and> \<not> locked (ob_id e)) es"
  obtain x where x: "x \<in> set (order_limit ob_created_at (nat limit) ?c)" "ob_id x = ob_id e"
    using assms(3) by (auto simp: poll_ids_def)
  then have "x \<in> set es" by (auto dest: in_order_limitD)
  then have "x = e" using distinct_key_eq [OF assms(1)] x(2) assms(2) by simp
  moreover have "e' \<notin> set (order_limit ob_created_at (nat limit) ?c)"
    using assms(7) by (auto simp: poll_ids_def)
  ultimately show ?thesis
    using order_limit_oldest [of e ob_created_at "nat limit" ?c e'] x(1) assms(4-6) by simp
qed

lemma polled_not_claimable:
  assumes "now' \<le> now + claim_lease"
  shows "\<not> claimable now' (e\<lparr>ob_claimed_at := Some now\<rparr>)"
  using assms by (simp add: claimable_def)

end
