(* ===== verification/Maintenance.thy ===== *)
theory Maintenance
  imports Outbox
begin

text \<open>
  \<open>internal/store/invariants.go\<close>: the bounded maintenance statements the worker runs
  (\<open>SweepExpiredHolds\<close>, \<open>PruneIdempotencyKeys\<close>) and the queries the load test verifies the
  database with (\<open>OversoldSeats\<close>, \<open>StuckHolds\<close>, \<open>CountByStatus\<close>).
\<close>

section \<open>Maintenance\<close>

definition expired_hold :: "time \<Rightarrow> bookings_row \<Rightarrow> bool" where
  "expired_hold now b \<longleftrightarrow> bk_status b = Held \<and> expires_before now b"

definition expiry_key :: "bookings_row \<Rightarrow> time" where
  "expiry_key b = (case bk_hold_expires_at b of None \<Rightarrow> 0 | Some e \<Rightarrow> e)"

definition sweep_ids :: "time \<Rightarrow> (int \<Rightarrow> bool) \<Rightarrow> int \<Rightarrow> bookings_row list \<Rightarrow> int list" where
  "sweep_ids now locked limit rows =
     map bk_id (order_limit expiry_key (nat limit) (filter (\<lambda>b. expired_hold now b \<and> \<not> locked (bk_id b)) rows))"

definition sql_sweep :: "time \<Rightarrow> (int \<Rightarrow> bool) \<Rightarrow> int \<Rightarrow> (db, go_error, nat) action" where
  "sql_sweep now locked limit d =
     (if limit < 0 then (Inl (PgError ''2201W''), d)
      else let ids = sweep_ids now locked limit (bookings d); P = (\<lambda>b. bk_id b \<in> set ids)
           in (case update_bookings P expire_row d of
                 (Inl e, d') \<Rightarrow> (Inl e, d')
               | (Inr _, d') \<Rightarrow> (Inr (length (filter P (bookings d))), d')))"

definition SweepExpiredHolds :: "fault \<Rightarrow> time \<Rightarrow> (int \<Rightarrow> bool) \<Rightarrow> int \<Rightarrow> (db, go_error, nat) action" where
  "SweepExpiredHolds f now locked limit =
     mapErrA (Wrap ''sweep expired holds'') (withFault f (sql_sweep now locked limit))"

definition prune_keys ::
  "time \<Rightarrow> (string \<Rightarrow> bool) \<Rightarrow> int \<Rightarrow> int \<Rightarrow> idempotency_keys_row list \<Rightarrow> string list"
where
  "prune_keys now locked micros limit ks =
     map ik_key (order_limit ik_created_at (nat limit)
       (filter (\<lambda>k. ik_created_at k < now - micros \<and> \<not> locked (ik_key k)) ks))"

definition sql_prune ::
  "time \<Rightarrow> (string \<Rightarrow> bool) \<Rightarrow> int \<Rightarrow> int \<Rightarrow> (db, go_error, nat) action"
where
  "sql_prune now locked micros limit d =
     (if limit < 0 then (Inl (PgError ''2201W''), d)
      else let P = (\<lambda>k. ik_key k \<in> set (prune_keys now locked micros limit (idempotency_keys d)))
           in (Inr (length (filter P (idempotency_keys d))),
               d\<lparr>idempotency_keys := filter (\<lambda>k. \<not> P k) (idempotency_keys d)\<rparr>))"

definition PruneIdempotencyKeys ::
  "fault \<Rightarrow> time \<Rightarrow> (string \<Rightarrow> bool) \<Rightarrow> duration \<Rightarrow> int \<Rightarrow> (db, go_error, nat) action"
where
  "PruneIdempotencyKeys f now locked olderThan limit =
     mapErrA (Wrap ''prune idempotency keys'') (withFault f (sql_prune now locked (microseconds olderThan) limit))"


section \<open>Verification queries\<close>

text \<open>A read fails or returns what the query computes; these three return the driver's error as it is.\<close>

definition query :: "fault \<Rightarrow> (db \<Rightarrow> 'a) \<Rightarrow> db \<Rightarrow> go_error + 'a" where
  "query f q d = (case f of NoFault \<Rightarrow> Inr (q d) | FailBefore e \<Rightarrow> Inl e | FailAfter e \<Rightarrow> Inl e)"

definition confirmed_count :: "db \<Rightarrow> string \<times> string \<Rightarrow> nat" where
  "confirmed_count d k = length (filter (\<lambda>b. bk_status b = Confirmed \<and> seat_key b = k) (bookings d))"

definition oversold :: "db \<Rightarrow> (string \<times> string) list" where
  "oversold d =
     filter (\<lambda>k. confirmed_count d k > 1)
       (remdups (map seat_key (filter (\<lambda>b. bk_status b = Confirmed) (bookings d))))"

definition OversoldSeats :: "fault \<Rightarrow> db \<Rightarrow> go_error + nat" where
  "OversoldSeats f d = query f (\<lambda>d. length (oversold d)) d"

definition StuckHolds :: "fault \<Rightarrow> time \<Rightarrow> db \<Rightarrow> go_error + nat" where
  "StuckHolds f now d = query f (\<lambda>d. length (filter (expired_hold now) (bookings d))) d"

definition CountByStatus :: "fault \<Rightarrow> string \<Rightarrow> db \<Rightarrow> go_error + nat" where
  "CountByStatus f status d =
     query f (\<lambda>d. length (filter (\<lambda>b. status_text (bk_status b) = status) (bookings d))) d"


section \<open>What maintenance keeps and what it touches\<close>

lemma sweep_ids_in:
  "i \<in> set (sweep_ids now locked limit rows) \<Longrightarrow>
     \<exists>b \<in> set rows. bk_id b = i \<and> expired_hold now b \<and> \<not> locked i"
  by (fastforce simp: sweep_ids_def dest: in_order_limitD)

lemma swept_expired:
  assumes "distinct (map bk_id rows)" and "b \<in> set rows" and "bk_id b \<in> set (sweep_ids now locked limit rows)"
  shows "expired_hold now b"
  using sweep_ids_in [OF assms(3)] distinct_key_eq [OF assms(1) _ assms(2)] by blast

lemma sql_sweep_snd:
  "snd (sql_sweep now locked limit d) =
     (if limit < 0 then d
      else snd (update_bookings (\<lambda>b. bk_id b \<in> set (sweep_ids now locked limit (bookings d))) expire_row d))"
  by (simp add: sql_sweep_def Let_def split: prod.splits sum.splits)

lemma obeys_sweep: "obeys schema_step (SweepExpiredHolds f now locked limit)"
proof -
  have "obeys schema_step (sql_sweep now locked limit)"
    using obeysD [OF obeys_update_bookings [OF demotes_expire]]
    by (simp add: obeys_def sql_sweep_snd schema.R_refl)
  then show ?thesis unfolding SweepExpiredHolds_def by (intro schema.tx_intros)
qed

lemma sql_sweep_outcome:
  assumes "schema_inv d" and "0 \<le> limit"
  shows "sql_sweep now locked limit d =
     (let P = (\<lambda>b. bk_id b \<in> set (sweep_ids now locked limit (bookings d)))
      in (Inr (length (filter P (bookings d))), d\<lparr>bookings := update_where P expire_row (bookings d)\<rparr>))"
  using assms by (simp add: sql_sweep_def Let_def update_bookings_demotes)

lemma sweep_refund_inv:
  assumes "schema_inv d" and "refund_inv d"
  shows "refund_inv (snd (SweepExpiredHolds f now locked limit d))"
proof -
  let ?P = "\<lambda>b. bk_id b \<in> set (sweep_ids now locked limit (bookings d))"
  have same: "update_where ?P expire_row (bookings d) =
      update_where (\<lambda>b. ?P b \<and> bk_status b = Held) expire_row (bookings d)"
    using swept_expired [OF schema_inv_bk_id [OF assms(1)]]
    by (auto simp: update_where_def expired_hold_def)
  have "refund_inv (d\<lparr>bookings := update_where ?P expire_row (bookings d)\<rparr>)"
    unfolding same by (rule refund_inv_update_where [OF assms(2)]) (simp add: booking_wf_expire_held)
  then have "refund_inv (snd (sql_sweep now locked limit d))"
    using assms by (cases "limit < 0") (simp_all add: sql_sweep_outcome Let_def, simp add: sql_sweep_def)
  then show ?thesis
    using assms(2) by (auto simp: SweepExpiredHolds_def withFault_def split: fault.splits)
qed

lemma obeys_prune_statement: "obeys schema_step (sql_prune now locked us limit)"
proof
  fix d :: db
  have "schema_inv (snd (sql_prune now locked us limit d))" if "schema_inv d"
    using that
    by (auto simp: sql_prune_def Let_def schema_inv_def list_all_iff distinct_map_filter intro!: schema_inv_keys)
      (auto simp: inventory_ok_def)
  then show "schema_step d (snd (sql_prune now locked us limit d))"
    by (auto simp: schema_step_def seqs_grow_def same_inventory_def sql_prune_def Let_def)
qed

lemma obeys_prune: "obeys schema_step (PruneIdempotencyKeys f now locked old limit)"
  unfolding PruneIdempotencyKeys_def by (intro schema.tx_intros obeys_prune_statement)

lemma obeys_refund_prune: "obeys (keeping refund_inv) (PruneIdempotencyKeys f now locked old limit)"
  unfolding PruneIdempotencyKeys_def
  by (intro refund.tx_intros) (simp add: obeys_def sql_prune_def Let_def refund_inv_def)


section \<open>No seat is sold twice\<close>

lemma confirmed_count_le_1:
  assumes "bookings_ok d (bookings d)"
  shows "confirmed_count d k \<le> 1"
proof -
  have "confirmed_count d k \<le> length (filter (\<lambda>b. active b \<and> seat_key b = k) (bookings d))"
    unfolding confirmed_count_def
    by (rule length_filter_le_imp) (simp add: active_def)
  also have "\<dots> \<le> 1"
    using assms by (intro distinct_key_index_le_1) (simp add: bookings_ok_def)
  finally show ?thesis .
qed

lemma oversold_ok: "bookings_ok d (bookings d) \<Longrightarrow> oversold d = []"
  using confirmed_count_le_1 by (auto simp: oversold_def filter_empty_conv not_less)

lemmas oversold_empty = oversold_ok [OF bookings_ok_self]

end
