(* ===== verification/Worker.thy ===== *)
theory Worker
  imports Maintenance
begin

text \<open>
  The outbox worker, \<open>cmd/worker/main.go\<close>: \<open>processBatch\<close> drives the refund of every event it
  claimed, \<open>sweepExpiredHolds\<close> and \<open>pruneIdempotencyKeys\<close> do the maintenance, and a tick of the
  loop runs the three in this order. Logging is left out; every store call has its own fault.
\<close>

section \<open>Decoding the payload\<close>

text \<open>
  \<open>json.Unmarshal(e.Payload, &payload)\<close> into a struct with the one field
  \<open>RefundID int64 `json:"refund_id"`\<close>. \<open>null\<close> leaves the struct as it is, an object sets the field
  from every key that equals the name up to case, in order, and skips the others; a value of
  another kind, or a number that is no \<open>int64\<close>, is an error.
\<close>

definition lower_ascii :: "char \<Rightarrow> char" where
  "lower_ascii c = (if 65 \<le> (of_char c :: nat) \<and> (of_char c :: nat) \<le> 90
                    then char_of ((of_char c :: nat) + 32) else c)"

definition fold_equal :: "string \<Rightarrow> string \<Rightarrow> bool" where
  "fold_equal s t = (map lower_ascii s = map lower_ascii t)"

definition decode_int64 :: "jsonb \<Rightarrow> int \<Rightarrow> int option" where
  "decode_int64 v old =
     (case v of
        JNull \<Rightarrow> Some old
      | JInt n \<Rightarrow> if min_int64 \<le> n \<and> n \<le> max_int64 then Some n else None
      | _ \<Rightarrow> None)"

fun decode_fields :: "(string \<times> jsonb) list \<Rightarrow> int \<Rightarrow> int option" where
  "decode_fields [] acc = Some acc"
| "decode_fields ((k, v) # kvs) acc =
     (if fold_equal k ''refund_id''
      then (case decode_int64 v acc of None \<Rightarrow> None | Some n \<Rightarrow> decode_fields kvs n)
      else decode_fields kvs acc)"

definition decode_refund_id :: "jsonb \<Rightarrow> int option" where
  "decode_refund_id p =
     (case p of JNull \<Rightarrow> Some 0 | JObject kvs \<Rightarrow> decode_fields kvs 0 | _ \<Rightarrow> None)"


section \<open>processBatch\<close>

text \<open>
  The environment of a worker run: the database clock and the rows locked by others at each statement
  that reads them, the worker's own clock at each call that reads it, and the fate of every call.
\<close>

datatype worker_site = WPoll | WDeadLetter int | WMarkRefund int | WReleaseClaim int | WMarkProcessed int
  | WSweep | WPrune

record worker_env =
  we_db_now :: "worker_site \<Rightarrow> time"
  we_locked :: "worker_site \<Rightarrow> int \<Rightarrow> bool"
  we_locked_key :: "string \<Rightarrow> bool"
  we_now :: "worker_site \<Rightarrow> time"     \<comment> \<open>\<open>time.Now()\<close> in the store, to the microsecond\<close>
  we_nano :: "int \<Rightarrow> int"    \<comment> \<open>\<open>time.Now().UnixNano()\<close> in the gateway stub\<close>
  we_fault :: "worker_site \<Rightarrow> fault"

text \<open>\<open>fmt.Sprintf("stub-refund-ref-%d-%d", refundID, time.Now().UnixNano())\<close>\<close>

definition stubbedGatewayRefund :: "int \<Rightarrow> int \<Rightarrow> string" where
  "stubbedGatewayRefund unixNano refundID =
     ''stub-refund-ref-'' @ show_int refundID @ ''-'' @ show_int unixNano"

definition processEvent :: "worker_env \<Rightarrow> OutboxEvent \<Rightarrow> db \<Rightarrow> db" where
  "processEvent env e d =
     (let i = oe_ID e; now = we_now env; flt = we_fault env in
      if oe_EventType e \<noteq> ''refund_requested''
      then snd (MarkProcessed (flt (WDeadLetter i)) (now (WDeadLetter i)) i d)
      else (case decode_refund_id (oe_Payload e) of
              None \<Rightarrow> snd (MarkProcessed (flt (WDeadLetter i)) (now (WDeadLetter i)) i d)
            | Some refundID \<Rightarrow>
                (case MarkRefundStatus (flt (WMarkRefund i)) (now (WMarkRefund i)) refundID ''refunded''
                        (stubbedGatewayRefund (we_nano env i) refundID) d of
                   (Inl err, d') \<Rightarrow> snd (ReleaseClaim (flt (WReleaseClaim i)) i d')
                 | (Inr _, d') \<Rightarrow> snd (MarkProcessed (flt (WMarkProcessed i)) (now (WMarkProcessed i)) i d'))))"

definition processBatch :: "worker_env \<Rightarrow> int \<Rightarrow> db \<Rightarrow> db" where
  "processBatch env batchSize d =
     (case PollUnprocessed (we_fault env WPoll) (we_db_now env WPoll) (we_locked env WPoll) batchSize d of
        (Inl err, d') \<Rightarrow> d'
      | (Inr events, d') \<Rightarrow> forEachA (processEvent env) events d')"


section \<open>The tick\<close>

definition sweepBatchSize :: int where
  "sweepBatchSize = 1000"

definition idempotencyKeyRetention :: duration where
  "idempotencyKeyRetention = 24 * 3600 * 1000000000"

definition pruneBatchSize :: int where
  "pruneBatchSize = 1000"

definition sweepExpiredHolds :: "worker_env \<Rightarrow> db \<Rightarrow> db" where
  "sweepExpiredHolds env d =
     snd (SweepExpiredHolds (we_fault env WSweep) (we_db_now env WSweep) (we_locked env WSweep) sweepBatchSize d)"

definition pruneIdempotencyKeys :: "worker_env \<Rightarrow> db \<Rightarrow> db" where
  "pruneIdempotencyKeys env d =
     snd (PruneIdempotencyKeys (we_fault env WPrune) (we_db_now env WPrune) (we_locked_key env)
            idempotencyKeyRetention pruneBatchSize d)"

definition tick :: "worker_env \<Rightarrow> int \<Rightarrow> db \<Rightarrow> db" where
  "tick env batchSize d = pruneIdempotencyKeys env (sweepExpiredHolds env (processBatch env batchSize d))"


section \<open>What a worker run obeys\<close>

text \<open>The statements the worker calls, and what follows for an event, a batch and every call between.\<close>

locale worker_contract = db_contract R for R :: "db \<Rightarrow> db \<Rightarrow> bool" +
  assumes mark_refund_R: "st \<noteq> ''pending'' \<Longrightarrow> obeys R (sql_mark_refund now i st ref)"
    and poll_R: "obeys R (sql_poll_unprocessed now locked limit)"
    and release_claim_R: "obeys R (sql_release_claim i)"
    and mark_processed_R: "obeys R (sql_mark_processed now i)"
begin

lemma obeys_MarkRefundStatus: "st \<noteq> ''pending'' \<Longrightarrow> obeys R (MarkRefundStatus f now i st ref)"
  unfolding MarkRefundStatus_def by (intro tx_intros mark_refund_R)

lemma obeys_PollUnprocessed: "obeys R (PollUnprocessed f now locked limit)"
  unfolding PollUnprocessed_def by (intro tx_intros poll_R)

lemma obeys_ReleaseClaim: "obeys R (ReleaseClaim f i)"
  unfolding ReleaseClaim_def by (intro tx_intros release_claim_R)

lemma obeys_MarkProcessed: "obeys R (MarkProcessed f now i)"
  unfolding MarkProcessed_def by (intro tx_intros mark_processed_R)

lemma R_processEvent: "R d (processEvent env e d)"
proof -
  let ?m = "\<lambda>i x. MarkRefundStatus (we_fault env (WMarkRefund i)) (we_now env (WMarkRefund i)) x ''refunded''
      (stubbedGatewayRefund (we_nano env i) x) d"
  have 1: "R d (snd (?m i x))" for i x by (rule obeysD [OF obeys_MarkRefundStatus]) simp
  have 2: "R x (snd (ReleaseClaim f i x))" for f i x by (rule obeysD [OF obeys_ReleaseClaim])
  have 3: "R x (snd (MarkProcessed f now i x))" for f now i x by (rule obeysD [OF obeys_MarkProcessed])
  have "R d (snd (ReleaseClaim f i (snd (?m i x))))" and "R d (snd (MarkProcessed f now i (snd (?m i x))))"
    for f now i x
    using R_trans [OF 1 2] R_trans [OF 1 3] .
  then show ?thesis
    using 3 by (simp add: processEvent_def Let_def split_beta split: option.split sum.split)
qed

lemma R_processBatch: "R d (processBatch env n d)"
proof -
  let ?p = "PollUnprocessed (we_fault env WPoll) (we_db_now env WPoll) (we_locked env WPoll) n d"
  have 1: "R d (snd ?p)" by (rule obeysD [OF obeys_PollUnprocessed])
  have 2: "R x (forEachA (processEvent env) es x)" for es x
    by (rule obeys_forEach) (rule R_processEvent)
  show ?thesis
    using 1 R_trans [OF 1 2] by (simp add: processBatch_def split_beta split: sum.split)
qed

end


section \<open>A batch keeps the database's invariant\<close>

lemma decode_refund_payload:
  "min_int64 \<le> i \<Longrightarrow> i \<le> max_int64 \<Longrightarrow> decode_refund_id (refund_payload i) = Some i"
  by (simp add: decode_refund_id_def refund_payload_def fold_equal_def decode_int64_def)

text \<open>What identifies an event never changes: its id, type, booking and payload.\<close>

definition event_ids :: "db \<Rightarrow> (int \<times> string \<times> int \<times> jsonb) list" where
  "event_ids d = map (\<lambda>e. (ob_id e, event_content e)) (outbox_events d)"

definition same_events :: "db \<Rightarrow> db \<Rightarrow> bool" where
  "same_events d d' \<longleftrightarrow> event_ids d' = event_ids d"

lemma same_events_update:
  "(\<And>e. ob_id (f e) = ob_id e \<and> event_content (f e) = event_content e) \<Longrightarrow>
     same_events d (d\<lparr>outbox_events := update_where P f (outbox_events d)\<rparr>)"
  by (simp add: same_events_def event_ids_def map_update_where)

interpretation events: worker_contract same_events
proof unfold_locales
  show "obeys same_events (sql_mark_refund now i st ref)" for now i st ref
    by (simp add: obeys_def sql_mark_refund_def same_events_def event_ids_def Let_def split: option.splits)
qed (auto simp: obeys_def sql_outbox_defs Let_def event_content_def same_events_def event_ids_def rollback_def map_update_where)

text \<open>A polled event carries the content of its row; the content is that of a refund.\<close>

definition from_row :: "db \<Rightarrow> OutboxEvent \<Rightarrow> bool" where
  "from_row d e \<longleftrightarrow> (\<exists>row \<in> set (outbox_events d). e = outbox_event_of row)"

lemma from_row_event_ids:
  "from_row d e \<longleftrightarrow> (\<exists>t \<in> set (event_ids d).
     e = \<lparr>oe_ID = fst t, oe_EventType = fst (snd t), oe_BookingID = fst (snd (snd t)), oe_Payload = snd (snd (snd t))\<rparr>)"
  by (auto simp: from_row_def event_ids_def outbox_event_of_def event_content_def)

lemma same_events_from_row: "same_events d d' \<Longrightarrow> from_row d e \<Longrightarrow> from_row d' e"
  by (simp add: from_row_event_ids same_events_def)

definition refunded_row :: "time \<Rightarrow> string \<Rightarrow> refunds_row \<Rightarrow> refunds_row" where
  "refunded_row now ref r = r\<lparr>rf_status := Refunded, rf_completed_at := Some now, rf_external_ref := Some ref\<rparr>"

lemma mark_refunded_eq:
  "sql_mark_refund now i ''refunded'' ref d =
     (Inr (), d\<lparr>refunds := update_where (\<lambda>r. rf_id r = i \<and> rf_status r = Pending) (refunded_row now ref) (refunds d)\<rparr>)"
  by (simp add: sql_mark_refund_def rstatus_of_text_def refunded_row_def [abs_def])

lemma MarkRefundStatus_Inr:
  "MarkRefundStatus f now i ''refunded'' ref d = (Inr u, d') \<longleftrightarrow> f = NoFault \<and>
     d' = d\<lparr>refunds := update_where (\<lambda>r. rf_id r = i \<and> rf_status r = Pending) (refunded_row now ref) (refunds d)\<rparr>"
  by (auto simp: MarkRefundStatus_def withFault_Inr mark_refunded_eq)

lemma refunded_not_pending:
  "r \<in> set (update_where (\<lambda>r. rf_id r = i \<and> rf_status r = Pending) (refunded_row now ref) rs) \<Longrightarrow>
     rf_id r = i \<Longrightarrow> rf_status r \<noteq> Pending"
  by (erule in_update_whereE) (auto simp: refunded_row_def)

lemma mark_refund_done:
  assumes "MarkRefundStatus f now i ''refunded'' ref d = (Inr u, d')"
  shows "r \<in> set (refunds d') \<Longrightarrow> rf_id r = i \<Longrightarrow> rf_status r \<noteq> Pending"
    and "outbox_events d' = outbox_events d"
proof -
  note eq = assms [unfolded MarkRefundStatus_Inr]
  show "outbox_events d' = outbox_events d" using eq by simp
  have "refunds d' = update_where (\<lambda>r. rf_id r = i \<and> rf_status r = Pending) (refunded_row now ref) (refunds d)"
    using eq by simp
  then show "rf_status r \<noteq> Pending" if "r \<in> set (refunds d')" "rf_id r = i"
    using refunded_not_pending that by metis
qed

lemma MarkRefundStatus_db_inv:
  assumes "db_inv d" and m: "MarkRefundStatus f now i st ref d = (res, d')" and "st \<noteq> ''pending''"
  shows "db_inv d'"
proof -
  have "schema_step d d'" using obeys_eqD [OF schema_MarkRefundStatus m] .
  moreover have "keeping refund_inv d d'" using obeys_eqD [OF MarkRefundStatus_refund_inv [OF assms(3)] m] .
  ultimately show ?thesis using assms(1) by (simp add: db_inv_def schema_step_def)
qed

text \<open>In a well-formed database a claimed event is a refund request whose payload decodes.\<close>

lemma polled_event_decodes:
  assumes inv: "db_inv d" and row: "row \<in> set (outbox_events d)"
  obtains r where "r \<in> set (refunds d)" "ob_event_type row = ''refund_requested''"
    "ob_payload row = refund_payload (rf_id r)" "decode_refund_id (ob_payload row) = Some (rf_id r)"
proof -
  obtain r where r: "r \<in> set (refunds d)" "ob_event_type row = ''refund_requested''"
      "ob_payload row = refund_payload (rf_id r)"
    using refund_inv_eventE [OF _ row] inv unfolding db_inv_def by blast
  have "1 \<le> rf_id r \<and> rf_id r \<le> max_int64"
    using inv r(1) by (auto simp: db_inv_def schema_inv_def in_sequence_def list_all_iff)
  then have "decode_refund_id (ob_payload row) = Some (rf_id r)"
    using decode_refund_payload [of "rf_id r"] r(3) by (simp add: min_int64_def)
  then show ?thesis using that r by blast
qed

lemma MarkProcessed_db_inv:
  assumes inv: "db_inv d" and row: "row \<in> set (outbox_events d)" and "refund_done (refunds d) row"
  shows "db_inv (snd (MarkProcessed f now (ob_id row) d))"
proof -
  have "refund_done (refunds d) x" if "x \<in> set (outbox_events d)" "ob_id x = ob_id row" for x
    using distinct_key_eq [OF schema_inv_ob_id that(1) row that(2)] inv assms(3) by (simp add: db_inv_def)
  then have "refund_inv (snd (MarkProcessed f now (ob_id row) d))"
    using inv by (intro refund_inv_mark_processed) (auto simp: db_inv_def)
  then show ?thesis
    using inv obeysD [OF obeys_outbox(3)] unfolding db_inv_def schema_step_def by blast
qed

lemma ReleaseClaim_db_inv: "db_inv d \<Longrightarrow> db_inv (snd (ReleaseClaim f i d))"
  using obeysD [OF obeys_outbox(2)] obeysD [OF obeys_refund_outbox(2)]
  unfolding db_inv_def schema_step_def by blast

lemma processEvent_db_inv:
  assumes inv: "db_inv d" and "from_row d e"
  shows "db_inv (processEvent env e d)"
proof -
  obtain row where row: "row \<in> set (outbox_events d)" "e = outbox_event_of row"
    using assms(2) by (auto simp: from_row_def)
  obtain r where r: "r \<in> set (refunds d)" "ob_event_type row = ''refund_requested''"
      "ob_payload row = refund_payload (rf_id r)" "decode_refund_id (ob_payload row) = Some (rf_id r)"
    using polled_event_decodes [OF inv row(1)] .
  define i where "i = ob_id row"
  obtain res d' where m: "MarkRefundStatus (we_fault env (WMarkRefund i)) (we_now env (WMarkRefund i)) (rf_id r)
      ''refunded'' (stubbedGatewayRefund (we_nano env i) (rf_id r)) d = (res, d')"
    by (meson surj_pair)
  have inv': "db_inv d'" using MarkRefundStatus_db_inv [OF inv m] by simp
  have out: "processEvent env e d = (case res of
      Inl _ \<Rightarrow> snd (ReleaseClaim (we_fault env (WReleaseClaim i)) i d')
    | Inr _ \<Rightarrow> snd (MarkProcessed (we_fault env (WMarkProcessed i)) (we_now env (WMarkProcessed i)) i d'))"
    using m r row(2) unfolding i_def by (simp add: processEvent_def Let_def outbox_event_of_def)
  show ?thesis
  proof (cases res)
    case (Inl err)
    then show ?thesis using out ReleaseClaim_db_inv [OF inv'] by simp
  next
    case (Inr u)
    note md = mark_refund_done [OF m [unfolded Inr]]
    have "refund_done (refunds d') row"
      using md(1) r(3) by (auto simp: refund_done_def list_all_iff)
    moreover have "row \<in> set (outbox_events d')" using row(1) md(2) by simp
    ultimately show ?thesis using out Inr MarkProcessed_db_inv [OF inv'] by (simp add: i_def)
  qed
qed

lemma polled_from_row:
  "PollUnprocessed f now locked limit d = (Inr es, d') \<Longrightarrow> e \<in> set es \<Longrightarrow> from_row d e"
  by (auto simp: PollUnprocessed_def withFault_Inr sql_poll_unprocessed_def Let_def from_row_def split: if_splits)

lemma processBatch_db_inv:
  assumes "db_inv d"
  shows "db_inv (processBatch env n d)"
proof -
  obtain res d' where p: "PollUnprocessed (we_fault env WPoll) (we_db_now env WPoll) (we_locked env WPoll) n d = (res, d')"
    by (meson surj_pair)
  have inv': "db_inv d'"
    using assms obeys_eqD [OF obeys_outbox(1) p] obeys_eqD [OF obeys_refund_outbox(1) p]
    by (auto simp: db_inv_def schema_step_def)
  have same: "same_events d d'" using obeys_eqD [OF events.obeys_PollUnprocessed p] .
  show ?thesis
  proof (cases res)
    case (Inl err)
    then show ?thesis using p inv' by (simp add: processBatch_def)
  next
    case (Inr es)
    let ?I = "\<lambda>x. db_inv x \<and> same_events d' x"
    have "keeping ?I d' (forEachA (processEvent env) es d')"
    proof (rule keep.obeys_forEach)
      fix e x assume "e \<in> set es"
      then have "from_row d' e" using polled_from_row p Inr same same_events_from_row by metis
      then show "keeping ?I x (processEvent env e x)"
        using processEvent_db_inv events.R_processEvent same_events_from_row events.R_trans by metis
    qed
    then show ?thesis using p Inr inv' events.R_refl by (simp add: processBatch_def)
  qed
qed

lemma tick_db_inv: "db_inv d \<Longrightarrow> db_inv (tick env n d)"
proof -
  assume "db_inv d"
  then have 1: "db_inv (processBatch env n d)" by (rule processBatch_db_inv)
  then have 2: "db_inv (sweepExpiredHolds env (processBatch env n d))"
    using obeysD [OF obeys_sweep] sweep_refund_inv
    by (auto simp: sweepExpiredHolds_def db_inv_def schema_step_def)
  then show ?thesis
    using obeysD [OF obeys_prune] obeysD [OF obeys_refund_prune]
    by (auto simp: tick_def pruneIdempotencyKeys_def db_inv_def schema_step_def)
qed


section \<open>A batch drains the outbox\<close>

definition unprocessed :: "outbox_events_row \<Rightarrow> bool" where
  "unprocessed e \<longleftrightarrow> ob_processed_at e = None"

definition pending_events :: "db \<Rightarrow> outbox_events_row list" where
  "pending_events d = filter unprocessed (outbox_events d)"

definition worker_fault_free :: "worker_env \<Rightarrow> bool" where
  "worker_fault_free env \<longleftrightarrow>
     we_fault env WPoll = NoFault
     \<and> (\<forall>i. we_fault env (WDeadLetter i) = NoFault \<and> we_fault env (WMarkRefund i) = NoFault
          \<and> we_fault env (WMarkProcessed i) = NoFault)"

definition processed_row :: "(int \<Rightarrow> time) \<Rightarrow> outbox_events_row \<Rightarrow> outbox_events_row" where
  "processed_row ts e = e\<lparr>ob_processed_at := Some (ts (ob_id e))\<rparr>"

lemma ob_id_processed_row [simp]: "ob_id (processed_row ts e) = ob_id e"
  by (simp add: processed_row_def)

lemma unprocessed_processed_row [simp]: "\<not> unprocessed (processed_row ts e)"
  by (simp add: processed_row_def unprocessed_def)

lemma MarkProcessed_NoFault:
  "outbox_events (snd (MarkProcessed NoFault t i d)) =
     update_where (\<lambda>r. ob_id r = i \<and> unprocessed r) (processed_row (\<lambda>_. t)) (outbox_events d)"
  by (simp add: MarkProcessed_def mapErrA_def sql_mark_processed_def update_where_def unprocessed_def processed_row_def)

text \<open>Without faults every path of the loop body ends by marking the event processed.\<close>

lemma processEvent_marks:
  assumes "worker_fault_free env"
  shows "\<exists>t. outbox_events (processEvent env e d) =
     update_where (\<lambda>r. ob_id r = oe_ID e \<and> unprocessed r) (processed_row (\<lambda>_. t)) (outbox_events d)"
proof -
  have flt: "we_fault env (WDeadLetter i) = NoFault" "we_fault env (WMarkRefund i) = NoFault"
      "we_fault env (WMarkProcessed i) = NoFault" for i
    using assms by (simp_all add: worker_fault_free_def)
  have m: "\<exists>d'. MarkRefundStatus NoFault now x ''refunded'' ref d = (Inr (), d') \<and> outbox_events d' = outbox_events d"
    for now x ref
    using MarkRefundStatus_Inr by simp
  show ?thesis
  proof (cases "oe_EventType e = ''refund_requested'' \<and> decode_refund_id (oe_Payload e) \<noteq> None")
    case True
    then obtain x where x: "decode_refund_id (oe_Payload e) = Some x" by blast
    obtain d' where "MarkRefundStatus NoFault (we_now env (WMarkRefund (oe_ID e))) x ''refunded''
        (stubbedGatewayRefund (we_nano env (oe_ID e)) x) d = (Inr (), d')" "outbox_events d' = outbox_events d"
      using m by blast
    then have "outbox_events (processEvent env e d) =
        outbox_events (snd (MarkProcessed NoFault (we_now env (WMarkProcessed (oe_ID e))) (oe_ID e) d))"
      using True x by (simp add: processEvent_def Let_def flt MarkProcessed_NoFault)
    then show ?thesis unfolding MarkProcessed_NoFault by blast
  next
    case False
    then have "processEvent env e d =
        snd (MarkProcessed NoFault (we_now env (WDeadLetter (oe_ID e))) (oe_ID e) d)"
      by (auto simp: processEvent_def Let_def flt)
    then show ?thesis unfolding MarkProcessed_NoFault by (metis MarkProcessed_NoFault)
  qed
qed

lemma processEvents_mark:
  assumes "worker_fault_free env"
  shows "\<exists>ts. outbox_events (forEachA (processEvent env) es d) =
     update_where (\<lambda>r. ob_id r \<in> oe_ID ` set es \<and> unprocessed r) (processed_row ts) (outbox_events d)"
proof (induction es arbitrary: d)
  case Nil
  then show ?case by (simp add: update_where_none)
next
  case (Cons e es)
  obtain t where t: "outbox_events (processEvent env e d) =
      update_where (\<lambda>r. ob_id r = oe_ID e \<and> unprocessed r) (processed_row (\<lambda>_. t)) (outbox_events d)"
    using processEvent_marks [OF assms] by blast
  obtain ts where ts: "outbox_events (forEachA (processEvent env) es (processEvent env e d)) =
      update_where (\<lambda>r. ob_id r \<in> oe_ID ` set es \<and> unprocessed r) (processed_row ts)
        (outbox_events (processEvent env e d))"
    using Cons.IH by blast
  have "processed_row (\<lambda>_. t) r = processed_row (ts(oe_ID e := t)) r" if "ob_id r = oe_ID e" for r
    using that by (simp add: processed_row_def)
  moreover have "processed_row ts r = processed_row (ts(oe_ID e := t)) r" if "ob_id r \<noteq> oe_ID e" for r
    using that by (simp add: processed_row_def)
  ultimately have "outbox_events (forEachA (processEvent env) (e # es) d) =
      update_where (\<lambda>r. ob_id r \<in> oe_ID ` set (e # es) \<and> unprocessed r) (processed_row (ts(oe_ID e := t)))
        (outbox_events d)"
    unfolding forEachA.simps ts t by (auto simp: update_where_def)
  then show ?case by blast
qed

lemma poll_NoFault:
  assumes "0 \<le> n" and "ids = set (poll_ids now locked n (outbox_events d))"
  shows "PollUnprocessed NoFault now locked n d =
     (Inr (map outbox_event_of (filter (\<lambda>e. ob_id e \<in> ids) (outbox_events d))),
      d\<lparr>outbox_events := update_where (\<lambda>e. ob_id e \<in> ids) (\<lambda>e. e\<lparr>ob_claimed_at := Some now\<rparr>) (outbox_events d)\<rparr>)"
  using assms by (simp add: PollUnprocessed_def mapErrA_def sql_poll_unprocessed_def Let_def)

lemma poll_ids_unprocessed:
  assumes "distinct (map ob_id es)" and "e \<in> set es" and "ob_id e \<in> set (poll_ids now locked n es)"
  shows "unprocessed e"
proof -
  obtain x where "x \<in> set es" "ob_id x = ob_id e" "claimable now x"
    using poll_ids_in [OF assms(3)] by blast
  then show ?thesis
    using distinct_key_eq [OF assms(1)] assms(2) by (metis claimable_def unprocessed_def)
qed

lemma processBatch_pending:
  assumes "worker_fault_free env" and "schema_inv d" and "0 \<le> n"
  shows "pending_events (processBatch env n d) =
     filter (\<lambda>e. ob_id e \<notin> set (poll_ids (we_db_now env WPoll) (we_locked env WPoll) n (outbox_events d))) (pending_events d)"
proof -
  let ?ids = "poll_ids (we_db_now env WPoll) (we_locked env WPoll) n (outbox_events d)"
  have f: "we_fault env WPoll = NoFault" using assms(1) by (simp add: worker_fault_free_def)
  have ids: "oe_ID ` outbox_event_of ` {e \<in> set (outbox_events d). ob_id e \<in> set ?ids} =
      {ob_id e |e. e \<in> set (outbox_events d) \<and> ob_id e \<in> set ?ids}"
    by (auto simp: outbox_event_of_def image_iff)
  obtain ts where ts: "outbox_events (processBatch env n d) =
      map (\<lambda>e. if ob_id e \<in> set ?ids then (let c = e\<lparr>ob_claimed_at := Some (we_db_now env WPoll)\<rparr>
                  in if unprocessed e then processed_row ts c else c) else e) (outbox_events d)"
  proof -
    let ?d' = "d\<lparr>outbox_events := update_where (\<lambda>e. ob_id e \<in> set ?ids)
        (\<lambda>e. e\<lparr>ob_claimed_at := Some (we_db_now env WPoll)\<rparr>) (outbox_events d)\<rparr>"
    let ?es = "map outbox_event_of (filter (\<lambda>e. ob_id e \<in> set ?ids) (outbox_events d))"
    obtain ts where "outbox_events (forEachA (processEvent env) ?es ?d') =
        update_where (\<lambda>r. ob_id r \<in> oe_ID ` set ?es \<and> unprocessed r) (processed_row ts) (outbox_events ?d')"
      using processEvents_mark [OF assms(1)] by blast
    then show thesis
      by (intro that [of ts], unfold processBatch_def f poll_NoFault [OF assms(3) refl])
         (auto simp: update_where_def ids unprocessed_def)
  qed
  show ?thesis
    unfolding pending_events_def filter_filter ts
    using poll_ids_unprocessed [OF schema_inv_ob_id [OF assms(2)]]
    by (auto simp: Let_def intro!: filter_map_same split: if_splits)
qed

lemma distinct_pending: "schema_inv d \<Longrightarrow> distinct (map ob_id (pending_events d))"
  unfolding pending_events_def by (intro distinct_map_filter schema_inv_ob_id)

text \<open>A poll that no lock and no lease hinders takes as many events as the batch allows.\<close>

lemma length_unhindered_poll:
  assumes "\<And>e. e \<in> set (pending_events d) \<Longrightarrow> claimable now e \<and> \<not> locked (ob_id e)"
  shows "length (poll_ids now locked n (outbox_events d)) = min (nat n) (length (pending_events d))"
proof -
  have "filter (\<lambda>e. claimable now e \<and> \<not> locked (ob_id e)) (outbox_events d) = pending_events d"
    unfolding pending_events_def
    by (rule filter_cong) (use assms in \<open>auto simp: pending_events_def claimable_def unprocessed_def\<close>)
  then show ?thesis by (simp add: poll_ids_def)
qed

lemma length_filter_keys:
  assumes "distinct (map k xs)" and "distinct ids" and "set ids \<subseteq> k ` set xs"
  shows "length (filter (\<lambda>x. k x \<notin> set ids) xs) = length xs - length ids"
proof -
  let ?l = "filter (\<lambda>x. k x \<in> set ids) xs"
  have "set (map k ?l) = set ids" using assms(3) by auto
  then have "length (map k ?l) = card (set ids)"
    using distinct_card [OF distinct_map_filter [OF assms(1)]] by metis
  then show ?thesis
    using assms(2) sum_length_filter_compl [of "\<lambda>x. k x \<in> set ids" xs] by (simp add: distinct_card)
qed

lemma processBatch_pending_length:
  assumes "worker_fault_free env" and "schema_inv d" and "0 \<le> n"
    and "\<And>e. e \<in> set (pending_events d) \<Longrightarrow> claimable (we_db_now env WPoll) e \<and> \<not> we_locked env WPoll (ob_id e)"
  shows "length (pending_events (processBatch env n d)) = length (pending_events d) - nat n"
proof -
  let ?ids = "poll_ids (we_db_now env WPoll) (we_locked env WPoll) n (outbox_events d)"
  have "distinct ?ids"
    unfolding poll_ids_def
    by (intro distinct_order_limit distinct_map_filter schema_inv_ob_id [OF assms(2)])
  moreover have "set ?ids \<subseteq> ob_id ` set (pending_events d)"
    using poll_ids_in by (fastforce simp: pending_events_def claimable_def unprocessed_def)
  ultimately have "length (pending_events (processBatch env n d)) = length (pending_events d) - length ?ids"
    unfolding processBatch_pending [OF assms(1-3)] by (intro length_filter_keys distinct_pending [OF assms(2)])
  then show ?thesis using length_unhindered_poll [OF assms(4)] by simp
qed

text \<open>The maintenance of a tick leaves the outbox alone, whatever fails in it.\<close>

lemma tick_pending: "pending_events (tick env n d) = pending_events (processBatch env n d)"
proof -
  have "outbox_events (snd (SweepExpiredHolds f now locked limit x)) = outbox_events x" for f now locked limit x
    by (auto simp: SweepExpiredHolds_def withFault_def sql_sweep_snd update_bookings_def write_bookings_def
        split: fault.splits option.splits)
  moreover have "outbox_events (snd (PruneIdempotencyKeys f now locked old limit x)) = outbox_events x"
    for f now locked old limit x
    by (auto simp: PruneIdempotencyKeys_def withFault_def sql_prune_def Let_def split: fault.splits)
  ultimately show ?thesis
    by (simp add: pending_events_def tick_def sweepExpiredHolds_def pruneIdempotencyKeys_def)
qed

lemma ticks_drain:
  assumes "db_inv d" and "0 \<le> n"
    and "\<And>env. env \<in> set envs \<Longrightarrow> worker_fault_free env \<and> (\<forall>i. \<not> we_locked env WPoll i)"
    and "\<And>env e. env \<in> set envs \<Longrightarrow> e \<in> set (pending_events d) \<Longrightarrow> claimable (we_db_now env WPoll) e"
  shows "length (pending_events (forEachA (\<lambda>env. tick env n) envs d)) =
     length (pending_events d) - length envs * nat n"
  using assms(1,3,4)
proof (induction envs arbitrary: d)
  case Nil
  then show ?case by simp
next
  case (Cons env envs)
  have ff: "worker_fault_free env" and inv: "schema_inv d"
    using Cons.prems(1,2) by (auto simp: db_inv_def)
  have sub: "set (pending_events (tick env n d)) \<subseteq> set (pending_events d)"
    unfolding tick_pending processBatch_pending [OF ff inv assms(2)] by auto
  moreover have "length (pending_events (tick env n d)) = length (pending_events d) - nat n"
    unfolding tick_pending using Cons.prems by (intro processBatch_pending_length [OF ff inv assms(2)]) auto
  moreover have "length (pending_events (forEachA (\<lambda>env. tick env n) envs (tick env n d))) =
      length (pending_events (tick env n d)) - length envs * nat n"
    using sub Cons.prems by (intro Cons.IH tick_db_inv) auto
  ultimately show ?case by (simp add: diff_diff_left)
qed

end
