(* ===== verification/Contracts.thy ===== *)
theory Contracts
  imports Worker
begin

text \<open>
  The contract of the whole store: a relation between database states that every statement obeys is
  obeyed by every exported operation of \<open>internal/store\<close>, whatever fails on the way. It is
  interpreted on three relations: the schema's own (\<open>schema_step\<close>), the life cycle of a booking
  and the progress of refunds.
\<close>

section \<open>The contract\<close>

locale store_contract = hold_contract R + worker_contract R for R :: "db \<Rightarrow> db \<Rightarrow> bool" +
  assumes cancel_R: "obeys R (sql_cancel_booking now i b)"
    and insert_refund_R: "obeys R (sql_insert_refund now i)"
    and insert_event_R: "obeys R (sql_insert_outbox_event now ty i p)"
    and sweep_R: "obeys R (sql_sweep now locked limit)"
    and prune_R: "obeys R (sql_prune now lockedk us limit)"
begin

lemma obeys_CancelBooking: "obeys R (CancelBooking env i b)"
  unfolding CancelBooking_def cancel_body_def insertOutboxEvent_def Let_def
  by (intro tx_intros cancel_R insert_refund_R insert_event_R)

lemma obeys_SweepExpiredHolds: "obeys R (SweepExpiredHolds f now locked limit)"
  unfolding SweepExpiredHolds_def by (intro tx_intros sweep_R)

lemma obeys_PruneIdempotencyKeys: "obeys R (PruneIdempotencyKeys f now lockedk old limit)"
  unfolding PruneIdempotencyKeys_def by (intro tx_intros prune_R)

lemma R_tick: "R d (tick env n d)"
  unfolding tick_def sweepExpiredHolds_def pruneIdempotencyKeys_def
  using R_trans [OF R_trans [OF R_processBatch obeysD [OF obeys_SweepExpiredHolds]]
      obeysD [OF obeys_PruneIdempotencyKeys]] .

end

lemma obeys_mapErrA_withFault: "obeys R (mapErrA h (withFault NoFault m)) \<Longrightarrow> obeys R m"
  by (simp add: obeys_def)

interpretation store_schema: store_contract schema_step
proof unfold_locales
  show "obeys schema_step (sql_mark_refund now i st ref)" for now i st ref
    using schema_MarkRefundStatus [of NoFault] unfolding MarkRefundStatus_def by (rule obeys_mapErrA_withFault)
  show "obeys schema_step (sql_sweep now locked limit)" for now locked limit
    using obeys_sweep [of NoFault] unfolding SweepExpiredHolds_def by (rule obeys_mapErrA_withFault)
  show "obeys schema_step (sql_prune now lockedk us limit)" for now lockedk us limit
    by (rule obeys_prune_statement)
qed (rule obeys_cancel_booking obeys_insert_refund obeys_insert_outbox_event obeys_outbox_statements)+


section \<open>The life cycle of a booking\<close>

text \<open>
  \<open>held\<close> may become anything, \<open>confirmed\<close> may only be cancelled, \<open>cancelled\<close> and \<open>expired\<close> are
  final. The identity of a booking, and the instant it was sold, never change; no booking is deleted.
\<close>

fun may_become :: "bstatus \<Rightarrow> bstatus \<Rightarrow> bool" where
  "may_become Held _ = True"
| "may_become Confirmed st = (st = Confirmed \<or> st = Cancelled)"
| "may_become Cancelled st = (st = Cancelled)"
| "may_become Expired st = (st = Expired)"

definition evolves :: "bookings_row \<Rightarrow> bookings_row \<Rightarrow> bool" where
  "evolves b b' \<longleftrightarrow>
     bk_id b' = bk_id b \<and> seat_key b' = seat_key b \<and> bk_buyer_id b' = bk_buyer_id b
     \<and> bk_created_at b' = bk_created_at b \<and> may_become (bk_status b) (bk_status b')
     \<and> (bk_status b \<noteq> Held \<longrightarrow> bk_confirmed_at b' = bk_confirmed_at b)"

definition lifecycle :: "db \<Rightarrow> db \<Rightarrow> bool" where
  "lifecycle d d' \<longleftrightarrow>
     schema_step d d' \<and>
     (schema_inv d \<longrightarrow> (\<forall>b \<in> set (bookings d). \<exists>b' \<in> set (bookings d'). evolves b b'))"

lemma may_become_refl [simp]: "may_become st st"
  by (cases st) simp_all

lemma may_become_trans: "may_become a b \<Longrightarrow> may_become b c \<Longrightarrow> may_become a c"
  by (cases a; cases b; cases c) simp_all

lemma evolves_refl [simp]: "evolves b b"
  by (simp add: evolves_def)

lemma may_become_Held: "may_become a Held \<Longrightarrow> a = Held"
  by (cases a) simp_all

lemma evolves_trans:
  assumes "evolves a b" and "evolves b c"
  shows "evolves a c"
proof -
  have "may_become (bk_status a) (bk_status c)"
    using assms may_become_trans unfolding evolves_def by blast
  moreover have "bk_confirmed_at c = bk_confirmed_at a" if "bk_status a \<noteq> Held"
    using assms that may_become_Held [of "bk_status a"] unfolding evolves_def by metis
  ultimately show ?thesis using assms by (simp add: evolves_def)
qed

lemma lifecycle_same_bookings: "schema_step d d' \<Longrightarrow> bookings d' = bookings d \<Longrightarrow> lifecycle d d'"
  by (auto simp: lifecycle_def intro: evolves_refl)

lemma lifecycle_trans: "lifecycle a b \<Longrightarrow> lifecycle b c \<Longrightarrow> lifecycle a c"
  unfolding lifecycle_def using schema.R_trans evolves_trans schema_step_def by meson

lemma lifecycle_update:
  assumes "demotes P f" and "\<And>b. b \<in> set (bookings d) \<Longrightarrow> P b \<Longrightarrow> schema_inv d \<Longrightarrow> evolves b (f b)"
  shows "lifecycle d (snd (update_bookings P f d))"
proof -
  have "\<exists>b' \<in> set (bookings (snd (update_bookings P f d))). evolves b b'"
    if "schema_inv d" "b \<in> set (bookings d)" for b
  proof (rule bexI)
    let ?b = "if P b then f b else b"
    show "evolves b ?b" using assms(2) that by simp
    show "?b \<in> set (bookings (snd (update_bookings P f d)))"
      using that(2) by (simp add: update_bookings_demotes [OF that(1) assms(1)] set_update_where)
  qed
  then show ?thesis
    using obeysD [OF obeys_update_bookings [OF assms(1)]] by (simp add: lifecycle_def)
qed

lemma held_evolves:
  "bk_status b = Held \<Longrightarrow> evolves b (cancel_row now b)"
  "bk_status b = Held \<Longrightarrow> evolves b (expire_row b)"
  "bk_status b = Held \<Longrightarrow> evolves b (confirm_row now b)"
  "bk_status b = Confirmed \<Longrightarrow> evolves b (cancel_row now b)"
  by (simp_all add: evolves_def) (simp_all add: cancel_row_def expire_row_def confirm_row_def)

lemma lifecycle_insert_hold: "obeys lifecycle (sql_insert_hold now m s b us)"
proof
  fix d :: db
  have "schema_step d (snd (sql_insert_hold now m s b us d))" by (rule obeysD [OF obeys_insert_hold])
  moreover have "set (bookings d) \<subseteq> set (bookings (snd (sql_insert_hold now m s b us d)))"
    by (cases rule: sql_insert_hold_cases [where d = d and now = now and m = m and s = s and b = b and us = us])
      auto
  ultimately show "lifecycle d (snd (sql_insert_hold now m s b us d))"
    unfolding lifecycle_def using evolves_refl by blast
qed

lemma lifecycle_keeps_bookings:
  assumes "obeys schema_step m" and "\<And>d. bookings (snd (m d)) = bookings d"
  shows "obeys lifecycle m"
  using assms by (auto simp: obeys_def intro: lifecycle_same_bookings)

lemma lifecycle_sweep: "obeys lifecycle (sql_sweep now locked limit)"
proof
  fix d :: db
  show "lifecycle d (snd (sql_sweep now locked limit d))"
    using lifecycle_same_bookings [OF schema.R_refl] swept_expired [OF schema_inv_bk_id]
    by (auto simp: sql_sweep_snd expired_hold_def intro!: lifecycle_update held_evolves(1-3))
qed

interpretation life: store_contract lifecycle
proof unfold_locales
  show "lifecycle d d" for d by (rule lifecycle_same_bookings) (simp_all add: schema.R_refl)
  show "lifecycle a c" if "lifecycle a b" "lifecycle b c" for a b c using that by (rule lifecycle_trans)
  show "lifecycle d (rollback d w)" if "lifecycle d w" for d w
    by (rule lifecycle_same_bookings) (use that schema.R_rollback in \<open>auto simp: lifecycle_def rollback_def\<close>)
  show "obeys lifecycle (sql_release_previous now m s b)" for now m s b
    by (auto simp: obeys_def sql_release_previous_def previous_hold_def intro!: lifecycle_update held_evolves(1-3))
  show "obeys lifecycle (sql_expire_stale now m s)" for now m s
    by (auto simp: obeys_def sql_expire_stale_def stale_hold_def intro!: lifecycle_update held_evolves(1-3))
  show "obeys lifecycle (sql_confirm_hold now i b)" for now i b
    by (auto simp: obeys_def sql_confirm_hold_def intro!: lifecycle_update held_evolves(1-3))
      (auto simp: confirmable_def)
  show "obeys lifecycle (sql_release_hold now i b)" for now i b
    by (auto simp: obeys_def sql_release_hold_def releasable_def intro!: lifecycle_update held_evolves(1-3))
  show "obeys lifecycle (sql_cancel_booking now i b)" for now i b
    by (auto simp: obeys_def sql_cancel_booking_def cancellable_def intro!: lifecycle_update held_evolves(4))
  show "obeys lifecycle (sql_insert_hold now m s b us)" for now m s b us by (rule lifecycle_insert_hold)
  show "obeys lifecycle (sql_sweep now locked limit)" for now locked limit by (rule lifecycle_sweep)
qed (auto intro!: lifecycle_keeps_bookings obeys_clear_stale_key obeys_record_key store_schema.mark_refund_R
    obeys_insert_refund obeys_insert_outbox_event obeys_outbox_statements obeys_prune_statement
    simp: sql_clear_stale_key_def sql_record_key_def sql_mark_refund_def sql_insert_refund_def
      sql_insert_outbox_event_def sql_outbox_defs sql_prune_def Let_def split: option.splits)


section \<open>The progress of refunds\<close>

text \<open>
  No outbox event is lost or rewritten, and a refund that left \<open>pending\<close> keeps its row: it is never
  paid out a second time under another reference.
\<close>

definition settled :: "db \<Rightarrow> refunds_row list" where
  "settled d = filter (\<lambda>r. rf_status r \<noteq> Pending) (refunds d)"

definition refund_progress :: "db \<Rightarrow> db \<Rightarrow> bool" where
  "refund_progress d d' \<longleftrightarrow>
     set (event_ids d) \<subseteq> set (event_ids d') \<and> set (settled d) \<subseteq> set (settled d')"

lemma refund_progress_same:
  "outbox_events d' = outbox_events d \<Longrightarrow> refunds d' = refunds d \<Longrightarrow> refund_progress d d'"
  by (simp add: refund_progress_def settled_def event_ids_def)

lemma refund_progress_events:
  assumes "\<And>e. ob_id (f e) = ob_id e \<and> event_content (f e) = event_content e"
  shows "refund_progress d (d\<lparr>outbox_events := update_where P f (outbox_events d)\<rparr>)"
  using map_update_where [of "outbox_events d" P "\<lambda>e. (ob_id e, event_content e)" f] assms
  by (simp add: refund_progress_def settled_def event_ids_def)

lemma refund_progress_mark:
  "st \<noteq> Pending \<Longrightarrow> refund_progress d (d\<lparr>refunds :=
     update_where (\<lambda>r. rf_id r = i \<and> rf_status r = Pending)
       (\<lambda>r. r\<lparr>rf_status := st, rf_completed_at := c, rf_external_ref := x\<rparr>) (refunds d)\<rparr>)"
  by (auto simp: refund_progress_def settled_def event_ids_def set_update_where)

lemma update_bookings_progress: "refund_progress d (snd (update_bookings P f d))"
  by (rule refund_progress_same) (simp_all add: update_bookings_def write_bookings_def split: option.splits)

lemma rstatus_not_pending: "st \<noteq> ''pending'' \<Longrightarrow> rstatus_of_text st \<noteq> Some Pending"
  by (auto simp: rstatus_of_text_def)

interpretation progress: store_contract refund_progress
proof unfold_locales
  show "obeys refund_progress (sql_insert_hold now m s b us)" for now m s b us
    by (auto simp: obeys_def sql_insert_hold_def write_bookings_def Let_def intro!: refund_progress_same
        split: option.splits)
  show "obeys refund_progress (sql_mark_refund now i st ref)" if "st \<noteq> ''pending''" for now i st ref
    using rstatus_not_pending [OF that]
    by (auto simp: obeys_def sql_mark_refund_def Let_def intro!: refund_progress_same refund_progress_mark
        split: option.splits)
  show "obeys refund_progress (sql_sweep now locked limit)" for now locked limit
    by (auto simp: obeys_def sql_sweep_snd intro!: refund_progress_same update_bookings_progress)
  show "obeys refund_progress (sql_insert_refund now i)" for now i
    by (auto simp: obeys_def sql_insert_refund_def refund_progress_def settled_def event_ids_def Let_def)
  show "obeys refund_progress (sql_insert_outbox_event now ty i p)" for now ty i p
    by (auto simp: obeys_def sql_insert_outbox_event_def refund_progress_def settled_def event_ids_def Let_def)
  show "refund_progress a c" if "refund_progress a b" "refund_progress b c" for a b c
    using that unfolding refund_progress_def by (meson order_trans)
qed (auto simp: obeys_def sql_clear_stale_key_def sql_record_key_def sql_outbox_defs sql_prune_def Let_def
    sql_release_previous_def sql_expire_stale_def sql_confirm_hold_def sql_release_hold_def sql_cancel_booking_def
    rollback_def event_content_def
    intro!: refund_progress_same update_bookings_progress refund_progress_events)

end
