(* ===== verification/HoldCorrect.thy ===== *)
theory HoldCorrect
  imports Holds
begin

text \<open>
  What \<open>placeHold\<close>, \<open>ConfirmHold\<close> and \<open>ReleaseHold\<close> do, on every branch: the exact condition under
  which a hold is granted, the state it leaves, what an error leaves untouched, and what an
  idempotency key replays, refuses or re-points.
\<close>

section \<open>The rows a hold attempt works on\<close>

definition hold_rows :: "time \<Rightarrow> string \<Rightarrow> string \<Rightarrow> string \<Rightarrow> bookings_row list \<Rightarrow> bookings_row list" where
  "hold_rows now m s b rows =
     update_where (stale_hold now m s) expire_row (update_where (previous_hold m s b) (cancel_row now) rows)"

definition hold_row :: "time \<Rightarrow> string \<Rightarrow> string \<Rightarrow> string \<Rightarrow> bookings_row \<Rightarrow> bookings_row" where
  "hold_row now m s b r =
     (if previous_hold m s b r then cancel_row now r
      else if stale_hold now m s r then expire_row r else r)"

text \<open>A seat is taken when an active booking of it is not a hold past its expiry.\<close>

definition seat_taken :: "time \<Rightarrow> string \<Rightarrow> string \<Rightarrow> db \<Rightarrow> bool" where
  "seat_taken now m s d \<longleftrightarrow>
     list_ex (\<lambda>r. seat_key r = (m, s) \<and> active r \<and> \<not> stale_hold now m s r) (bookings d)"

definition seat_exists :: "string \<Rightarrow> string \<Rightarrow> db \<Rightarrow> bool" where
  "seat_exists m s d \<longleftrightarrow>
     (m, s) \<in> set (map (\<lambda>r. (se_match_id r, se_seat_id r)) (seats d)) \<and> m \<in> set (map ma_id (matches d))"

definition tx_fault_free :: "hold_env \<Rightarrow> bool" where
  "tx_fault_free env \<longleftrightarrow>
     list_all (\<lambda>site. he_fault env site = NoFault)
       [BeginTx, LockBuyer, ClearStaleKey, ReleasePrevious, ExpireStale, InsertHold, RecordKey, CommitTx]"

lemma hold_rows_map: "hold_rows now m s b rows = map (hold_row now m s b) rows"
  by (auto simp: hold_rows_def hold_row_def update_where_def stale_hold_def previous_hold_def
      cancel_row_def)

lemma hold_row_simps [simp]:
  "bk_id (hold_row now m s b r) = bk_id r"
  "seat_key (hold_row now m s b r) = seat_key r"
  "buyer_key (hold_row now m s b r) = buyer_key r"
  by (simp_all add: hold_row_def)

lemma hold_row_active:
  "active (hold_row now m s b r) \<longleftrightarrow> active r \<and> \<not> previous_hold m s b r \<and> \<not> stale_hold now m s r"
  by (auto simp: hold_row_def)

lemma hold_row_held:
  "is_held (hold_row now m s b r) \<longleftrightarrow> is_held r \<and> \<not> previous_hold m s b r \<and> \<not> stale_hold now m s r"
  by (auto simp: hold_row_def)

lemma hold_rows_active:
  "{r \<in> set (hold_rows now m s b rows). active r} =
     {r \<in> set rows. active r \<and> \<not> previous_hold m s b r \<and> \<not> stale_hold now m s r}"
  by (auto simp: hold_rows_map hold_row_active) (auto simp: hold_row_def image_iff)

lemma hold_rows_held:
  "{r \<in> set (hold_rows now m s b rows). is_held r} =
     {r \<in> set rows. is_held r \<and> \<not> previous_hold m s b r \<and> \<not> stale_hold now m s r}"
  by (auto simp: hold_rows_map hold_row_held) (auto simp: hold_row_def image_iff)

lemma hold_rows_ok: "bookings_ok d rows \<Longrightarrow> bookings_ok d (hold_rows now m s b rows)"
  by (simp add: hold_rows_def bookings_ok_demotes)

lemma held_active: "is_held r \<Longrightarrow> active r"
  by (simp add: row_defs)

text \<open>
  The new row fits into the indexes exactly when no booking blocks the seat. In particular the
  index on the buyer never refuses it: the buyer's other holds are cancelled, and a hold of the
  buyer on the target seat already occupies the seat's own index.
\<close>

lemma hold_insert_violation:
  assumes "schema_inv d" and "bk_id row = bookings_id_seq d" and "seat_key row = (m, s)"
    and "buyer_key row = (m, b)" and "is_held row" and "bk_hold_expires_at row \<noteq> None"
  shows "bookings_violation d (hold_rows now m s b (bookings d) @ [row]) =
           (if seat_taken now m s d then Some uniqueViolationCode
            else if \<not> seat_exists m s d then Some ''23503'' else None)"
proof -
  let ?rows = "hold_rows now m s b (bookings d)"
  have ok: "bookings_ok d ?rows" using assms(1) by (simp add: bookings_ok_self hold_rows_ok)
  have fresh: "bk_id row \<notin> bk_id ` set ?rows"
    using assms(1,2) by (auto simp: hold_rows_map schema_inv_def in_sequence_def list_all_iff)
  have seat: "(m, s) \<in> seat_key ` {r \<in> set ?rows. active r} \<longleftrightarrow> seat_taken now m s d"
    by (auto simp: hold_rows_active seat_taken_def list_ex_iff seat_key_def previous_hold_def image_iff)
  have buyer: "(m, b) \<in> buyer_key ` {r \<in> set ?rows. is_held r} \<Longrightarrow> seat_taken now m s d"
    unfolding hold_rows_held
    by (auto simp: seat_taken_def list_ex_iff row_defs previous_hold_def)
  have "bk_match_id row = m" using assms(3) by (simp add: seat_key_def)
  then show ?thesis
    using ok assms(3-6) fresh seat buyer held_active [OF assms(5)]
    by (auto simp: bookings_violation_def bookings_ok_def seat_exists_def)
qed

section \<open>The transaction\<close>

definition keys_cleared :: "string \<Rightarrow> int \<Rightarrow> db \<Rightarrow> idempotency_keys_row list" where
  "keys_cleared key stale d =
     (if stale \<noteq> 0 then filter (\<lambda>k. \<not> (ik_key k = key \<and> ik_booking_id k = stale)) (idempotency_keys d)
      else idempotency_keys d)"

definition placed_row :: "hold_env \<Rightarrow> string \<Rightarrow> string \<Rightarrow> string \<Rightarrow> duration \<Rightarrow> db \<Rightarrow> bookings_row" where
  "placed_row env m s b ttl d =
     new_hold (bookings_id_seq d) m s b (he_tx_now env + microseconds ttl) (he_tx_now env)"

definition placed_db :: "hold_env \<Rightarrow> string \<Rightarrow> string \<Rightarrow> string \<Rightarrow> duration \<Rightarrow> string \<Rightarrow> int \<Rightarrow> db \<Rightarrow> db" where
  "placed_db env m s b ttl key stale d =
     d\<lparr>bookings := hold_rows (he_tx_now env) m s b (bookings d) @ [placed_row env m s b ttl d],
       idempotency_keys := keys_cleared key stale d @
         (if key \<noteq> '''' then [\<lparr>ik_key = key, ik_booking_id = bookings_id_seq d, ik_created_at = he_tx_now env\<rparr>]
          else []),
       bookings_id_seq := bookings_id_seq d + 1\<rparr>"

definition key_blocked :: "string \<Rightarrow> int \<Rightarrow> db \<Rightarrow> bool" where
  "key_blocked key stale d \<longleftrightarrow> key \<noteq> '''' \<and> key \<in> set (map ik_key (keys_cleared key stale d))"

text \<open>The state in front of the \<open>INSERT\<close>, and what the \<open>INSERT\<close> makes of it.\<close>

definition before_insert :: "hold_env \<Rightarrow> string \<Rightarrow> string \<Rightarrow> string \<Rightarrow> string \<Rightarrow> int \<Rightarrow> db \<Rightarrow> db" where
  "before_insert env m s b key stale d =
     d\<lparr>idempotency_keys := keys_cleared key stale d,
       bookings := hold_rows (he_tx_now env) m s b (bookings d)\<rparr>"

lemma tx_fault_freeD:
  assumes "tx_fault_free env"
  shows "he_fault env BeginTx = NoFault" "he_fault env LockBuyer = NoFault"
    "he_fault env ClearStaleKey = NoFault" "he_fault env ReleasePrevious = NoFault"
    "he_fault env ExpireStale = NoFault" "he_fault env InsertHold = NoFault"
    "he_fault env RecordKey = NoFault" "he_fault env CommitTx = NoFault"
  using assms by (simp_all add: tx_fault_free_def)

lemma clear_stale_step:
  "bindA (if stale \<noteq> 0 then mapErrA h (sql_clear_stale_key key stale) else returnA ()) f d =
     f () (d\<lparr>idempotency_keys := keys_cleared key stale d\<rparr>)"
  by (auto simp: keys_cleared_def sql_clear_stale_key_def mapErrA_def bindA_def)

lemma update_step:
  assumes "bookings_ok d (update_where P g (bookings d))"
  shows "bindA (mapErrA h (update_bookings P g)) f d = f () (d\<lparr>bookings := update_where P g (bookings d)\<rparr>)"
  using assms by (simp add: update_bookings_def write_bookings_ok mapErrA_def bindA_def)

lemma hold_body_to_insert:
  assumes "bookings_ok d (bookings d)" and "tx_fault_free env"
  shows "hold_body env m s b ttl key stale d =
      bindA (mapErrA insert_failure (sql_insert_hold (he_tx_now env) m s b (microseconds ttl)))
        (\<lambda>row. bindA (if key \<noteq> '''' then mapErrA record_failure (sql_record_key (he_tx_now env) key (bk_id row))
                      else returnA ()) (\<lambda>_. returnA (booking_row_of row)))
        (before_insert env m s b key stale d)"
proof -
  let ?now = "he_tx_now env"
  let ?d1 = "d\<lparr>idempotency_keys := keys_cleared key stale d\<rparr>"
  let ?rows = "update_where (previous_hold m s b) (cancel_row ?now) (bookings d)"
  note ok = assms(1)
  have ok1: "bookings_ok ?d1 (update_where (previous_hold m s b) (cancel_row ?now) (bookings ?d1))"
    using ok by (simp add: bookings_ok_demotes)
  have ok2: "bookings_ok (?d1\<lparr>bookings := ?rows\<rparr>)
      (update_where (stale_hold ?now m s) expire_row (bookings (?d1\<lparr>bookings := ?rows\<rparr>)))"
    using ok by (simp add: bookings_ok_demotes)
  show ?thesis
    by (simp add: update_step [OF ok1] update_step [OF ok2] hold_body_def Let_def tx_fault_freeD [OF assms(2)] sql_lock_buyer_def clear_stale_step
        sql_release_previous_def sql_expire_stale_def before_insert_def hold_rows_def
        cong: if_cong split del: if_split)
qed

lemmas hold_body_before_insert = hold_body_to_insert [OF bookings_ok_self]

lemma insert_hold_outcome:
  assumes "schema_inv d" and "bookings_id_seq d \<le> max_int64"
  shows "sql_insert_hold (he_tx_now env) m s b (microseconds ttl) (before_insert env m s b key stale d) =
     (if seat_taken (he_tx_now env) m s d
      then (Inl (PgError uniqueViolationCode),
            (before_insert env m s b key stale d)\<lparr>bookings_id_seq := bookings_id_seq d + 1\<rparr>)
      else if \<not> seat_exists m s d
      then (Inl (PgError ''23503''),
            (before_insert env m s b key stale d)\<lparr>bookings_id_seq := bookings_id_seq d + 1\<rparr>)
      else (Inr (placed_row env m s b ttl d),
            (before_insert env m s b key stale d)\<lparr>bookings_id_seq := bookings_id_seq d + 1,
              bookings := hold_rows (he_tx_now env) m s b (bookings d) @ [placed_row env m s b ttl d]\<rparr>))"
proof -
  have "bookings_violation d (hold_rows (he_tx_now env) m s b (bookings d) @ [placed_row env m s b ttl d]) =
      (if seat_taken (he_tx_now env) m s d then Some uniqueViolationCode
       else if \<not> seat_exists m s d then Some ''23503'' else None)"
    by (rule hold_insert_violation [OF assms(1)]) (simp_all add: placed_row_def)
  then show ?thesis
    using assms(2)
    by (simp add: sql_insert_hold_def Let_def write_bookings_def before_insert_def placed_row_def
        del: bookings_violation_None)
qed

lemma hold_tx_outcome:
  assumes inv: "schema_inv d" and ff: "tx_fault_free env" and seq: "bookings_id_seq d \<le> max_int64"
  shows "hold_tx env m s b ttl key stale d =
           (if seat_taken (he_tx_now env) m s d \<or> \<not> seat_exists m s d \<or> key_blocked key stale d
            then (Inl (if seat_taken (he_tx_now env) m s d \<or> seat_exists m s d then Conflict
                       else FailWith (Wrap ''place hold: insert'' (PgError ''23503''))),
                  d\<lparr>bookings_id_seq := bookings_id_seq d + 1\<rparr>)
            else (Inr (booking_row_of (placed_row env m s b ttl d)), placed_db env m s b ttl key stale d))"
proof (cases "seat_taken (he_tx_now env) m s d \<or> \<not> seat_exists m s d")
  case True
  then show ?thesis
    using insert_hold_outcome [OF inv seq]
    by (auto simp: hold_tx_def in_tx_def tx_fault_freeD [OF ff] hold_body_before_insert [OF inv ff]
        bindA_def mapErrA_def insert_failure_def rollback_def before_insert_def uniqueViolationCode_def)
next
  case False
  have "bk_id (placed_row env m s b ttl d) = bookings_id_seq d" by (simp add: placed_row_def)
  with False show ?thesis
    using insert_hold_outcome [OF inv seq]
    by (auto simp: hold_tx_def in_tx_def tx_fault_freeD [OF ff] hold_body_before_insert [OF inv ff]
        bindA_def mapErrA_def record_failure_def rollback_def before_insert_def
        sql_record_key_def key_blocked_def placed_db_def)
qed


section \<open>Success and failure of the whole call\<close>

definition quiet :: "hold_env \<Rightarrow> hold_env" where
  "quiet env = env\<lparr>he_fault := (\<lambda>_. NoFault)\<rparr>"

lemma quiet_simps [simp]:
  "tx_fault_free (quiet env)" "he_tx_now (quiet env) = he_tx_now env"
  "he_fault (quiet env) site = NoFault"
  "placed_row (quiet env) m s b ttl d = placed_row env m s b ttl d"
  "placed_db (quiet env) m s b ttl key stale d = placed_db env m s b ttl key stale d"
  by (simp_all add: quiet_def tx_fault_free_def placed_row_def placed_db_def)

text \<open>A call that succeeds met no fault, so the fault-free outcome describes it.\<close>

lemma hold_tx_Inr_quiet:
  assumes "hold_tx env m s b ttl key stale d = (Inr row, d')"
  shows "hold_tx (quiet env) m s b ttl key stale d = (Inr row, d')"
proof -
  note iffs = bindA_Inr_iff mapErrA_Inr_iff withFault_Inr
  have "hold_body env m s b ttl key stale d = (Inr row, d')"
    using assms by (simp add: hold_tx_def in_tx_Inr)
  then have "hold_body (quiet env) m s b ttl key stale d = (Inr row, d')"
    by (cases "stale = 0"; cases "key = ''''")
      (simp_all add: hold_body_def Let_def iffs, (metis | blast)+)
  then show ?thesis by (simp add: hold_tx_def in_tx_Inr)
qed

lemma insert_exhausted:
  "max_int64 < bookings_id_seq d \<Longrightarrow> sql_insert_hold now m s b us (before_insert env m s b key stale d) =
     (Inl sequence_exhausted, before_insert env m s b key stale d)"
  by (simp add: sql_insert_hold_def before_insert_def)

lemma hold_tx_Inr:
  assumes inv: "schema_inv d" and ok: "hold_tx env m s b ttl key stale d = (Inr row, d')"
  shows "row = booking_row_of (placed_row env m s b ttl d)" "d' = placed_db env m s b ttl key stale d"
    "\<not> seat_taken (he_tx_now env) m s d" "seat_exists m s d" "\<not> key_blocked key stale d"
    "bookings_id_seq d \<le> max_int64"
proof -
  note q = hold_tx_Inr_quiet [OF ok]
  show seq: "bookings_id_seq d \<le> max_int64"
  proof (rule ccontr)
    assume "\<not> bookings_id_seq d \<le> max_int64"
    then have "bookings_id_seq d > max_int64" by simp
    from q show False
      by (simp add: hold_tx_def in_tx_Inr hold_body_before_insert [OF inv] bindA_Inr_iff
          insert_exhausted [OF \<open>bookings_id_seq d > max_int64\<close>, where env = "quiet env", simplified])
  qed
  show "row = booking_row_of (placed_row env m s b ttl d)" "d' = placed_db env m s b ttl key stale d"
    "\<not> seat_taken (he_tx_now env) m s d" "seat_exists m s d" "\<not> key_blocked key stale d"
    using q hold_tx_outcome [OF inv _ seq, of "quiet env" m s b ttl key stale]
    by (auto split: if_splits)
qed

text \<open>A call with no session in between sees one state of the tables.\<close>

definition alone :: "hold_env \<Rightarrow> bool" where
  "alone env \<longleftrightarrow> (\<forall>d. he_before_tx env d = d) \<and> (\<forall>d. he_before_replay env d = d)"

lemma same_tables_refl [simp]: "same_tables d d"
  by (simp add: same_tables_def)

text \<open>The error path in full: nothing changed, or the commit took effect and only its reply was lost.\<close>

definition with_reply :: "hold_env \<Rightarrow> hold_env" where
  "with_reply env = env\<lparr>he_fault := (he_fault env)(CommitTx := NoFault)\<rparr>"

lemma with_reply_simps [simp]:
  "he_fault (with_reply env) CommitTx = NoFault" "site \<noteq> CommitTx \<Longrightarrow> he_fault (with_reply env) site = he_fault env site"
  "he_lookup_now (with_reply env) = he_lookup_now env" "he_before_tx (with_reply env) = he_before_tx env"
  by (simp_all add: with_reply_def)

lemma hold_body_with_reply [simp]: "hold_body (with_reply env) m s b ttl key stale = hold_body env m s b ttl key stale"
  by (rule ext) (simp add: hold_body_def with_reply_def Let_def cong: if_cong split del: if_split)

definition reply_lost :: "hold_env \<Rightarrow> go_error \<Rightarrow> bool" where
  "reply_lost env e \<longleftrightarrow> (\<exists>x. he_fault env CommitTx = FailAfter x \<and> e = Wrap ''place hold: commit'' x)"

lemma hold_tx_error:
  assumes "hold_tx env m s b ttl key stale d = (Inl f, d')"
  shows "same_tables d d' \<or> (\<exists>e row. f = FailWith e \<and> reply_lost env e \<and> hold_tx (with_reply env) m s b ttl key stale d = (Inr row, d'))"
  using assms
  by (auto simp: hold_tx_def in_tx_def reply_lost_def same_tables_def rollback_def split: fault.splits prod.splits sum.splits)

lemma placeHold_error_outcome:
  assumes "alone env" and "placeHold env m s b ttl key d = (Inl e, d')"
  shows "same_tables d d' \<or> (reply_lost env e \<and> (\<exists>row. placeHold (with_reply env) m s b ttl key d = (Inr row, d')))"
proof -
  have "same_tables d d' \<or> (reply_lost env e \<and> (\<exists>row. hold_attempt (with_reply env) m s b ttl key stale d = (Inr row, d')))"
    if "hold_attempt env m s b ttl key stale d = (Inl e, d')" for stale
    using that assms(1) hold_tx_error [of env m s b ttl key stale d]
    by (fastforce simp: hold_attempt_def alone_def Let_def split: prod.splits sum.splits hold_failure.splits)
  then show ?thesis
    using assms(2) by (auto simp: placeHold_def split: if_splits sum.splits prod.splits)
qed

lemma PlaceHold_outcome:
  assumes "schema_inv (he_before_tx env d)" and "tx_fault_free env"
    and "bookings_id_seq (he_before_tx env d) \<le> max_int64" and "seat_exists m s (he_before_tx env d)"
  shows "PlaceHold env m s b ttl d =
     (let d1 = he_before_tx env d in
      if seat_taken (he_tx_now env) m s d1
      then (Inl ErrSeatUnavailable,
            he_before_replay env (d1\<lparr>bookings_id_seq := bookings_id_seq d1 + 1\<rparr>))
      else (Inr (booking_row_of (placed_row env m s b ttl d1)), placed_db env m s b ttl '''' 0 d1))"
  using hold_tx_outcome [OF assms(1,2,3), of m s b ttl "''''" 0] assms(4)
  by (simp add: PlaceHold_def placeHold_def hold_attempt_def replayHold_def key_blocked_def Let_def)


section \<open>Idempotency keys\<close>

lemma key_bookings_recorded:
  assumes "schema_inv d" and "k \<in> set (idempotency_keys d)" and "b \<in> set (bookings d)"
    and "bk_id b = ik_booking_id k"
  shows "key_bookings (ik_key k) d = [b]"
proof -
  have "filter (\<lambda>x. ik_key x = ik_key k) (idempotency_keys d) = [k]"
    using assms(1,2) by (intro filter_key_singleton) (simp_all add: schema_inv_def)
  moreover have "filter (\<lambda>x. bk_id x = ik_booking_id k) (bookings d) = [b]"
    using filter_key_singleton [OF schema_inv_bk_id [OF assms(1)] assms(3)] assms(4) by simp
  ultimately show ?thesis by (simp add: key_bookings_def)
qed

lemma key_bookings_unknown: "key \<notin> set (map ik_key (idempotency_keys d)) \<Longrightarrow> key_bookings key d = []"
  by (auto simp: key_bookings_def filter_empty_conv)

lemma key_bookings_cases:
  assumes "schema_inv d"
  obtains (unknown) "key \<notin> set (map ik_key (idempotency_keys d))" "key_bookings key d = []"
  | (known) k b where "k \<in> set (idempotency_keys d)" "ik_key k = key" "b \<in> set (bookings d)"
      "bk_id b = ik_booking_id k" "key_bookings key d = [b]"
proof (cases "key \<in> set (map ik_key (idempotency_keys d))")
  case True
  then obtain k where k: "k \<in> set (idempotency_keys d)" "ik_key k = key" by auto
  then obtain b where "b \<in> set (bookings d)" "bk_id b = ik_booking_id k"
    using assms by (force simp: schema_inv_def list_all_iff)
  with k show thesis using known key_bookings_recorded [OF assms] by blast
next
  case False
  then show thesis using unknown key_bookings_unknown by blast
qed

definition same_request :: "string \<Rightarrow> string \<Rightarrow> string \<Rightarrow> bookings_row \<Rightarrow> bool" where
  "same_request m s b r \<longleftrightarrow> bk_match_id r = m \<and> bk_seat_id r = s \<and> bk_buyer_id r = b"

lemma lookup_known:
  assumes "key_bookings key d = [r]"
  shows "lookupIdempotentHold NoFault now m s b key d =
     Inr (if \<not> same_request m s b r then (zero_row, idemMismatch)
          else if live now r then (booking_row_of r, idemLive) else (booking_row_of r, idemDead))"
  using assms by (auto simp: lookupIdempotentHold_def sql_lookup_key_def same_request_def)

lemma lookup_unknown:
  "key_bookings key d = [] \<Longrightarrow> lookupIdempotentHold NoFault now m s b key d = Inr (zero_row, idemMiss)"
  by (simp add: lookupIdempotentHold_def sql_lookup_key_def)

text \<open>What a lookup that says live found: the booking of the key, with the request's parameters.\<close>

lemma lookup_live:
  assumes "lookupIdempotentHold f now m s b key d = Inr (row, idemLive)"
  shows "\<exists>r rest. key_bookings key d = r # rest \<and> row = booking_row_of r \<and> same_request m s b r \<and> live now r"
  using assms
  by (auto simp: lookupIdempotentHold_def sql_lookup_key_def same_request_def
      split: fault.splits list.splits if_splits)

lemma placed_db_key:
  assumes "schema_inv (placed_db env m s b ttl key stale d)" and "key \<noteq> ''''"
  shows "key_bookings key (placed_db env m s b ttl key stale d) = [placed_row env m s b ttl d]"
  using key_bookings_recorded [OF assms(1),
      of "\<lparr>ik_key = key, ik_booking_id = bookings_id_seq d, ik_created_at = he_tx_now env\<rparr>"
         "placed_row env m s b ttl d"] assms(2)
  by (simp add: placed_db_def placed_row_def)

lemma placed_db_inv:
  assumes "schema_inv d" and "hold_tx env m s b ttl key stale d = (Inr row, d')"
  shows "schema_inv d'"
  using assms obeys_eqD [OF hold_schema.obeys_hold_tx] by (fastforce simp: schema_step_def)

lemma env_schema:
  assumes "env_obeys schema_step env" and "schema_inv d"
  shows "schema_inv (he_before_tx env d)" and "schema_inv (he_before_replay env d)"
  using assms by (auto simp: env_obeys_def schema_step_def)

text \<open>
  A keyed call that returned a row leaves the key mapped to that very booking, whether it was
  placed now or replayed.
\<close>

lemma hold_attempt_Inr_key:
  assumes inv: "schema_inv d" and env: "env_obeys schema_step env" and "key \<noteq> ''''"
    and ok: "hold_attempt env m s b ttl key stale d = (Inr row, d')"
  shows "\<exists>r rest. key_bookings key d' = r # rest \<and> row = booking_row_of r \<and> same_request m s b r
           \<and> (bk_status r = Held \<or> bk_status r = Confirmed)"
proof -
  let ?d1 = "he_before_tx env d"
  have inv1: "schema_inv ?d1" using env inv by (rule env_schema)
  obtain res d2 where tx: "hold_tx env m s b ttl key stale ?d1 = (res, d2)"
    by (cases "hold_tx env m s b ttl key stale ?d1")
  show ?thesis
  proof (cases res)
    case (Inr row')
    with tx ok have tx': "hold_tx env m s b ttl key stale ?d1 = (Inr row, d')"
      by (simp add: hold_attempt_def)
    have "d' = placed_db env m s b ttl key stale ?d1" and "row = booking_row_of (placed_row env m s b ttl ?d1)"
      using hold_tx_Inr [OF inv1 tx'] by simp_all
    moreover have "schema_inv d'" using inv1 tx' by (rule placed_db_inv)
    ultimately show ?thesis
      using placed_db_key [of env m s b ttl key stale ?d1] assms(3)
      by (simp add: same_request_def placed_row_def)
  next
    case (Inl failure)
    with tx ok assms(3) have "lookupIdempotentHold (he_fault env ReplayLookup) (he_replay_now env) m s b key d'
        = Inr (row, idemLive)"
      by (auto simp: hold_attempt_def replayHold_def Let_def split: hold_failure.splits sum.splits
          prod.splits if_splits)
    then show ?thesis using lookup_live by (fastforce simp: live_def)
  qed
qed

lemma placeHold_Inr_key:
  assumes "schema_inv d" and "env_obeys schema_step env" and "key \<noteq> ''''"
    and "placeHold env m s b ttl key d = (Inr row, d')"
  shows "\<exists>r rest. key_bookings key d' = r # rest \<and> row = booking_row_of r \<and> same_request m s b r
           \<and> (bk_status r = Held \<or> bk_status r = Confirmed)"
proof (cases "\<exists>r. lookupIdempotentHold (he_fault env LookupKey) (he_lookup_now env) m s b key d = Inr (r, idemLive)")
  case True
  with assms(3,4) show ?thesis using lookup_live by (fastforce simp: placeHold_def live_def)
next
  case False
  with assms(3,4) obtain stale where "hold_attempt env m s b ttl key stale d = (Inr row, d')"
    by (auto simp: placeHold_def split: sum.splits prod.splits if_splits)
  with hold_attempt_Inr_key [OF assms(1-3)] show ?thesis by blast
qed


text \<open>The whole of \<open>placeHold\<close> without faults and without other sessions: what each kind of key leads to.\<close>

definition attempt_outcome ::
  "hold_env \<Rightarrow> string \<Rightarrow> string \<Rightarrow> string \<Rightarrow> duration \<Rightarrow> string \<Rightarrow> int \<Rightarrow> db \<Rightarrow> (go_error + BookingRow) \<times> db"
where
  "attempt_outcome env m s b ttl key stale d =
     (if seat_taken (he_tx_now env) m s d
      then (Inl ErrSeatUnavailable, d\<lparr>bookings_id_seq := bookings_id_seq d + 1\<rparr>)
      else if \<not> seat_exists m s d
      then (Inl (Wrap ''place hold: insert'' (PgError ''23503'')), d\<lparr>bookings_id_seq := bookings_id_seq d + 1\<rparr>)
      else (Inr (booking_row_of (placed_row env m s b ttl d)), placed_db env m s b ttl key stale d))"

definition faultless :: "hold_env \<Rightarrow> bool" where
  "faultless env \<longleftrightarrow> alone env \<and> (\<forall>site. he_fault env site = NoFault)"

lemma faultlessD:
  assumes "faultless env"
  shows "tx_fault_free env" "he_before_tx env d = d" "he_before_replay env d = d" "he_fault env site = NoFault"
  using assms by (simp_all add: faultless_def alone_def tx_fault_free_def)

lemma key_bookings_seq [simp]: "key_bookings key (d\<lparr>bookings_id_seq := n\<rparr>) = key_bookings key d"
  by (simp add: key_bookings_def)

lemma hold_attempt_outcome:
  assumes "schema_inv d" and "bookings_id_seq d \<le> max_int64" and "faultless env" and "\<not> key_blocked key stale d"
    and "key = '''' \<or> key_bookings key d = [] \<or> (\<exists>r. key_bookings key d = [r] \<and> same_request m s b r \<and> \<not> live (he_replay_now env) r)"
  shows "hold_attempt env m s b ttl key stale d = attempt_outcome env m s b ttl key stale d"
proof -
  let ?d = "d\<lparr>bookings_id_seq := bookings_id_seq d + 1\<rparr>"
  note f = faultlessD [OF assms(3)]
  have "replayHold env m s b key ?d = Inl ErrSeatUnavailable"
    using assms(5) lookup_known [of key ?d] lookup_unknown [of key ?d] by (auto simp: replayHold_def f(4))
  then show ?thesis
    using hold_tx_outcome [OF assms(1) f(1) assms(2), of m s b ttl key stale] assms(4)
    by (auto simp: hold_attempt_def attempt_outcome_def f(2,3) Let_def)
qed

lemma placeHold_fresh_outcome:
  assumes "schema_inv d" and "bookings_id_seq d \<le> max_int64" and "faultless env"
    and "key = '''' \<or> key \<notin> ik_key ` set (idempotency_keys d)"
  shows "placeHold env m s b ttl key d = attempt_outcome env m s b ttl key 0 d"
proof -
  have "key = '''' \<or> key_bookings key d = []" using assms(4) key_bookings_unknown [of key d] by auto
  moreover have "\<not> key_blocked key 0 d" using assms(4) by (simp add: key_blocked_def keys_cleared_def)
  ultimately show ?thesis
    using hold_attempt_outcome [OF assms(1-3), of key 0 m s b ttl] faultlessD(4) [OF assms(3)] lookup_unknown
    by (auto simp: placeHold_def)
qed

lemma placeHold_keyed_outcome:
  assumes "schema_inv d" and "bookings_id_seq d \<le> max_int64" and "faultless env" and "he_lookup_now env \<le> he_replay_now env"
    and k: "k \<in> set (idempotency_keys d)" "q \<in> set (bookings d)" "bk_id q = ik_booking_id k" "ik_key k \<noteq> ''''"
  shows "placeHold env m s b ttl (ik_key k) d =
     (if \<not> same_request m s b q then (Inl ErrIdempotencyKeyReuse, d)
      else if live (he_lookup_now env) q then (Inr (booking_row_of q), d)
      else attempt_outcome env m s b ttl (ik_key k) (bk_id q) d)"
proof -
  note kb = key_bookings_recorded [OF assms(1) k(1-3)]
  note f = faultlessD [OF assms(3)]
  have "bk_id q \<noteq> 0" using assms(1) k(2) by (auto simp: schema_inv_def in_sequence_def list_all_iff)
  moreover have "x = k" if "x \<in> set (idempotency_keys d)" "ik_key x = ik_key k" for x
    using that k(1) assms(1) distinct_key_eq [of ik_key "idempotency_keys d"] by (simp add: schema_inv_def)
  ultimately have nb: "\<not> key_blocked (ik_key k) (bk_id q) d"
    using k(3) by (fastforce simp: key_blocked_def keys_cleared_def)
  have dead: "\<not> live (he_replay_now env) q" if "\<not> live (he_lookup_now env) q"
    using that assms(4) by (auto simp: live_def expires_after_def split: option.splits)
  show ?thesis
    using lookup_known [OF kb, of "he_lookup_now env" m s b] hold_attempt_outcome [OF assms(1-3) nb, of m s b ttl] kb dead k(4)
    by (auto simp: placeHold_def f(4) booking_row_of_def)
qed


section \<open>Confirmations and releases\<close>

definition confirmed_result :: "time \<Rightarrow> bookings_row \<Rightarrow> BookingRow" where
  "confirmed_result now b =
     \<lparr>br_ID = bk_id b, br_MatchID = bk_match_id b, br_SeatID = bk_seat_id b, br_BuyerID = bk_buyer_id b,
      br_Status = ''confirmed'', br_HoldExpiresAt = None, br_ConfirmedAt = Some now\<rparr>"

lemma ConfirmHold_row:
  assumes "schema_inv d" and "b \<in> set (bookings d)"
  shows "ConfirmHold NoFault now (bk_id b) buyer d =
     (if confirmable now buyer b
      then (Inr (confirmed_result now b),
            d\<lparr>bookings := update_where (\<lambda>r. bk_id r = bk_id b \<and> confirmable now buyer r) (confirm_row now) (bookings d)\<rparr>)
      else (Inl ErrHoldExpired, d))"
proof (cases "confirmable now buyer b")
  case True
  then show ?thesis
    using cas_on_id [OF assms(1) demotes_confirm assms(2) refl]
    by (simp add: ConfirmHold_def sql_confirm_hold_def confirmed_result_def confirmable_def) (simp add: confirm_row_def)
next
  case False
  have "\<forall>x \<in> set (bookings d). \<not> (bk_id x = bk_id b \<and> confirmable now buyer x)"
    using False distinct_key_eq [OF schema_inv_bk_id [OF assms(1)] _ assms(2)] by blast
  from cas_no_row [OF assms(1) this] False show ?thesis by (simp add: ConfirmHold_def sql_confirm_hold_def)
qed

lemma ConfirmHold_no_row:
  assumes "schema_inv d" and "i \<notin> bk_id ` set (bookings d)"
  shows "ConfirmHold NoFault now i buyer d = (Inl ErrHoldExpired, d)"
proof -
  have "\<forall>x \<in> set (bookings d). \<not> (bk_id x = i \<and> confirmable now buyer x)" using assms(2) by auto
  from cas_no_row [OF assms(1) this] show ?thesis by (simp add: ConfirmHold_def sql_confirm_hold_def)
qed

text \<open>What a confirmation that succeeded, under any fault, found and left behind.\<close>

lemma ConfirmHold_Inr:
  assumes "schema_inv d" and "ConfirmHold f now i buyer d = (Inr row, d')"
  obtains b where "b \<in> set (bookings d)" and "bk_id b = i" and "confirmable now buyer b"
    and "d' = d\<lparr>bookings := update_where (\<lambda>r. bk_id r = i \<and> confirmable now buyer r) (confirm_row now) (bookings d)\<rparr>"
proof -
  have f: "f = NoFault"
    using assms(2) by (auto simp: ConfirmHold_def withFault_def split: fault.splits if_splits)
  show thesis
  proof (cases "i \<in> bk_id ` set (bookings d)")
    case True
    then obtain b where b: "b \<in> set (bookings d)" "bk_id b = i" by auto
    then show thesis
      using ConfirmHold_row [OF assms(1) b(1), of now buyer] assms(2) f that [OF b] by (auto split: if_splits)
  next
    case False
    then show thesis using ConfirmHold_no_row [OF assms(1) False, of now buyer] assms(2) f by simp
  qed
qed

text \<open>A hold is confirmed at most once: every later attempt on it, by anyone at any time, finds it sold.\<close>

lemma confirm_at_most_once:
  assumes "schema_inv d" and "ConfirmHold f now i buyer d = (Inr row, d')"
  shows "ConfirmHold NoFault now' i buyer' d' = (Inl ErrHoldExpired, d')"
proof -
  obtain b where b: "b \<in> set (bookings d)" "bk_id b = i" "confirmable now buyer b"
    and d': "d' = d\<lparr>bookings := update_where (\<lambda>r. bk_id r = i \<and> confirmable now buyer r) (confirm_row now) (bookings d)\<rparr>"
    using ConfirmHold_Inr [OF assms] .
  have inv': "schema_inv d'"
    using assms obeys_eqD [OF hold_schema.obeys_ConfirmHold] by (auto simp: schema_step_def)
  have c: "confirm_row now b \<in> set (bookings d')" using b by (force simp: d' set_update_where)
  show ?thesis
    using ConfirmHold_row [OF inv' c, of now' buyer'] b(2) by (simp add: confirmable_def confirm_row_def)
qed

lemma ReleaseHold_row:
  assumes "schema_inv d" and "b \<in> set (bookings d)"
  shows "ReleaseHold NoFault now (bk_id b) buyer d =
     (if releasable buyer b
      then (Inr (bk_match_id b),
            d\<lparr>bookings := update_where (\<lambda>r. bk_id r = bk_id b \<and> releasable buyer r) (cancel_row now) (bookings d)\<rparr>)
      else (Inl ErrNotFound, d))"
proof (cases "releasable buyer b")
  case True
  then show ?thesis
    using cas_on_id [OF assms(1) demotes_cancel assms(2) refl, of "releasable buyer" now]
    by (simp add: ReleaseHold_def sql_release_hold_def) (simp add: cancel_row_def)
next
  case False
  have "\<forall>x \<in> set (bookings d). \<not> (bk_id x = bk_id b \<and> releasable buyer x)"
    using False distinct_key_eq [OF schema_inv_bk_id [OF assms(1)] _ assms(2)] by blast
  from cas_no_row [OF assms(1) this] False show ?thesis by (simp add: ReleaseHold_def sql_release_hold_def)
qed

lemma ReleaseHold_no_row:
  assumes "schema_inv d" and "i \<notin> bk_id ` set (bookings d)"
  shows "ReleaseHold NoFault now i buyer d = (Inl ErrNotFound, d)"
proof -
  have "\<forall>x \<in> set (bookings d). \<not> (bk_id x = i \<and> releasable buyer x)" using assms(2) by auto
  from cas_no_row [OF assms(1) this] show ?thesis by (simp add: ReleaseHold_def sql_release_hold_def)
qed

end
