(* ===== verification/SeatBoard.thy ===== *)
theory SeatBoard
  imports Maintenance HoldCorrect "HOL-Library.List_Lexorder" "HOL-Library.Product_Lexorder"
begin

text \<open>
  The seat map: \<open>ListSeats\<close> of \<open>internal/store/seats.go\<close> and the abstract board it shows. The board
  says of every seat whether it is free, held (by whom, until when) or sold (to whom). Each write
  of the store refines one abstract operation on the board.
\<close>

section \<open>ListSeats\<close>

record SeatStatus =
  ss_SeatID :: string
  ss_Section :: string
  ss_Status :: string
  ss_HoldExpiresAt :: "time option"

text \<open>
  \<open>ORDER BY s.section, s.seat_id\<close> compares texts by the collation of the database, which is
  configuration: \<open>coll\<close> gives the sort key of a text.
\<close>

type_synonym collation = "string \<Rightarrow> nat list"

definition seats_of :: "collation \<Rightarrow> string \<Rightarrow> db \<Rightarrow> seats_row list" where
  "seats_of coll matchID d =
     sort_key (\<lambda>s. (coll (se_section s), coll (se_seat_id s))) (filter (\<lambda>s. se_match_id s = matchID) (seats d))"

definition live_bookings :: "time \<Rightarrow> db \<Rightarrow> string \<times> string \<Rightarrow> bookings_row list" where
  "live_bookings now d k = filter (\<lambda>b. seat_key b = k \<and> live now b) (bookings d)"

text \<open>The left join: one row per live booking of the seat, or one row that says available.\<close>

definition seat_rows :: "time \<Rightarrow> db \<Rightarrow> seats_row \<Rightarrow> SeatStatus list" where
  "seat_rows now d s =
     (case live_bookings now d (se_match_id s, se_seat_id s) of
        [] \<Rightarrow> [\<lparr>ss_SeatID = se_seat_id s, ss_Section = se_section s, ss_Status = ''available'',
               ss_HoldExpiresAt = None\<rparr>]
      | bs \<Rightarrow> map (\<lambda>b. \<lparr>ss_SeatID = se_seat_id s, ss_Section = se_section s,
                     ss_Status = status_text (bk_status b),
                     ss_HoldExpiresAt = bk_hold_expires_at b\<rparr>) bs)"

definition ListSeats :: "fault \<Rightarrow> collation \<Rightarrow> time \<Rightarrow> string \<Rightarrow> db \<Rightarrow> go_error + SeatStatus list" where
  "ListSeats f coll now matchID d =
     (case query f (\<lambda>d. concat (map (seat_rows now d) (seats_of coll matchID d))) d of
        Inl err \<Rightarrow> Inl (Wrap ''list seats'' err)
      | Inr rows \<Rightarrow> Inr rows)"


section \<open>The abstract board\<close>

datatype seat_state = Free | HeldBy string time | SoldTo string

type_synonym board = "string \<times> string \<Rightarrow> seat_state"

definition state_of_booking :: "bookings_row \<Rightarrow> seat_state" where
  "state_of_booking b =
     (if bk_status b = Confirmed then SoldTo (bk_buyer_id b)
      else HeldBy (bk_buyer_id b) (expiry_key b))"

definition seat_view :: "time \<Rightarrow> db \<Rightarrow> board" where
  "seat_view now d k = (case live_bookings now d k of [] \<Rightarrow> Free | b # _ \<Rightarrow> state_of_booking b)"

text \<open>Holding a seat frees the other seat the buyer holds in the match; selling and freeing are pointwise.\<close>

definition board_hold :: "string \<Rightarrow> string \<Rightarrow> string \<Rightarrow> time \<Rightarrow> board \<Rightarrow> board" where
  "board_hold m s b e v =
     (\<lambda>k. if k = (m, s) then HeldBy b e
          else if fst k = m \<and> (\<exists>e'. v k = HeldBy b e') then Free
          else v k)"

fun status_of_state :: "seat_state \<Rightarrow> string \<times> time option" where
  "status_of_state Free = (''available'', None)"
| "status_of_state (HeldBy b e) = (''held'', Some e)"
| "status_of_state (SoldTo b) = (''confirmed'', None)"

definition seat_line :: "time \<Rightarrow> db \<Rightarrow> seats_row \<Rightarrow> SeatStatus" where
  "seat_line now d s =
     (let (st, e) = status_of_state (seat_view now d (se_match_id s, se_seat_id s))
      in \<lparr>ss_SeatID = se_seat_id s, ss_Section = se_section s, ss_Status = st, ss_HoldExpiresAt = e\<rparr>)"


section \<open>At most one live booking per seat\<close>

lemma live_active: "live now b \<Longrightarrow> active b"
  by (auto simp: live_def active_def)

lemma schema_inv_active: "schema_inv d \<Longrightarrow> distinct (map seat_key (filter active (bookings d)))"
  by (simp add: schema_inv_def bookings_ok_def)

lemma active_unique:
  assumes "schema_inv d" and "a \<in> set (bookings d)" "b \<in> set (bookings d)" and "active a" "active b"
    and "seat_key a = seat_key b"
  shows "a = b"
  using distinct_index_eq [OF schema_inv_active [OF assms(1)]] assms(2-6) by blast

lemma live_bookings_in: "b \<in> set (live_bookings now d k) \<longleftrightarrow> b \<in> set (bookings d) \<and> seat_key b = k \<and> live now b"
  by (auto simp: live_bookings_def)

lemma live_bookings_singleton:
  assumes "schema_inv d" and "b \<in> set (live_bookings now d k)"
  shows "live_bookings now d k = [b]"
proof -
  have "length (live_bookings now d k) \<le> length (filter (\<lambda>b. active b \<and> seat_key b = k) (bookings d))"
    unfolding live_bookings_def by (rule length_filter_le_imp) (auto dest: live_active)
  also have "\<dots> \<le> 1" by (rule distinct_key_index_le_1 [OF schema_inv_active [OF assms(1)]])
  finally show ?thesis using assms(2) by (cases "live_bookings now d k") auto
qed

lemma seat_view_live:
  assumes "schema_inv d" and "b \<in> set (bookings d)" and "live now b"
  shows "seat_view now d (seat_key b) = state_of_booking b"
proof -
  have "live_bookings now d (seat_key b) = [b]"
    by (rule live_bookings_singleton [OF assms(1)]) (simp add: live_bookings_in assms(2,3))
  then show ?thesis by (simp add: seat_view_def)
qed

lemma seat_view_Free_iff:
  "seat_view now d k = Free \<longleftrightarrow> (\<forall>b \<in> set (bookings d). live now b \<longrightarrow> seat_key b \<noteq> k)"
  by (auto simp: seat_view_def live_bookings_def state_of_booking_def filter_empty_conv split: list.splits
      if_splits) (metis (mono_tags, lifting) filter_eq_Cons_iff in_set_conv_decomp)+

lemma seat_view_cases:
  assumes "schema_inv d"
  obtains (free) "seat_view now d k = Free" "\<forall>b \<in> set (bookings d). live now b \<longrightarrow> seat_key b \<noteq> k"
  | (taken) b where "b \<in> set (bookings d)" "seat_key b = k" "live now b"
      "seat_view now d k = state_of_booking b"
  using assms seat_view_Free_iff seat_view_live by metis

text \<open>The board is determined by the live bookings, so two states with the same ones show the same board.\<close>

lemma seat_view_eqI:
  assumes "schema_inv d" "schema_inv d'"
    and "\<And>b. live now b \<Longrightarrow> seat_key b = k \<Longrightarrow> b \<in> set (bookings d') \<longleftrightarrow> b \<in> set (bookings d)"
  shows "seat_view now d' k = seat_view now d k"
  using assms(1)
proof (cases rule: seat_view_cases [where now = now and k = k])
  case free
  then have "seat_view now d' k = Free" using assms(3) by (auto simp: seat_view_Free_iff)
  with free show ?thesis by simp
next
  case (taken b)
  then have "b \<in> set (bookings d')" using assms(3) by blast
  with taken show ?thesis using seat_view_live [OF assms(2)] by metis
qed


section \<open>The list is the board\<close>

lemma seat_rows_line:
  assumes "db_inv d"
  shows "seat_rows now d s = [seat_line now d s]"
proof -
  let ?k = "(se_match_id s, se_seat_id s)"
  have inv: "schema_inv d" using assms by (simp add: db_inv_def)
  show ?thesis
    using inv
  proof (cases rule: seat_view_cases [where now = now and k = ?k])
    case free
    then have "live_bookings now d ?k = []" by (auto simp: live_bookings_def filter_empty_conv)
    with free show ?thesis by (simp add: seat_rows_def seat_line_def)
  next
    case (taken b)
    then have l: "live_bookings now d ?k = [b]"
      by (intro live_bookings_singleton [OF inv]) (simp add: live_bookings_in)
    have "booking_wf b" using assms taken(1) by (simp add: db_inv_def refund_inv_def list_all_iff)
    with taken l show ?thesis
      by (auto simp: seat_rows_def seat_line_def state_of_booking_def live_def booking_wf_def
          expires_after_def expiry_key_def split: option.splits)
  qed
qed

text \<open>
  What the list of a match has to be, said of the tables: every seat of the match on one line, in the order of
  section and seat; a line is confirmed when the seat is sold, held with the expiry of a hold that has not reached
  it, available when there is neither, which is what the board says.
\<close>

definition shows_seat :: "time \<Rightarrow> db \<Rightarrow> seats_row \<Rightarrow> SeatStatus \<Rightarrow> bool" where
  "shows_seat now d s l \<longleftrightarrow>
     (let k = (se_match_id s, se_seat_id s);
          sold = (\<lambda>b. b \<in> set (bookings d) \<and> seat_key b = k \<and> bk_status b = Confirmed);
          held = (\<lambda>e b. b \<in> set (bookings d) \<and> seat_key b = k \<and> bk_status b = Held
                         \<and> bk_hold_expires_at b = Some e \<and> now < e)
      in ss_SeatID l = se_seat_id s \<and> ss_Section l = se_section s
         \<and> (ss_Status l, ss_HoldExpiresAt l) = status_of_state (seat_view now d k)
         \<and> (ss_Status l = ''confirmed'' \<and> ss_HoldExpiresAt l = None \<and> (\<exists>b. sold b)
           \<or> (\<exists>e. ss_Status l = ''held'' \<and> ss_HoldExpiresAt l = Some e \<and> (\<exists>b. held e b))
           \<or> ss_Status l = ''available'' \<and> ss_HoldExpiresAt l = None \<and> (\<nexists>b. sold b) \<and> (\<nexists>e b. held e b)))"

definition board_listing :: "collation \<Rightarrow> time \<Rightarrow> string \<Rightarrow> db \<Rightarrow> SeatStatus list \<Rightarrow> bool" where
  "board_listing coll now m d ls \<longleftrightarrow>
     sorted (map (\<lambda>l. (coll (ss_Section l), coll (ss_SeatID l))) ls)
     \<and> (\<exists>ss. mset ss = mset (filter (\<lambda>s. se_match_id s = m) (seats d)) \<and> list_all2 (shows_seat now d) ss ls)"

lemma seat_line_shows:
  assumes "db_inv d"
  shows "shows_seat now d s (seat_line now d s)"
proof -
  let ?k = "(se_match_id s, se_seat_id s)"
  have inv: "schema_inv d" using assms by (simp add: db_inv_def)
  show ?thesis
    using inv
  proof (cases rule: seat_view_cases [where now = now and k = ?k])
    case free
    then show ?thesis by (auto simp: shows_seat_def seat_line_def Let_def live_def expires_after_def)
  next
    case (taken b)
    have "booking_wf b" using assms taken(1) by (simp add: db_inv_def refund_inv_def list_all_iff)
    with taken show ?thesis
      by (auto simp: shows_seat_def seat_line_def Let_def state_of_booking_def live_def booking_wf_def
          expires_after_def expiry_key_def split: option.splits)
  qed
qed

lemma seat_line_simps [simp]: "ss_SeatID (seat_line now d s) = se_seat_id s" "ss_Section (seat_line now d s) = se_section s"
  by (simp_all add: seat_line_def split: prod.split)

lemma seats_listing:
  assumes "db_inv d"
  shows "board_listing coll now m d (map (seat_line now d) (seats_of coll m d))"
  unfolding board_listing_def
proof (intro conjI exI)
  show "sorted (map (\<lambda>l. (coll (ss_Section l), coll (ss_SeatID l))) (map (seat_line now d) (seats_of coll m d)))"
    by (simp add: comp_def) (simp add: seats_of_def)
  show "mset (seats_of coll m d) = mset (filter (\<lambda>s. se_match_id s = m) (seats d))" by (simp add: seats_of_def)
  show "list_all2 (shows_seat now d) (seats_of coll m d) (map (seat_line now d) (seats_of coll m d))"
    by (simp add: list.rel_map list.rel_refl seat_line_shows [OF assms])
qed

lemma ListSeats_board:
  assumes "db_inv d"
  shows "ListSeats NoFault coll now m d = Inr (map (seat_line now d) (seats_of coll m d))"
proof -
  have "concat (map (seat_rows now d) xs) = map (seat_line now d) xs" for xs
    by (induction xs) (simp_all add: seat_rows_line [OF assms])
  then show ?thesis by (simp add: ListSeats_def query_def)
qed


section \<open>Refinement\<close>

lemma not_live_stale: "stale_hold t m s b \<Longrightarrow> t \<le> now \<Longrightarrow> \<not> live now b"
  by (auto simp: stale_hold_def live_def expires_before_def expires_after_def split: option.splits)

lemma not_live_inactive: "\<not> active b \<Longrightarrow> \<not> live now b"
  using live_active by blast

lemma placed_db_live:
  assumes "t = he_tx_now env" and "t \<le> now" and "live now r"
  shows "r \<in> set (bookings (placed_db env m s b ttl key stale d)) \<longleftrightarrow>
           r = placed_row env m s b ttl d \<or> (r \<in> set (bookings d) \<and> \<not> previous_hold m s b r)"
proof -
  have "r \<in> set (hold_rows t m s b (bookings d)) \<longleftrightarrow> r \<in> set (bookings d) \<and> \<not> previous_hold m s b r"
    using hold_rows_active [of t m s b "bookings d"] live_active [OF assms(3)] not_live_stale [OF _ assms(2)] assms(3)
    by auto
  then show ?thesis using assms(1) by (auto simp: placed_db_def)
qed

lemma placed_row_live:
  "live now (placed_row env m s b ttl d) \<longleftrightarrow> now < he_tx_now env + microseconds ttl"
  by (simp add: placed_row_def live_def expires_after_def)

lemma board_after_hold_target:
  assumes "schema_inv (placed_db env m s b ttl key stale d)"
    and "now < he_tx_now env + microseconds ttl" and "he_tx_now env \<le> now"
  shows "seat_view now (placed_db env m s b ttl key stale d) (m, s) = HeldBy b (he_tx_now env + microseconds ttl)"
proof -
  let ?row = "placed_row env m s b ttl d"
  have live: "live now ?row" using assms(2) placed_row_live by blast
  then have "seat_view now (placed_db env m s b ttl key stale d) (seat_key ?row) = state_of_booking ?row"
    using placed_db_live [OF refl assms(3)] by (intro seat_view_live [OF assms(1)]) blast+
  then show ?thesis by (simp add: placed_row_def state_of_booking_def expiry_key_def)
qed

lemma board_after_hold_other:
  assumes inv: "schema_inv d" "schema_inv (placed_db env m s b ttl key stale d)"
    and t: "he_tx_now env \<le> now" and k: "k \<noteq> (m, s)"
  shows "seat_view now (placed_db env m s b ttl key stale d) k =
           (if fst k = m \<and> (\<exists>e'. seat_view now d k = HeldBy b e') then Free else seat_view now d k)"
proof -
  let ?d' = "placed_db env m s b ttl key stale d"
  have mem: "r \<in> set (bookings ?d') \<longleftrightarrow> r \<in> set (bookings d) \<and> \<not> previous_hold m s b r"
    if "live now r" "seat_key r = k" for r
    using placed_db_live [OF refl t that(1)] that(2) k by (auto simp: placed_row_def)
  show ?thesis
    using inv(1)
  proof (cases rule: seat_view_cases [where now = now and k = k])
    case free
    then have "seat_view now ?d' k = Free" using mem by (auto simp: seat_view_Free_iff)
    with free show ?thesis by simp
  next
    case (taken r)
    have prev: "previous_hold m s b r \<longleftrightarrow> fst k = m \<and> (\<exists>e'. seat_view now d k = HeldBy b e')"
      using taken k
      by (auto simp: previous_hold_def state_of_booking_def seat_key_def live_def split: if_splits)
    have unique: "x = r" if "x \<in> set (bookings d)" "live now x" "seat_key x = k" for x
      using active_unique [OF inv(1) that(1) taken(1) live_active [OF that(2)] live_active [OF taken(3)]]
        that(3) taken(2) by simp
    show ?thesis
    proof (cases "previous_hold m s b r")
      case True
      then have "seat_view now ?d' k = Free" using mem unique by (auto simp: seat_view_Free_iff)
      with True prev show ?thesis by simp
    next
      case False
      then have "r \<in> set (bookings ?d')" using mem taken by blast
      then have "seat_view now ?d' k = seat_view now d k" using seat_view_live [OF inv(2)] taken by metis
      with False prev show ?thesis by auto
    qed
  qed
qed

lemma hold_refines_board:
  assumes "schema_inv d" and tx: "hold_tx env m s b ttl key stale d = (Inr row, d')"
    and "he_tx_now env \<le> now" and "now < he_tx_now env + microseconds ttl"
  shows "seat_view now d' = board_hold m s b (he_tx_now env + microseconds ttl) (seat_view now d)"
proof -
  have d': "d' = placed_db env m s b ttl key stale d" using hold_tx_Inr [OF assms(1) tx] by simp
  have "schema_inv (placed_db env m s b ttl key stale d)" using placed_db_inv [OF assms(1) tx] d' by simp
  then show ?thesis
    unfolding d' board_hold_def
    using board_after_hold_target [OF _ assms(4,3)] board_after_hold_other [OF assms(1) _ assms(3)]
    by (intro ext) auto
qed


text \<open>A compare-and-swap on an active booking changes the board at that booking's seat only.\<close>

lemma cas_rows:
  assumes "distinct (map bk_id rows)" and "b \<in> set rows" and "P b"
  shows "r \<in> set (update_where (\<lambda>r. bk_id r = bk_id b \<and> P r) f rows) \<longleftrightarrow> r = f b \<or> (r \<in> set rows \<and> r \<noteq> b)"
proof -
  have "bk_id x = bk_id b \<longleftrightarrow> x = b" if "x \<in> set rows" for x
    using distinct_key_eq [OF assms(1) that assms(2)] by auto
  then show ?thesis using assms(2,3) by (auto simp: set_update_where image_iff)
qed

lemma board_cas:
  assumes inv: "schema_inv d" "schema_inv d'" and b: "b \<in> set (bookings d)" "P b" "active b"
    and rows: "bookings d' = update_where (\<lambda>r. bk_id r = bk_id b \<and> P r) f (bookings d)"
    and key: "seat_key (f b) = seat_key b"
  shows "seat_view now d' =
           (seat_view now d)(seat_key b := (if live now (f b) then state_of_booking (f b) else Free))"
proof
  fix k
  note mem = cas_rows [OF schema_inv_bk_id [OF inv(1)] b(1), where P = P and f = f, OF b(2), folded rows]
  show "seat_view now d' k =
      ((seat_view now d)(seat_key b := (if live now (f b) then state_of_booking (f b) else Free))) k"
  proof (cases "k = seat_key b")
    case True
    have other: "x = b" if "x \<in> set (bookings d)" "live now x" "seat_key x = k" for x
      using active_unique [OF inv(1) that(1) b(1) live_active [OF that(2)] b(3)] that(3) True by simp
    show ?thesis
    proof (cases "live now (f b)")
      case live: True
      then show ?thesis using seat_view_live [OF inv(2), of "f b" now] mem True key by simp
    next
      case False
      then have "seat_view now d' k = Free" using mem other by (auto simp: seat_view_Free_iff)
      with False True show ?thesis by simp
    qed
  next
    case False
    then have "seat_view now d' k = seat_view now d k"
      using mem key by (intro seat_view_eqI inv) auto
    with False show ?thesis by simp
  qed
qed

lemma sweep_refines_board:
  assumes "schema_inv d" and "t \<le> now"
  shows "seat_view now (snd (SweepExpiredHolds f t locked limit d)) = seat_view now d"
proof -
  let ?d' = "snd (SweepExpiredHolds f t locked limit d)"
  have inv': "schema_inv ?d'" using assms(1) obeysD [OF obeys_sweep] by (simp add: schema_step_def)
  have ids: "live now b \<Longrightarrow> b \<in> set (bookings d) \<Longrightarrow> bk_id b \<notin> set (sweep_ids t locked limit (bookings d))" for b
    using swept_expired [OF schema_inv_bk_id [OF assms(1)]] assms(2)
    by (force simp: expired_hold_def live_def expires_before_def expires_after_def split: option.splits)
  have sweep: "b \<in> set (bookings (snd (sql_sweep t locked limit d))) \<longleftrightarrow> b \<in> set (bookings d)" if "live now b" for b
    using that ids [OF that] not_live_inactive [of b] expire_row_simps(5)
    by (auto simp: sql_sweep_snd update_bookings_demotes [OF assms(1)] set_update_where image_iff)
  have "b \<in> set (bookings ?d') \<longleftrightarrow> b \<in> set (bookings d)" if "live now b" for b
    using sweep [OF that] by (auto simp: SweepExpiredHolds_def withFault_def split: fault.splits)
  then show ?thesis using seat_view_eqI [OF assms(1) inv'] by blast
qed

end
