(* ===== verification/StoreSystem.thy ===== *)
theory StoreSystem
  imports Contracts SeatBoard
begin

text \<open>
  The running system: any number of HTTP requests and workers on one database. A step is one
  committed (or failed) call of the store; calls of different requests and workers interleave
  freely. The requests keep nothing between two of their steps that the database depends on; a
  worker keeps the batch it polled, and where in the loop body of \<open>processBatch\<close> it is.
\<close>

section \<open>Reachability\<close>

definition reachable :: "('s \<Rightarrow> bool) \<Rightarrow> ('s \<Rightarrow> 's \<Rightarrow> bool) \<Rightarrow> 's \<Rightarrow> bool" where
  "reachable start step s \<longleftrightarrow> (\<exists>s0. start s0 \<and> step\<^sup>*\<^sup>* s0 s)"

lemma reachable_run: "reachable start step s \<Longrightarrow> step\<^sup>*\<^sup>* s s' \<Longrightarrow> reachable start step s'"
  unfolding reachable_def by (meson rtranclp_trans)

lemma reachable_intros:
  "start s \<Longrightarrow> reachable start step s" "reachable start step s \<Longrightarrow> step s s' \<Longrightarrow> reachable start step s'"
  using reachable_run [OF _ r_into_rtranclp] by (auto simp: reachable_def)

locale invariant =
  fixes start :: "'s \<Rightarrow> bool" and step :: "'s \<Rightarrow> 's \<Rightarrow> bool" and I :: "'s \<Rightarrow> bool"
  assumes start_I: "start s \<Longrightarrow> I s" and step_I: "I s \<Longrightarrow> step s s' \<Longrightarrow> I s'"
begin

lemma run_I: "step\<^sup>*\<^sup>* s s' \<Longrightarrow> I s \<Longrightarrow> I s'"
  by (induction rule: rtranclp_induct) (auto intro: step_I)

lemma reachable_I: "reachable start step s \<Longrightarrow> I s"
  unfolding reachable_def using run_I start_I by blast

end

text \<open>A relation every step obeys relates the two ends of every run.\<close>

locale run_contract = step_contract R for R :: "'d \<Rightarrow> 'd \<Rightarrow> bool" +
  fixes step :: "'s \<Rightarrow> 's \<Rightarrow> bool" and view :: "'s \<Rightarrow> 'd"
  assumes step_R: "step s s' \<Longrightarrow> R (view s) (view s')"
begin

lemma run_R: "step\<^sup>*\<^sup>* s s' \<Longrightarrow> R (view s) (view s')"
  by (induction rule: rtranclp_induct) (auto intro: R_refl R_trans step_R)

end


section \<open>The steps of requests and of maintenance\<close>

inductive client_step :: "db \<Rightarrow> db \<Rightarrow> bool" where
  hold: "client_step d (snd (hold_tx env m s b ttl key stale d))"
| confirm: "client_step d (snd (ConfirmHold f now i b d))"
| release: "client_step d (snd (ReleaseHold f now i b d))"
| cancel: "client_step d (snd (CancelBooking cenv i b d))"
| sweep: "client_step d (snd (SweepExpiredHolds f now locked limit d))"
| prune: "client_step d (snd (PruneIdempotencyKeys f now lockedk old limit d))"

inductive_cases client_stepE: "client_step d d'"


section \<open>The steps of a worker\<close>

datatype worker_pc = Idle | Handling "OutboxEvent list"
  | Marked OutboxEvent "OutboxEvent list" | MarkFailed OutboxEvent "OutboxEvent list"

definition dead_letter :: "OutboxEvent \<Rightarrow> bool" where
  "dead_letter e \<longleftrightarrow> oe_EventType e \<noteq> ''refund_requested'' \<or> decode_refund_id (oe_Payload e) = None"

inductive worker_step :: "db \<times> worker_pc \<Rightarrow> db \<times> worker_pc \<Rightarrow> bool" where
  polled: "PollUnprocessed f now locked n d = (Inr es, d') \<Longrightarrow> worker_step (d, Idle) (d', Handling es)"
| poll_failed: "PollUnprocessed f now locked n d = (Inl err, d') \<Longrightarrow> worker_step (d, Idle) (d', Idle)"
| dead: "dead_letter e \<Longrightarrow>
     worker_step (d, Handling (e # es)) (snd (MarkProcessed f now (oe_ID e) d), Handling es)"
| refunded: "\<not> dead_letter e \<Longrightarrow> decode_refund_id (oe_Payload e) = Some i \<Longrightarrow>
     MarkRefundStatus f now i ''refunded'' ref d = (Inr u, d') \<Longrightarrow>
     worker_step (d, Handling (e # es)) (d', Marked e es)"
| refund_failed: "\<not> dead_letter e \<Longrightarrow> decode_refund_id (oe_Payload e) = Some i \<Longrightarrow>
     MarkRefundStatus f now i ''refunded'' ref d = (Inl err, d') \<Longrightarrow>
     worker_step (d, Handling (e # es)) (d', MarkFailed e es)"
| processed: "worker_step (d, Marked e es) (snd (MarkProcessed f now (oe_ID e) d), Handling es)"
| released: "worker_step (d, MarkFailed e es) (snd (ReleaseClaim f (oe_ID e) d), Handling es)"
| batch_end: "worker_step (d, Handling []) (d, Idle)"
| crash: "worker_step (d, pc) (d, Idle)"

inductive_cases worker_stepE: "worker_step (d, pc) (d', pc')"


section \<open>The system\<close>

type_synonym system = "db \<times> (nat \<Rightarrow> worker_pc)"

inductive sys_step :: "system \<Rightarrow> system \<Rightarrow> bool" where
  request: "client_step d d' \<Longrightarrow> sys_step (d, ws) (d', ws)"
| work: "worker_step (d, ws w) (d', pc') \<Longrightarrow> sys_step (d, ws) (d', ws(w := pc'))"

inductive_cases sys_stepE: "sys_step s s'"

definition empty_tables :: "db \<Rightarrow> bool" where
  "empty_tables d \<longleftrightarrow>
     bookings d = [] \<and> refunds d = [] \<and> outbox_events d = [] \<and> idempotency_keys d = []
     \<and> bookings_id_seq d = 1 \<and> refunds_id_seq d = 1 \<and> outbox_events_id_seq d = 1 \<and> inventory_ok d"

definition sys_start :: "system \<Rightarrow> bool" where
  "sys_start s \<longleftrightarrow> empty_tables (fst s) \<and> (\<forall>w. snd s w = Idle)"

text \<open>What a worker in the middle of its batch may rely on while the others run.\<close>

definition settled_id :: "db \<Rightarrow> int \<Rightarrow> bool" where
  "settled_id d i \<longleftrightarrow> i \<in> set (map rf_id (settled d))"

fun pc_ok :: "db \<Rightarrow> worker_pc \<Rightarrow> bool" where
  "pc_ok d Idle = True"
| "pc_ok d (Handling es) = (\<forall>e \<in> set es. from_row d e)"
| "pc_ok d (Marked e es) =
     ((\<forall>x \<in> set (e # es). from_row d x)
      \<and> (case decode_refund_id (oe_Payload e) of None \<Rightarrow> False | Some i \<Rightarrow> settled_id d i))"
| "pc_ok d (MarkFailed e es) = (\<forall>x \<in> set (e # es). from_row d x)"

definition sys_inv :: "system \<Rightarrow> bool" where
  "sys_inv s \<longleftrightarrow> db_inv (fst s) \<and> (\<forall>w. pc_ok (fst s) (snd s w))"

lemma from_row_progress: "refund_progress d d' \<Longrightarrow> from_row d e \<Longrightarrow> from_row d' e"
  by (auto simp: refund_progress_def from_row_event_ids)

lemma settled_id_progress: "refund_progress d d' \<Longrightarrow> settled_id d i \<Longrightarrow> settled_id d' i"
  unfolding refund_progress_def settled_id_def set_map by blast

lemma pc_ok_progress:
  assumes p: "refund_progress d d'" and ok: "pc_ok d pc"
  shows "pc_ok d' pc"
proof (cases pc)
  case (Handling es)
  then show ?thesis using ok from_row_progress [OF p] by simp
next
  case (Marked e es)
  then show ?thesis
    using ok from_row_progress [OF p] settled_id_progress [OF p] by (simp split: option.split_asm)
next
  case (MarkFailed e es)
  then show ?thesis using ok from_row_progress [OF p] by simp
qed simp

lemma settled_refund_done:
  assumes inv: "db_inv d" and "settled_id d i" and "decode_refund_id (ob_payload row) = Some i"
    and "row \<in> set (outbox_events d)"
  shows "refund_done (refunds d) row"
proof -
  obtain r where r: "r \<in> set (refunds d)" "ob_event_type row = ''refund_requested''"
      "ob_payload row = refund_payload (rf_id r)" "decode_refund_id (ob_payload row) = Some (rf_id r)"
    using polled_event_decodes [OF inv assms(4)] .
  then have p: "ob_payload row = refund_payload i" using assms(3) by simp
  obtain x where x: "x \<in> set (refunds d)" "rf_id x = i" "rf_status x \<noteq> Pending"
    using assms(2) by (auto simp: settled_id_def settled_def)
  have "distinct (map rf_id (refunds d))" using inv by (simp add: db_inv_def schema_inv_def)
  then have "y = x" if "y \<in> set (refunds d)" "rf_id y = i" for y
    using distinct_key_eq [of rf_id "refunds d" y x] x(1,2) that by simp
  then show ?thesis using p x(3) unfolding refund_done_def list_all_iff by fastforce
qed


section \<open>The store's contract along the steps\<close>

text \<open>Every relation the store's contract covers is obeyed by every step, and so by every run.\<close>

context store_contract
begin

lemma R_client_step: "client_step d d' \<Longrightarrow> R d d'"
  by (auto elim!: client_stepE intro: obeysD obeys_hold_tx obeys_ConfirmHold obeys_ReleaseHold
      obeys_CancelBooking obeys_SweepExpiredHolds obeys_PruneIdempotencyKeys)

lemma R_worker_step: "worker_step s s' \<Longrightarrow> R (fst s) (fst s')"
proof (induction rule: worker_step.induct)
  case (polled f now locked n d es d')
  then show ?case using obeys_eqD [OF obeys_PollUnprocessed] by simp
next
  case (poll_failed f now locked n d err d')
  then show ?case using obeys_eqD [OF obeys_PollUnprocessed] by simp
next
  case (refunded e i f now ref d u d' es)
  show ?case using obeys_eqD [OF obeys_MarkRefundStatus refunded(3)] by simp
next
  case (refund_failed e i f now ref d err d' es)
  show ?case using obeys_eqD [OF obeys_MarkRefundStatus refund_failed(3)] by simp
qed (simp_all add: R_refl obeysD [OF obeys_MarkProcessed] obeysD [OF obeys_ReleaseClaim])

lemma R_sys_step: "sys_step s s' \<Longrightarrow> R (fst s) (fst s')"
  by (induction rule: sys_step.induct) (use R_client_step R_worker_step in fastforce)+

end


section \<open>Every step keeps the invariant\<close>

lemma client_step_db_inv: "client_step d d' \<Longrightarrow> db_inv d \<Longrightarrow> db_inv d'"
proof (induction rule: client_step.induct)
  case (hold d env m s b ttl key stale)
  then show ?case
    using obeysD [OF hold_schema.obeys_hold_tx] obeysD [OF hold_refund.obeys_hold_tx]
    unfolding db_inv_def schema_step_def by blast
next
  case (confirm d f now i b)
  then show ?case
    using obeysD [OF hold_schema.obeys_ConfirmHold] obeysD [OF hold_refund.obeys_ConfirmHold]
    unfolding db_inv_def schema_step_def by blast
next
  case (release d f now i b)
  then show ?case
    using obeysD [OF hold_schema.obeys_ReleaseHold] obeysD [OF hold_refund.obeys_ReleaseHold]
    unfolding db_inv_def schema_step_def by blast
next
  case (cancel d cenv i b)
  then show ?case by (rule CancelBooking_db_inv)
next
  case (sweep d f now locked limit)
  then show ?case
    using obeysD [OF obeys_sweep] sweep_refund_inv unfolding db_inv_def schema_step_def by blast
next
  case (prune d f now lockedk old limit)
  then show ?case
    using obeysD [OF obeys_prune] obeysD [OF obeys_refund_prune]
    unfolding db_inv_def schema_step_def by blast
qed

lemma dead_letter_not_polled:
  assumes "db_inv d" and "from_row d e"
  shows "\<not> dead_letter e"
proof -
  obtain row where row: "row \<in> set (outbox_events d)" "e = outbox_event_of row"
    using assms(2) unfolding from_row_def by blast
  obtain r where r: "r \<in> set (refunds d)" "ob_event_type row = ''refund_requested''"
      "ob_payload row = refund_payload (rf_id r)" "decode_refund_id (ob_payload row) = Some (rf_id r)"
    using polled_event_decodes [OF assms(1) row(1)] .
  then show ?thesis using row(2) by (simp add: dead_letter_def outbox_event_of_def)
qed

lemma Marked_processed_db_inv:
  assumes inv: "db_inv d" and ok: "pc_ok d (Marked e es)"
  shows "db_inv (snd (MarkProcessed f now (oe_ID e) d))"
proof -
  obtain row where row: "row \<in> set (outbox_events d)" "e = outbox_event_of row"
    using ok by (auto simp: from_row_def)
  then have "refund_done (refunds d) row"
    using ok settled_refund_done [OF inv _ _ row(1)]
    by (auto simp: outbox_event_of_def split: option.splits)
  then show ?thesis
    using MarkProcessed_db_inv [OF inv row(1)] row(2) by (simp add: outbox_event_of_def)
qed

lemma worker_step_db_inv:
  "worker_step s s' \<Longrightarrow> db_inv (fst s) \<Longrightarrow> pc_ok (fst s) (snd s) \<Longrightarrow> db_inv (fst s')"
proof (induction rule: worker_step.induct)
  case (polled f now locked n d es d')
  then show ?case
    using obeys_eqD [OF obeys_outbox(1)] obeys_eqD [OF obeys_refund_outbox(1)]
    unfolding db_inv_def schema_step_def fst_conv by blast
next
  case (poll_failed f now locked n d err d')
  then show ?case
    using obeys_eqD [OF obeys_outbox(1)] obeys_eqD [OF obeys_refund_outbox(1)]
    unfolding db_inv_def schema_step_def fst_conv by blast
next
  case (dead e d es f now)
  then show ?case using dead_letter_not_polled by simp
next
  case (refunded e i f now ref d u d' es)
  then show ?case using MarkRefundStatus_db_inv by simp
next
  case (refund_failed e i f now ref d err d' es)
  then show ?case using MarkRefundStatus_db_inv by simp
next
  case (processed d e es f now)
  then show ?case using Marked_processed_db_inv by simp
next
  case (released d e es f)
  then show ?case using ReleaseClaim_db_inv by simp
qed simp_all

lemma mark_refund_settles:
  assumes inv: "db_inv d" and row: "from_row d e" and i: "decode_refund_id (oe_Payload e) = Some i"
    and m: "MarkRefundStatus f now i ''refunded'' ref d = (Inr u, d')"
  shows "settled_id d' i"
proof -
  obtain ev where ev: "ev \<in> set (outbox_events d)" "e = outbox_event_of ev"
    using row unfolding from_row_def by blast
  obtain r where r: "r \<in> set (refunds d)" "ob_event_type ev = ''refund_requested''"
      "ob_payload ev = refund_payload (rf_id r)" "decode_refund_id (ob_payload ev) = Some (rf_id r)"
    using polled_event_decodes [OF inv ev(1)] .
  then have "rf_id r = i" using i ev(2) by (simp add: outbox_event_of_def)
  have "map rf_id (refunds d') = map rf_id (refunds d)"
    using m unfolding MarkRefundStatus_Inr by (auto intro!: map_update_where simp: refunded_row_def)
  then obtain x where "x \<in> set (refunds d')" "rf_id x = i"
    using r(1) \<open>rf_id r = i\<close> by (metis (no_types, opaque_lifting) imageE image_eqI list.set_map)
  then show ?thesis
    using mark_refund_done(1) [OF m] by (auto simp: settled_id_def settled_def)
qed

lemma worker_step_pc_ok:
  "worker_step s s' \<Longrightarrow> db_inv (fst s) \<Longrightarrow> pc_ok (fst s) (snd s) \<Longrightarrow> pc_ok (fst s') (snd s')"
proof (induction rule: worker_step.induct)
  case (polled f now locked n d es d')
  have "same_events d d'" using obeys_eqD [OF events.obeys_PollUnprocessed polled(1)] .
  then show ?case using polled_from_row [OF polled(1)] same_events_from_row by simp
next
  case (dead e d es f now)
  then show ?case
    using pc_ok_progress [OF obeysD [OF progress.obeys_MarkProcessed], of d "Handling es"] by simp
next
  case (refunded e i f now ref d u d' es)
  have "refund_progress d d'" using obeys_eqD [OF progress.obeys_MarkRefundStatus refunded(3)] by simp
  then have "\<forall>x \<in> set (e # es). from_row d' x" using refunded.prems from_row_progress by auto
  moreover have "settled_id d' i" using mark_refund_settles [OF _ _ refunded(2,3)] refunded.prems by simp
  ultimately show ?case using refunded(2) by simp
next
  case (refund_failed e i f now ref d err d' es)
  have "refund_progress d d'" using obeys_eqD [OF progress.obeys_MarkRefundStatus refund_failed(3)] by simp
  then show ?case using refund_failed.prems pc_ok_progress [of d d' "Handling (e # es)"] by simp
next
  case (processed d e es f now)
  then show ?case
    using pc_ok_progress [OF obeysD [OF progress.obeys_MarkProcessed], of d "Handling es"] by simp
next
  case (released d e es f)
  then show ?case
    using pc_ok_progress [OF obeysD [OF progress.obeys_ReleaseClaim], of d "Handling es"] by simp
qed simp_all


interpretation sys: invariant sys_start sys_step sys_inv
proof unfold_locales
  fix s :: system assume "sys_start s"
  then show "sys_inv s"
    by (auto simp: sys_start_def sys_inv_def empty_tables_def db_inv_def schema_inv_def refund_inv_def
        bookings_ok_def in_sequence_def max_int64_def)
next
  fix s s' :: system assume inv: "sys_inv s" and "sys_step s s'"
  from this(2) show "sys_inv s'"
  proof (cases rule: sys_step.cases)
    case (request d d' ws)
    then have "refund_progress d d'" using progress.R_client_step by simp
    then show ?thesis
      using inv request client_step_db_inv pc_ok_progress by (auto simp: sys_inv_def)
  next
    case (work d ws w d' pc')
    have "refund_progress d d'" using progress.R_worker_step [OF work(3)] by simp
    moreover have "db_inv d'" "pc_ok d' pc'"
      using worker_step_db_inv [OF work(3)] worker_step_pc_ok [OF work(3)] inv work(1) by (auto simp: sys_inv_def)
    ultimately show ?thesis using inv work(1,2) pc_ok_progress by (auto simp: sys_inv_def)
  qed
qed


section \<open>What every run obeys\<close>

interpretation life_run: run_contract lifecycle sys_step fst
  by unfold_locales (rule life.R_sys_step)

interpretation progress_run: run_contract refund_progress sys_step fst
  by unfold_locales (rule progress.R_sys_step)


section \<open>The sequential code runs these steps\<close>

text \<open>
  \<open>placeHold\<close> is a run of the system when what happens in between is, and \<open>processBatch\<close> takes
  an idle worker through its batch back to idle.
\<close>

definition client_run :: "db \<Rightarrow> db \<Rightarrow> bool" where
  "client_run d d' \<longleftrightarrow> client_step\<^sup>*\<^sup>* d d'"

lemma client_run_intros:
  "client_run d d" "client_run a b \<Longrightarrow> client_run b c \<Longrightarrow> client_run a c" "client_step a b \<Longrightarrow> client_run a b"
  by (auto simp: client_run_def)

lemma hold_attempt_runs:
  assumes "env_obeys client_run env"
  shows "client_run d (snd (hold_attempt env m s b ttl key stale d))"
proof -
  let ?tx = "hold_tx env m s b ttl key stale (he_before_tx env d)"
  have 1: "client_run d (snd ?tx)"
    using assms client_run_intros(2) client_run_intros(3) [OF client_step.hold]
    unfolding env_obeys_def by blast
  have 2: "client_run d (he_before_replay env (snd ?tx))"
    using 1 assms client_run_intros(2) unfolding env_obeys_def by blast
  show ?thesis
    using 1 2 by (simp add: hold_attempt_def split_beta Let_def split: sum.split hold_failure.split)
qed

lemma placeHold_runs: "env_obeys client_run env \<Longrightarrow> client_run d (snd (placeHold env m s b ttl key d))"
  using hold_attempt_runs client_run_intros(1)
  by (simp add: placeHold_def split_beta split: sum.split prod.split)

lemma processEvent_runs:
  "worker_step\<^sup>*\<^sup>* (d, Handling (e # es)) (processEvent env e d, Handling es)"
proof (cases "dead_letter e")
  case True
  then have "processEvent env e d =
      snd (MarkProcessed (we_fault env (WDeadLetter (oe_ID e))) (we_now env (WDeadLetter (oe_ID e))) (oe_ID e) d)"
    by (auto simp: processEvent_def Let_def dead_letter_def)
  then show ?thesis using worker_step.dead [OF True] by (simp add: r_into_rtranclp)
next
  case False
  then obtain i where i: "decode_refund_id (oe_Payload e) = Some i" "oe_EventType e = ''refund_requested''"
    by (auto simp: dead_letter_def)
  obtain r d' where m: "MarkRefundStatus (we_fault env (WMarkRefund (oe_ID e))) (we_now env (WMarkRefund (oe_ID e))) i
      ''refunded'' (stubbedGatewayRefund (we_nano env (oe_ID e)) i) d = (r, d')"
    by (meson surj_pair)
  show ?thesis
  proof (cases r)
    case (Inl err)
    then show ?thesis
      using worker_step.refund_failed [OF False i(1) m [unfolded Inl]] worker_step.released i m
      by (simp add: processEvent_def Let_def) (meson converse_rtranclp_into_rtranclp r_into_rtranclp)
  next
    case (Inr u)
    then show ?thesis
      using worker_step.refunded [OF False i(1) m [unfolded Inr]] worker_step.processed i m
      by (simp add: processEvent_def Let_def) (meson converse_rtranclp_into_rtranclp r_into_rtranclp)
  qed
qed

lemma processEvents_run: "worker_step\<^sup>*\<^sup>* (d, Handling es) (forEachA (processEvent env) es d, Idle)"
proof (induction es arbitrary: d)
  case Nil
  then show ?case using worker_step.batch_end by (simp add: r_into_rtranclp)
next
  case (Cons e es)
  show ?case unfolding forEachA.simps by (rule rtranclp_trans [OF processEvent_runs Cons.IH])
qed

lemma processBatch_runs: "worker_step\<^sup>*\<^sup>* (d, Idle) (processBatch env n d, Idle)"
proof -
  obtain r d' where p: "PollUnprocessed (we_fault env WPoll) (we_db_now env WPoll) (we_locked env WPoll) n d = (r, d')"
    by (meson surj_pair)
  show ?thesis
  proof (cases r)
    case (Inl err)
    then have "worker_step (d, Idle) (processBatch env n d, Idle)"
      using p worker_step.poll_failed by (simp add: processBatch_def)
    then show ?thesis by (rule r_into_rtranclp)
  next
    case (Inr es)
    then have "worker_step (d, Idle) (d', Handling es)" using p worker_step.polled by simp
    moreover have "processBatch env n d = forEachA (processEvent env) es d'"
      using p Inr by (simp add: processBatch_def)
    ultimately show ?thesis
      using converse_rtranclp_into_rtranclp [OF _ processEvents_run] by simp
  qed
qed

lemma client_run_sys: "client_run d d' \<Longrightarrow> sys_step\<^sup>*\<^sup>* (d, ws) (d', ws)"
  unfolding client_run_def
proof (induction rule: rtranclp_induct)
  case (step y z)
  then show ?case using sys_step.request rtranclp.rtrancl_into_rtrancl by metis
qed simp

lemma worker_run_sys:
  assumes "worker_step\<^sup>*\<^sup>* s s'" and "ws w = snd s"
  shows "sys_step\<^sup>*\<^sup>* (fst s, ws) (fst s', ws(w := snd s'))"
  using assms
proof (induction rule: rtranclp_induct)
  case base
  then show ?case by (metis fun_upd_triv rtranclp.rtrancl_refl)
next
  case (step y z)
  have "sys_step (fst y, ws(w := snd y)) (fst z, (ws(w := snd y))(w := snd z))"
    by (rule sys_step.work) (use step.hyps(2) in simp)
  then have "sys_step (fst y, ws(w := snd y)) (fst z, ws(w := snd z))" by (simp only: fun_upd_upd)
  with step.IH [OF step.prems] show ?case by (rule rtranclp.rtrancl_into_rtrancl)
qed

end
