(* ===== verification/History.thy ===== *)
theory History
  imports SeatBoard
begin

text \<open>
  The buyer's booking history, \<open>ListBookings\<close> of \<open>internal/store/bookings.go\<close>: the completed
  bookings of one buyer in one match, newest first, each with the status of its latest refund.
\<close>

section \<open>ListBookings\<close>

record BookingSummaryRow =
  sr_ID :: int
  sr_MatchID :: string
  sr_SeatID :: string
  sr_Status :: string
  sr_ConfirmedAt :: "time option"
  sr_CancelledAt :: "time option"
  sr_RefundStatus :: "string option"

text \<open>The lateral join: \<open>ORDER BY r.requested_at DESC, r.id DESC LIMIT 1\<close>.\<close>

definition latest_refund :: "int \<Rightarrow> db \<Rightarrow> refunds_row option" where
  "latest_refund bookingID d =
     (case sort_key (\<lambda>r. (- rf_requested_at r, - rf_id r)) (filter (\<lambda>r. rf_booking_id r = bookingID) (refunds d)) of
        [] \<Rightarrow> None
      | r # _ \<Rightarrow> Some r)"

definition completed :: "string \<Rightarrow> string \<Rightarrow> bookings_row \<Rightarrow> bool" where
  "completed matchID buyerID b \<longleftrightarrow>
     bk_match_id b = matchID \<and> bk_buyer_id b = buyerID
     \<and> (bk_status b = Confirmed \<or> (bk_status b = Cancelled \<and> bk_confirmed_at b \<noteq> None))"

text \<open>\<open>COALESCE(b.cancelled_at, b.confirmed_at) DESC, b.id DESC\<close>; NULL sorts first in descending order.\<close>

definition completed_at :: "bookings_row \<Rightarrow> time option" where
  "completed_at b = (case bk_cancelled_at b of Some t \<Rightarrow> Some t | None \<Rightarrow> bk_confirmed_at b)"

definition history_key :: "bookings_row \<Rightarrow> int \<times> int \<times> int" where
  "history_key b = (case completed_at b of None \<Rightarrow> (0, 0, - bk_id b) | Some t \<Rightarrow> (1, - t, - bk_id b))"

definition summary_of :: "db \<Rightarrow> bookings_row \<Rightarrow> BookingSummaryRow" where
  "summary_of d b =
     \<lparr>sr_ID = bk_id b, sr_MatchID = bk_match_id b, sr_SeatID = bk_seat_id b,
      sr_Status = status_text (bk_status b), sr_ConfirmedAt = bk_confirmed_at b,
      sr_CancelledAt = bk_cancelled_at b,
      sr_RefundStatus = map_option (\<lambda>r. rstatus_text (rf_status r)) (latest_refund (bk_id b) d)\<rparr>"

definition ListBookings :: "fault \<Rightarrow> string \<Rightarrow> string \<Rightarrow> db \<Rightarrow> go_error + BookingSummaryRow list" where
  "ListBookings f matchID buyerID d =
     (case query f (\<lambda>d. map (summary_of d) (sort_key history_key (filter (completed matchID buyerID) (bookings d)))) d of
        Inl err \<Rightarrow> Inl (Wrap ''list bookings'' err)
      | Inr rows \<Rightarrow> Inr rows)"


section \<open>Refunds of a booking\<close>

lemma refund_inv_bookings:
  "refund_inv d \<Longrightarrow> rf_booking_id ` set (refunds d) = bk_id ` {b \<in> set (bookings d). sold_cancelled b}"
  using mset_eq_setD [of "map rf_booking_id (refunds d)" "map bk_id (filter sold_cancelled (bookings d))"]
  unfolding refund_inv_parts by simp

lemma db_inv_distinct_refunds:
  assumes "db_inv d"
  shows "distinct (map rf_booking_id (refunds d))"
proof -
  have "distinct (map bk_id (filter sold_cancelled (bookings d)))"
    using assms by (simp add: db_inv_def schema_inv_bk_id distinct_map_filter)
  moreover have "mset (map rf_booking_id (refunds d)) = mset (map bk_id (filter sold_cancelled (bookings d)))"
    using assms unfolding db_inv_def refund_inv_parts by blast
  ultimately show ?thesis using mset_eq_imp_distinct_iff by blast
qed

text \<open>The sold and cancelled bookings are the ones with a refund, and each has exactly one.\<close>

lemma booking_refund_iff:
  assumes "db_inv d" and "b \<in> set (bookings d)"
  shows "sold_cancelled b \<longleftrightarrow> (\<exists>r \<in> set (refunds d). rf_booking_id r = bk_id b)"
proof
  assume "sold_cancelled b"
  then have "bk_id b \<in> rf_booking_id ` set (refunds d)"
    using assms refund_inv_bookings [of d] by (auto simp: db_inv_def)
  then show "\<exists>r \<in> set (refunds d). rf_booking_id r = bk_id b" by auto
next
  assume "\<exists>r \<in> set (refunds d). rf_booking_id r = bk_id b"
  then have "bk_id b \<in> rf_booking_id ` set (refunds d)" by (metis imageI)
  then have "bk_id b \<in> bk_id ` {x \<in> set (bookings d). sold_cancelled x}"
    using assms refund_inv_bookings [of d] by (simp add: db_inv_def)
  then obtain x where "x \<in> set (bookings d)" "sold_cancelled x" "bk_id x = bk_id b" by auto
  then show "sold_cancelled b"
    using distinct_key_eq [of bk_id "bookings d" x b] assms by (auto simp: db_inv_def schema_inv_bk_id)
qed

lemma latest_refund_None: "latest_refund i d = None \<longleftrightarrow> (\<forall>r \<in> set (refunds d). rf_booking_id r \<noteq> i)"
proof -
  let ?l = "sort_key (\<lambda>r. (- rf_requested_at r, - rf_id r)) (filter (\<lambda>r. rf_booking_id r = i) (refunds d))"
  have "latest_refund i d = None \<longleftrightarrow> ?l = []" unfolding latest_refund_def by (simp split: list.splits)
  also have "\<dots> \<longleftrightarrow> length ?l = 0" by (rule length_0_conv [symmetric])
  also have "\<dots> \<longleftrightarrow> filter (\<lambda>r. rf_booking_id r = i) (refunds d) = []" by simp
  finally show ?thesis by (simp add: filter_empty_conv)
qed

lemma latest_refund_unique:
  assumes "db_inv d" and "r \<in> set (refunds d)"
  shows "latest_refund (rf_booking_id r) d = Some r"
  using filter_key_singleton [OF db_inv_distinct_refunds [OF assms(1)] assms(2)]
  by (simp add: latest_refund_def)

lemma refund_status_shown:
  assumes "db_inv d" and "b \<in> set (bookings d)"
  shows "sr_RefundStatus (summary_of d b) = None \<longleftrightarrow> \<not> sold_cancelled b"
  using booking_refund_iff [OF assms] by (auto simp: summary_of_def latest_refund_None)

end
