(* ===== verification/Fixture.thy ===== *)
theory Fixture
  imports StoreSystem History
begin

text \<open>
  A small database on which the properties are applied: one match, four seats, a live hold (alice on
  A1), a sold seat (bob on A2), a hold past its expiry (carol on A3), and a booking of A3 that dave
  bought and cancelled, with its refund pending and its outbox event waiting. The instant of the
  examples is 200. The theory ends with a run of the system from the empty tables.
\<close>

definition demo_booking ::
  "int \<Rightarrow> string \<Rightarrow> string \<Rightarrow> bstatus \<Rightarrow> time option \<Rightarrow> time option \<Rightarrow> time option \<Rightarrow> bookings_row"
where
  "demo_booking i s b st e c x =
     \<lparr>bk_id = i, bk_match_id = ''M1'', bk_seat_id = s, bk_buyer_id = b, bk_status = st,
      bk_hold_expires_at = e, bk_confirmed_at = c, bk_cancelled_at = x, bk_created_at = 0\<rparr>"

definition demo_seat :: "string \<Rightarrow> seats_row" where
  "demo_seat s = \<lparr>se_match_id = ''M1'', se_seat_id = s, se_section = ''North''\<rparr>"

definition empty_db :: db where
  "empty_db =
     \<lparr>seats = map demo_seat [''A1'', ''A2'', ''A3'', ''A4''],
      matches = [\<lparr>ma_id = ''M1'', ma_name = ''Final'', ma_start_time = 1000000\<rparr>],
      bookings = [], refunds = [], outbox_events = [], idempotency_keys = [],
      bookings_id_seq = 1, refunds_id_seq = 1, outbox_events_id_seq = 1\<rparr>"

definition alice_hold :: bookings_row where
  "alice_hold = demo_booking 1 ''A1'' ''alice'' Held (Some 500) None None"

definition bob_sold :: bookings_row where
  "bob_sold = demo_booking 2 ''A2'' ''bob'' Confirmed None (Some 100) None"

definition carol_stale :: bookings_row where
  "carol_stale = demo_booking 3 ''A3'' ''carol'' Held (Some 150) None None"

definition dave_cancelled :: bookings_row where
  "dave_cancelled = demo_booking 4 ''A3'' ''dave'' Cancelled None (Some 10) (Some 20)"

definition demo_refund :: refunds_row where
  "demo_refund = \<lparr>rf_id = 1, rf_booking_id = 4, rf_status = Pending, rf_requested_at = 20,
                  rf_completed_at = None, rf_external_ref = None\<rparr>"

definition demo_event :: outbox_events_row where
  "demo_event = \<lparr>ob_id = 1, ob_event_type = ''refund_requested'', ob_booking_id = 4,
                 ob_payload = refund_payload 1, ob_created_at = 20, ob_processed_at = None,
                 ob_claimed_at = None\<rparr>"

definition demo_db :: db where
  "demo_db = empty_db
     \<lparr>bookings := [alice_hold, bob_sold, carol_stale, dave_cancelled],
      refunds := [demo_refund], outbox_events := [demo_event],
      idempotency_keys := [\<lparr>ik_key = ''k1'', ik_booking_id = 1, ik_created_at = 0\<rparr>,
                           \<lparr>ik_key = ''k3'', ik_booking_id = 3, ik_created_at = 0\<rparr>],
      bookings_id_seq := 5, refunds_id_seq := 2, outbox_events_id_seq := 2\<rparr>"

text \<open>An environment without faults and with nothing in between, at the instant \<open>t\<close>.\<close>

definition demo_env :: "time \<Rightarrow> hold_env" where
  "demo_env t = \<lparr>he_lookup_now = t, he_before_tx = (\<lambda>d. d), he_tx_now = t, he_before_replay = (\<lambda>d. d),
                 he_replay_now = t, he_fault = (\<lambda>_. NoFault)\<rparr>"

definition demo_cancel :: "time \<Rightarrow> cancel_env" where
  "demo_cancel t = \<lparr>ce_now = t, ce_fault = (\<lambda>_. NoFault)\<rparr>"

definition demo_worker :: "time \<Rightarrow> worker_env" where
  "demo_worker t = \<lparr>we_db_now = (\<lambda>_. t), we_locked = (\<lambda>_ _. False), we_locked_key = (\<lambda>_. False),
                    we_now = (\<lambda>_. t), we_nano = (\<lambda>_. 7), we_fault = (\<lambda>_. NoFault)\<rparr>"

lemmas demo_defs = demo_db_def empty_db_def alice_hold_def bob_sold_def carol_stale_def dave_cancelled_def
  demo_refund_def demo_event_def demo_booking_def demo_seat_def

lemma demo_env_simps [simp]:
  "alone (demo_env t)" "tx_fault_free (demo_env t)"
  "he_tx_now (demo_env t) = t" "he_lookup_now (demo_env t) = t" "he_replay_now (demo_env t) = t"
  "he_fault (demo_env t) site = NoFault" "he_before_tx (demo_env t) d = d"
  "he_before_replay (demo_env t) d = d"
  by (simp_all add: demo_env_def alone_def tx_fault_free_def)

lemma demo_schema_inv [simp]: "schema_inv demo_db"
  by (simp add: schema_inv_def demo_defs inventory_ok_def bookings_ok_def row_defs in_sequence_def max_int64_def)

lemma demo_refund_inv [simp]: "refund_inv demo_db"
  by (simp add: refund_inv_def demo_defs booking_wf_def refund_wf_def sold_cancelled_def event_content_def
      event_of_refund_def)

lemma demo_db_inv [simp]: "db_inv demo_db"
  by (simp add: db_inv_def)

lemma empty_db_tables [simp]: "empty_tables empty_db"
  by (simp add: empty_tables_def empty_db_def inventory_ok_def demo_seat_def)

lemma demo_tables:
  "bookings demo_db = [alice_hold, bob_sold, carol_stale, dave_cancelled]"
  "refunds demo_db = [demo_refund]" "outbox_events demo_db = [demo_event]"
  "idempotency_keys demo_db = [\<lparr>ik_key = ''k1'', ik_booking_id = 1, ik_created_at = 0\<rparr>,
                               \<lparr>ik_key = ''k3'', ik_booking_id = 3, ik_created_at = 0\<rparr>]"
  "bookings_id_seq demo_db = 5" "refunds_id_seq demo_db = 2" "outbox_events_id_seq demo_db = 2"
  "matches demo_db = [\<lparr>ma_id = ''M1'', ma_name = ''Final'', ma_start_time = 1000000\<rparr>]"
  "seats demo_db = map demo_seat [''A1'', ''A2'', ''A3'', ''A4'']"
  by (simp_all add: demo_db_def empty_db_def)

lemmas demo_rows = alice_hold_def bob_sold_def carol_stale_def dave_cancelled_def demo_refund_def demo_event_def
  demo_booking_def

text \<open>A run from the empty tables: alice holds A1, confirms it and cancels it.\<close>

definition demo_held :: db where
  "demo_held = snd (hold_tx (demo_env 100) ''M1'' ''A1'' ''alice'' 300000 '''' 0 empty_db)"

definition demo_bought :: db where
  "demo_bought = snd (ConfirmHold NoFault 200 1 ''alice'' demo_held)"

definition demo_returned :: db where
  "demo_returned = snd (CancelBooking (demo_cancel 300) 1 ''alice'' demo_bought)"

definition all_idle :: "nat \<Rightarrow> worker_pc" where
  "all_idle = (\<lambda>_. Idle)"

lemma demo_run:
  "reachable sys_start sys_step (demo_held, all_idle)"
  "sys_step\<^sup>*\<^sup>* (demo_held, all_idle) (demo_bought, all_idle)"
  "sys_step\<^sup>*\<^sup>* (demo_bought, all_idle) (demo_returned, all_idle)"
  "reachable sys_start sys_step (demo_returned, all_idle)"
proof -
  have start: "sys_start (empty_db, all_idle)" by (simp add: sys_start_def all_idle_def)
  have 1: "sys_step\<^sup>*\<^sup>* (empty_db, all_idle) (demo_held, all_idle)"
    unfolding demo_held_def by (intro r_into_rtranclp sys_step.request client_step.hold)
  show 2: "sys_step\<^sup>*\<^sup>* (demo_held, all_idle) (demo_bought, all_idle)"
    unfolding demo_bought_def by (intro r_into_rtranclp sys_step.request client_step.confirm)
  show 3: "sys_step\<^sup>*\<^sup>* (demo_bought, all_idle) (demo_returned, all_idle)"
    unfolding demo_returned_def by (intro r_into_rtranclp sys_step.request client_step.cancel)
  show "reachable sys_start sys_step (demo_held, all_idle)" using start 1 unfolding reachable_def by blast
  have "sys_step\<^sup>*\<^sup>* (empty_db, all_idle) (demo_returned, all_idle)" using 1 2 3 by (meson rtranclp_trans)
  then show "reachable sys_start sys_step (demo_returned, all_idle)" using start unfolding reachable_def by blast
qed

end
