(* ===== verification/HoldProperties.thy ===== *)
theory HoldProperties
  imports Fixture
begin

text \<open>
  The properties of placing, confirming and releasing a hold (\<open>internal/store/holds.go\<close>), each with
  an application to the small database of \<open>Fixture\<close>.
\<close>

section \<open>PlaceHold\<close>

text \<open>C4: PlaceHold grants a seat exactly when no sold booking and no hold that has not passed its
  expiry occupies it. When it grants, the tables afterwards are exactly the old ones with the buyer's
  other hold in the match cancelled, a stale hold on the seat expired and the new hold appended; when
  it refuses, it returns ErrSeatUnavailable and the tables are untouched.\<close>

theorem PlaceHold_exact:
  assumes "schema_inv d" and "tx_fault_free env" and "alone env"
    and "bookings_id_seq d \<le> max_int64" and "seat_exists m s d"
  shows "PlaceHold env m s b ttl d =
     (if seat_taken (he_tx_now env) m s d
      then (Inl ErrSeatUnavailable, d\<lparr>bookings_id_seq := bookings_id_seq d + 1\<rparr>)
      else (Inr (booking_row_of (placed_row env m s b ttl d)), placed_db env m s b ttl '''' 0 d))"
  using PlaceHold_outcome [of env d m s b ttl] assms by (simp add: alone_def Let_def)

theorem PlaceHold_exact_witness:
  "PlaceHold (demo_env 200) ''M1'' ''A3'' ''alice'' 300000 demo_db =
     (Inr (booking_row_of (placed_row (demo_env 200) ''M1'' ''A3'' ''alice'' 300000 demo_db)),
      placed_db (demo_env 200) ''M1'' ''A3'' ''alice'' 300000 '''' 0 demo_db)
   \<and> PlaceHold (demo_env 200) ''M1'' ''A1'' ''erin'' 300000 demo_db =
     (Inl ErrSeatUnavailable, demo_db\<lparr>bookings_id_seq := 6\<rparr>)"
proof -
  have "\<not> seat_taken 200 ''M1'' ''A3'' demo_db" "seat_taken 200 ''M1'' ''A1'' demo_db"
    "seat_exists ''M1'' ''A3'' demo_db" "seat_exists ''M1'' ''A1'' demo_db" "bookings_id_seq demo_db = 5"
    by (simp_all add: demo_defs seat_taken_def seat_exists_def row_defs stale_hold_def expires_before_def)
  then show ?thesis
    using PlaceHold_exact [of demo_db "demo_env 200" "''M1''" "''A3''" "''alice''" 300000]
      PlaceHold_exact [of demo_db "demo_env 200" "''M1''" "''A1''" "''erin''" 300000]
    by (simp add: max_int64_def)
qed

text \<open>C9: a hold attempt that reports an error leaves every table as it was, whichever statement of
  the transaction failed (no other session committing in between): in particular the hold the buyer already had in the match
  survives a failed replacement. The one exception is a commit that took effect while its reply was lost: then the error is
  the wrapped error of the commit, and the database is exactly what the same call leaves when its reply arrives.\<close>

theorem placeHold_error_keeps_tables:
  assumes "alone env" and "placeHold env m s b ttl key d = (Inl e, d')"
  shows "same_tables d d'
     \<or> ((\<exists>x. he_fault env CommitTx = FailAfter x \<and> e = Wrap ''place hold: commit'' x)
        \<and> (\<exists>row. placeHold (env\<lparr>he_fault := (he_fault env)(CommitTx := NoFault)\<rparr>) m s b ttl key d = (Inr row, d')))"
  using placeHold_error_outcome [OF assms] by (simp add: reply_lost_def with_reply_def)

theorem placeHold_error_keeps_tables_witness:
  "(\<exists>e d'. placeHold (demo_env 200) ''M1'' ''A2'' ''alice'' 300000 ''k9'' demo_db = (Inl e, d') \<and> same_tables demo_db d')
   \<and> (\<exists>e d' row. placeHold ((demo_env 200)\<lparr>he_fault := (\<lambda>_. NoFault)(CommitTx := FailAfter (OtherError ''EOF''))\<rparr>)
          ''M1'' ''A4'' ''erin'' 300000 '''' demo_db = (Inl e, d')
        \<and> placeHold (demo_env 200) ''M1'' ''A4'' ''erin'' 300000 '''' demo_db = (Inr row, d'))"
proof -
  let ?r = "placeHold (demo_env 200) ''M1'' ''A2'' ''alice'' 300000 ''k9'' demo_db"
  have "seat_taken 200 ''M1'' ''A2'' demo_db" "seat_exists ''M1'' ''A2'' demo_db" "bookings_id_seq demo_db = 5"
    by (simp_all add: demo_defs seat_taken_def seat_exists_def row_defs stale_hold_def expires_before_def)
  moreover have "key_bookings ''k9'' demo_db = []" "key_bookings ''k9'' (demo_db\<lparr>bookings_id_seq := 6\<rparr>) = []"
    by (simp_all add: key_bookings_def demo_defs)
  ultimately have "?r = (Inl ErrSeatUnavailable, demo_db\<lparr>bookings_id_seq := 6\<rparr>)"
    using hold_tx_outcome [of demo_db "demo_env 200" "''M1''" "''A2''" "''alice''" 300000 "''k9''" 0]
    by (simp add: placeHold_def hold_attempt_def lookup_unknown max_int64_def replayHold_def Let_def)
  then have 1: "\<exists>e d'. ?r = (Inl e, d') \<and> same_tables demo_db d'"
    using placeHold_error_keeps_tables [of "demo_env 200" "''M1''" "''A2''" "''alice''" 300000 "''k9''" demo_db] by auto
  let ?env = "(demo_env 200)\<lparr>he_fault := (\<lambda>_. NoFault)(CommitTx := FailAfter (OtherError ''EOF''))\<rparr>"
  let ?q = "placeHold ?env ''M1'' ''A4'' ''erin'' 300000 '''' demo_db"
  have "fst ?q = Inl (Wrap ''place hold: commit'' (OtherError ''EOF'')) \<and> length (bookings (snd ?q)) = 5" by code_simp
  then obtain e d' where q: "?q = (Inl e, d')" "length (bookings d') = 5" by (metis prod.collapse)
  have "\<not> same_tables demo_db d'" using q(2) by (auto simp: same_tables_def demo_tables)
  moreover have "alone ?env" by (simp add: alone_def)
  moreover have "?env\<lparr>he_fault := (he_fault ?env)(CommitTx := NoFault)\<rparr> = demo_env 200" by (simp add: demo_env_def fun_eq_iff)
  ultimately show ?thesis using 1 q(1) placeHold_error_keeps_tables [OF _ q(1)] by auto
qed


section \<open>Idempotency keys\<close>

text \<open>C10: a retry that carries the key and the parameters of a request that succeeded returns the very
  same booking and changes nothing, as long as that booking is confirmed or its hold has not expired,
  whatever TTL the retry asks for.\<close>

theorem retry_replays_hold:
  assumes "schema_inv d" and "env_obeys schema_step env" and "key \<noteq> ''''"
    and "placeHold env m s b ttl key d = (Inr row, d')"
    and "he_fault env' LookupKey = NoFault"
    and "br_Status row = ''held'' \<Longrightarrow> \<exists>e. br_HoldExpiresAt row = Some e \<and> he_lookup_now env' < e"
  shows "placeHold env' m s b ttl' key d' = (Inr row, d')"
proof -
  obtain r rest where r: "key_bookings key d' = r # rest" "row = booking_row_of r" "same_request m s b r"
      "bk_status r = Held \<or> bk_status r = Confirmed"
    using placeHold_Inr_key [OF assms(1-4)] by blast
  have "live (he_lookup_now env') r"
    using r(2,4) assms(6) by (auto simp: live_def booking_row_of_def expires_after_def)
  then have "lookupIdempotentHold NoFault (he_lookup_now env') m s b key d' = Inr (row, idemLive)"
    using r(1-3) by (simp add: lookupIdempotentHold_def sql_lookup_key_def same_request_def)
  then show ?thesis using assms(3,5) by (simp add: placeHold_def)
qed

lemma demo_env_obeys [simp]: "env_obeys schema_step (demo_env t)"
  by (simp add: env_obeys_def schema.R_refl)

lemma demo_hold_k9:
  "placeHold (demo_env 200) ''M1'' ''A3'' ''erin'' 300000 ''k9'' demo_db =
     (Inr (booking_row_of (placed_row (demo_env 200) ''M1'' ''A3'' ''erin'' 300000 demo_db)),
      placed_db (demo_env 200) ''M1'' ''A3'' ''erin'' 300000 ''k9'' 0 demo_db)"
proof -
  have "\<not> seat_taken 200 ''M1'' ''A3'' demo_db" "seat_exists ''M1'' ''A3'' demo_db"
    "key_bookings ''k9'' demo_db = []" "\<not> key_blocked ''k9'' 0 demo_db" "bookings_id_seq demo_db = 5"
    by (simp_all add: demo_defs seat_taken_def seat_exists_def row_defs stale_hold_def expires_before_def
        key_bookings_def key_blocked_def keys_cleared_def)
  then show ?thesis
    using hold_tx_outcome [of demo_db "demo_env 200" "''M1''" "''A3''" "''erin''" 300000 "''k9''" 0]
    by (simp add: placeHold_def hold_attempt_def lookup_unknown max_int64_def)
qed

theorem retry_replays_hold_witness:
  "\<exists>row d'. placeHold (demo_env 200) ''M1'' ''A3'' ''erin'' 300000 ''k9'' demo_db = (Inr row, d')
     \<and> placeHold (demo_env 300) ''M1'' ''A3'' ''erin'' 999000 ''k9'' d' = (Inr row, d')"
  using retry_replays_hold [OF demo_schema_inv demo_env_obeys _ demo_hold_k9, where env' = "demo_env 300"]
  by (fastforce simp: demo_hold_k9 booking_row_of_def placed_row_def microseconds_def)

text \<open>A key that was recorded for other parameters is refused with ErrIdempotencyKeyReuse and
  nothing is written: a client never gets a booking it did not ask for.\<close>

lemma key_reuse_refused:
  assumes "schema_inv d" and "k \<in> set (idempotency_keys d)" and "r \<in> set (bookings d)"
    and "bk_id r = ik_booking_id k" and "ik_key k \<noteq> ''''"
    and "\<not> same_request m s b r" and "he_fault env LookupKey = NoFault"
  shows "placeHold env m s b ttl (ik_key k) d = (Inl ErrIdempotencyKeyReuse, d)"
  using lookup_known [OF key_bookings_recorded [OF assms(1-4)]] assms(5-7) by (simp add: placeHold_def)

text \<open>C17: a key whose booking has expired or was cancelled does not block the client: the request
  proceeds as a fresh one and, in the same transaction, the key is re-pointed at the new booking.\<close>

theorem dead_key_repointed:
  assumes "schema_inv d" and "k \<in> set (idempotency_keys d)" and "r \<in> set (bookings d)"
    and "bk_id r = ik_booking_id k" and "ik_key k \<noteq> ''''" and "same_request m s b r"
    and "\<not> live (he_lookup_now env) r" and "\<not> seat_taken (he_tx_now env) m s d"
    and "alone env" and "tx_fault_free env" and "he_fault env LookupKey = NoFault"
    and "bookings_id_seq d \<le> max_int64"
  shows "placeHold env m s b ttl (ik_key k) d =
      (Inr (booking_row_of (placed_row env m s b ttl d)), placed_db env m s b ttl (ik_key k) (bk_id r) d)
    \<and> key_bookings (ik_key k) (placed_db env m s b ttl (ik_key k) (bk_id r) d) = [placed_row env m s b ttl d]"
proof -
  have pos: "bk_id r \<noteq> 0"
    using assms(1,3) by (auto simp: schema_inv_def in_sequence_def list_all_iff)
  have "bk_match_id r = m" "bk_seat_id r = s" using assms(6) by (simp_all add: same_request_def)
  then have ex: "seat_exists m s d"
    using assms(1,3) by (auto simp: schema_inv_def bookings_ok_def list_all_iff seat_exists_def seat_key_def)
  have "distinct (map ik_key (idempotency_keys d))" using assms(1) by (simp add: schema_inv_def)
  then have "x = k" if "x \<in> set (idempotency_keys d)" "ik_key x = ik_key k" for x
    using distinct_key_eq assms(2) that by metis
  then have "ik_key k \<notin> ik_key ` set (keys_cleared (ik_key k) (bk_id r) d)"
    using assms(4) pos by (fastforce simp: keys_cleared_def)
  then have nb: "\<not> key_blocked (ik_key k) (bk_id r) d" by (simp add: key_blocked_def)
  have tx: "hold_tx env m s b ttl (ik_key k) (bk_id r) d =
      (Inr (booking_row_of (placed_row env m s b ttl d)), placed_db env m s b ttl (ik_key k) (bk_id r) d)"
    using hold_tx_outcome [OF assms(1,10,12)] assms(8) ex nb by simp
  have "placeHold env m s b ttl (ik_key k) d = hold_attempt env m s b ttl (ik_key k) (bk_id r) d"
    using lookup_known [OF key_bookings_recorded [OF assms(1-4)]] assms(5-7,11)
    by (simp add: placeHold_def booking_row_of_def)
  moreover have "key_bookings (ik_key k) (placed_db env m s b ttl (ik_key k) (bk_id r) d) = [placed_row env m s b ttl d]"
    using placed_db_inv [OF assms(1) tx] assms(5) by (intro placed_db_key)
  ultimately show ?thesis using tx assms(9) by (simp add: hold_attempt_def alone_def)
qed

theorem dead_key_repointed_witness:
  "placeHold (demo_env 200) ''M1'' ''A3'' ''carol'' 300000 ''k3'' demo_db =
     (Inr (booking_row_of (placed_row (demo_env 200) ''M1'' ''A3'' ''carol'' 300000 demo_db)),
      placed_db (demo_env 200) ''M1'' ''A3'' ''carol'' 300000 ''k3'' 3 demo_db)"
  using dead_key_repointed [of demo_db "\<lparr>ik_key = ''k3'', ik_booking_id = 3, ik_created_at = 0\<rparr>" carol_stale
      "''M1''" "''A3''" "''carol''" "demo_env 200" 300000]
  by (simp add: demo_tables demo_rows same_request_def live_def expires_after_def seat_taken_def row_defs
      stale_hold_def expires_before_def max_int64_def)

text \<open>C16: a retry that raced past the first lookup, so that its own original commits before its
  transaction, is not told that the seat is gone: it gets the original's booking, and its redundant
  transaction leaves no trace in the tables.\<close>

theorem lost_race_replays_winner:
  assumes "key \<noteq> ''''" and "key_bookings key d = []" and "he_fault env LookupKey = NoFault"
    and "d1 = he_before_tx env d" and "schema_inv d1" and "tx_fault_free env"
    and "bookings_id_seq d1 \<le> max_int64" and "\<And>x. he_before_replay env x = x"
    and "k \<in> set (idempotency_keys d1)" and "ik_key k = key"
    and "r \<in> set (bookings d1)" and "bk_id r = ik_booking_id k" and "same_request m s b r"
    and "live (he_replay_now env) r" and "he_fault env ReplayLookup = NoFault"
  shows "placeHold env m s b ttl key d =
     (Inr (booking_row_of r), d1\<lparr>bookings_id_seq := bookings_id_seq d1 + 1\<rparr>)"
proof -
  let ?d = "d1\<lparr>bookings_id_seq := bookings_id_seq d1 + 1\<rparr>"
  have "bk_match_id r = m" "bk_seat_id r = s" using assms(13) by (simp_all add: same_request_def)
  then have "seat_exists m s d1"
    using assms(5,11) by (auto simp: schema_inv_def bookings_ok_def list_all_iff seat_exists_def seat_key_def)
  moreover have "key_blocked key 0 d1"
    using assms(1,9,10) by (auto simp: key_blocked_def keys_cleared_def)
  ultimately have tx: "hold_tx env m s b ttl key 0 d1 = (Inl Conflict, ?d)"
    using hold_tx_outcome [OF assms(5-7)] by simp
  have "key_bookings key ?d = [r]"
    using key_bookings_recorded [OF assms(5,9,11,12)] assms(10) by (simp add: key_bookings_def)
  then have "replayHold env m s b key ?d = Inr (booking_row_of r)"
    using lookup_known assms(1,13-15) by (simp add: replayHold_def)
  then show ?thesis
    using tx assms(1-4,8) by (simp add: placeHold_def lookup_unknown hold_attempt_def Let_def)
qed

theorem lost_race_replays_winner_witness:
  "placeHold ((demo_env 200)\<lparr>he_before_tx := (\<lambda>_. demo_db)\<rparr>) ''M1'' ''A1'' ''alice'' 300000 ''k1'' empty_db =
     (Inr (booking_row_of alice_hold), demo_db\<lparr>bookings_id_seq := 6\<rparr>)"
  using lost_race_replays_winner [of "''k1''" empty_db "(demo_env 200)\<lparr>he_before_tx := (\<lambda>_. demo_db)\<rparr>" demo_db
      "\<lparr>ik_key = ''k1'', ik_booking_id = 1, ik_created_at = 0\<rparr>" alice_hold "''M1''" "''A1''" "''alice''" 300000]
  by (simp add: demo_tables demo_rows same_request_def live_def expires_after_def max_int64_def
      key_bookings_def empty_db_def tx_fault_free_def demo_env_def)


section \<open>ConfirmHold and ReleaseHold\<close>

text \<open>C14: confirming succeeds exactly for a hold of that buyer that is still held and has not reached
  its expiry; it then sells that one seat, and in every other case (expired, already confirmed, wrong
  buyer, unknown id) it answers ErrHoldExpired and changes nothing.\<close>

theorem ConfirmHold_exact:
  assumes "schema_inv d"
  shows "ConfirmHold NoFault now i buyer d =
     (case filter (\<lambda>b. bk_id b = i \<and> confirmable now buyer b) (bookings d) of
        [] \<Rightarrow> (Inl ErrHoldExpired, d)
      | b # _ \<Rightarrow> (Inr (confirmed_result now b),
                   d\<lparr>bookings := update_where (\<lambda>r. bk_id r = i \<and> confirmable now buyer r) (confirm_row now) (bookings d)\<rparr>))"
proof (cases "i \<in> bk_id ` set (bookings d)")
  case True
  then obtain b where b: "b \<in> set (bookings d)" "bk_id b = i" by blast
  then show ?thesis
    using ConfirmHold_row [OF assms b(1)] filter_key_and [OF schema_inv_bk_id [OF assms] b(1), of "confirmable now buyer"]
    by simp
next
  case False
  then have "filter (\<lambda>b. bk_id b = i \<and> confirmable now buyer b) (bookings d) = []"
    by (auto simp: filter_empty_conv)
  then show ?thesis using ConfirmHold_no_row [OF assms False] by simp
qed

theorem ConfirmHold_exact_witness:
  "ConfirmHold NoFault 200 1 ''alice'' demo_db =
     (Inr (confirmed_result 200 alice_hold),
      demo_db\<lparr>bookings := [confirm_row 200 alice_hold, bob_sold, carol_stale, dave_cancelled]\<rparr>)
   \<and> ConfirmHold NoFault 200 3 ''carol'' demo_db = (Inl ErrHoldExpired, demo_db)"
  using ConfirmHold_exact [OF demo_schema_inv, of 200 1 "''alice''"]
    ConfirmHold_exact [OF demo_schema_inv, of 200 3 "''carol''"]
  by (simp add: demo_tables demo_rows confirmable_def expires_after_def)

section \<open>The board\<close>

text \<open>C6: a hold that succeeded is, on the abstract board of the match, exactly: the target seat
  becomes held by the buyer until the expiry, the seat the buyer held before in the same match becomes
  free, every other seat is as before. Seen at any instant from the transaction until the expiry.\<close>

theorem hold_refines:
  assumes "schema_inv d" and "hold_tx env m s b ttl key stale d = (Inr row, d')"
    and "he_tx_now env \<le> now" and "now < he_tx_now env + microseconds ttl"
  shows "seat_view now d' = board_hold m s b (he_tx_now env + microseconds ttl) (seat_view now d)"
  using hold_refines_board [OF assms] .

theorem hold_refines_witness:
  "seat_view 250 (snd (hold_tx (demo_env 200) ''M1'' ''A4'' ''alice'' 300000 '''' 0 demo_db)) =
     board_hold ''M1'' ''A4'' ''alice'' 500 (seat_view 250 demo_db)"
proof -
  have "\<not> seat_taken 200 ''M1'' ''A4'' demo_db" "seat_exists ''M1'' ''A4'' demo_db"
    by (simp_all add: demo_defs seat_taken_def seat_exists_def row_defs)
  then have "hold_tx (demo_env 200) ''M1'' ''A4'' ''alice'' 300000 '''' 0 demo_db =
      (Inr (booking_row_of (placed_row (demo_env 200) ''M1'' ''A4'' ''alice'' 300000 demo_db)),
       snd (hold_tx (demo_env 200) ''M1'' ''A4'' ''alice'' 300000 '''' 0 demo_db))"
    using hold_tx_outcome [of demo_db "demo_env 200" "''M1''" "''A4''" "''alice''" 300000 "''''" 0]
    by (simp add: key_blocked_def demo_tables max_int64_def)
  from hold_refines [OF demo_schema_inv this, of 250] show ?thesis by (simp add: microseconds_def)
qed

text \<open>C19: a confirmation that succeeded sells exactly that seat to exactly that buyer on the board, at
  every instant from then on; no other seat changes.\<close>

theorem confirm_refines:
  assumes "db_inv d" and "b \<in> set (bookings d)" and "ConfirmHold NoFault now (bk_id b) buyer d = (Inr row, d')"
  shows "seat_view t d' = (seat_view t d)(seat_key b := SoldTo buyer)"
proof -
  have inv: "schema_inv d" using assms(1) by (simp add: db_inv_def)
  have c: "confirmable now buyer b"
    and d': "d' = d\<lparr>bookings := update_where (\<lambda>r. bk_id r = bk_id b \<and> confirmable now buyer r) (confirm_row now) (bookings d)\<rparr>"
    using assms(3) ConfirmHold_row [OF inv assms(2), of now buyer] by (auto split: if_splits)
  have inv': "schema_inv d'"
    using inv obeys_eqD [OF hold_schema.obeys_ConfirmHold assms(3)] by (simp add: schema_step_def)
  have "live t (confirm_row now b)" "state_of_booking (confirm_row now b) = SoldTo buyer"
    using c by (simp_all add: live_def state_of_booking_def confirmable_def) (simp add: confirm_row_def)
  moreover have "active b" using c by (simp add: confirmable_def active_def)
  ultimately show ?thesis
    using board_cas [where P = "confirmable now buyer" and f = "confirm_row now" and now = t, OF inv inv' assms(2) c] d'
    by simp
qed

theorem confirm_refines_witness:
  "seat_view 900 (snd (ConfirmHold NoFault 200 1 ''alice'' demo_db)) =
     (seat_view 900 demo_db)((''M1'', ''A1'') := SoldTo ''alice'')"
proof -
  have "ConfirmHold NoFault 200 (bk_id alice_hold) ''alice'' demo_db =
      (Inr (confirmed_result 200 alice_hold), snd (ConfirmHold NoFault 200 1 ''alice'' demo_db))"
    using ConfirmHold_row [OF demo_schema_inv, of alice_hold 200 "''alice''"]
    by (simp add: demo_tables demo_rows confirmable_def expires_after_def)
  from confirm_refines [OF demo_db_inv _ this, of 900] show ?thesis
    by (simp add: demo_tables demo_rows seat_key_def)
qed

lemma ReleaseHold_board:
  assumes "schema_inv d"
  shows "case filter (\<lambda>b. bk_id b = i \<and> releasable buyer b) (bookings d) of
       [] \<Rightarrow> ReleaseHold NoFault now i buyer d = (Inl ErrNotFound, d)
     | b # _ \<Rightarrow> (\<exists>d'. ReleaseHold NoFault now i buyer d = (Inr (bk_match_id b), d')
         \<and> d' = d\<lparr>bookings := update_where (\<lambda>r. bk_id r = i \<and> releasable buyer r) (cancel_row now) (bookings d)\<rparr>
         \<and> seat_view t d' = (seat_view t d)(seat_key b := Free))"
proof (cases "i \<in> bk_id ` set (bookings d)")
  case True
  then obtain b where b: "b \<in> set (bookings d)" "bk_id b = i" by blast
  let ?d' = "d\<lparr>bookings := update_where (\<lambda>r. bk_id r = bk_id b \<and> releasable buyer r) (cancel_row now) (bookings d)\<rparr>"
  have "schema_inv ?d'" using schema_inv_demotes [OF assms demotes_cancel] .
  then have "seat_view t ?d' = (seat_view t d)(seat_key b := Free)" if "releasable buyer b"
    using that not_live_inactive board_cas [where P = "releasable buyer" and f = "cancel_row now" and now = t, OF assms _ b(1) that]
    by (simp add: releasable_def active_def)
  then show ?thesis
    using ReleaseHold_row [OF assms b(1), of now buyer]
      filter_key_and [OF schema_inv_bk_id [OF assms] b(1), of "releasable buyer"] b(2) by simp
next
  case False
  then have "filter (\<lambda>b. bk_id b = i \<and> releasable buyer b) (bookings d) = []" by (auto simp: filter_empty_conv)
  then show ?thesis using ReleaseHold_no_row [OF assms False] by simp
qed

text \<open>C20: releasing a hold succeeds exactly for a hold of that buyer, expired or not; it then cancels that one
  booking and frees exactly its seat on the board. For every other id (a booking of another buyer, one in another
  state, an id that does not exist) it answers ErrNotFound and changes nothing.\<close>

theorem release_refines:
  assumes "schema_inv d"
  shows "case filter (\<lambda>b. bk_id b = i \<and> bk_buyer_id b = buyer \<and> bk_status b = Held) (bookings d) of
       [] \<Rightarrow> ReleaseHold NoFault now i buyer d = (Inl ErrNotFound, d)
     | b # _ \<Rightarrow> (\<exists>d'. ReleaseHold NoFault now i buyer d = (Inr (bk_match_id b), d')
         \<and> d' = d\<lparr>bookings := update_where (\<lambda>r. bk_id r = i \<and> bk_buyer_id r = buyer \<and> bk_status r = Held) (cancel_row now) (bookings d)\<rparr>
         \<and> seat_view t d' = (seat_view t d)(seat_key b := Free))"
  by (rule ReleaseHold_board [OF assms, unfolded releasable_def])

theorem release_refines_witness:
  "seat_view 210 (snd (ReleaseHold NoFault 200 1 ''alice'' demo_db)) = (seat_view 210 demo_db)((''M1'', ''A1'') := Free)
   \<and> ReleaseHold NoFault 200 1 ''bob'' demo_db = (Inl ErrNotFound, demo_db)
   \<and> ReleaseHold NoFault 200 99 ''alice'' demo_db = (Inl ErrNotFound, demo_db)"
  using release_refines [OF demo_schema_inv, where i = 1 and buyer = "''alice''" and now = 200 and t = 210]
    release_refines [OF demo_schema_inv, where i = 1 and buyer = "''bob''" and now = 200]
    release_refines [OF demo_schema_inv, where i = 99 and buyer = "''alice''" and now = 200]
  by (auto simp: demo_tables demo_rows seat_key_def)

text \<open>C21: the seat list shows the board: it is sorted by section and seat in the collation of the database, and it
  has exactly one line for each seat of the match, which says confirmed when the seat is sold, held (with the
  expiry) when a hold that has not reached its expiry is on it, and available otherwise, as the board does. A
  hold that reached its expiry is shown as available without any sweeper.\<close>

theorem ListSeats_shows_board:
  assumes "db_inv d"
  shows "\<exists>ls. ListSeats NoFault coll now m d = Inr ls
     \<and> sorted (map (\<lambda>l. (coll (ss_Section l), coll (ss_SeatID l))) ls)
     \<and> (\<exists>ss. mset ss = mset (filter (\<lambda>s. se_match_id s = m) (seats d)) \<and> list_all2 (shows_seat now d) ss ls)"
  using ListSeats_board [OF assms] seats_listing [OF assms] by (simp add: board_listing_def)

definition plain_collation :: collation where
  "plain_collation s = map of_char s"

text \<open>The order of the table is not the order of the list.\<close>

definition mixed_seats :: db where
  "mixed_seats = demo_db\<lparr>seats := rev (seats demo_db)\<rparr>"

theorem ListSeats_shows_board_witness:
  "map ss_SeatID (case ListSeats NoFault plain_collation 200 ''M1'' mixed_seats of Inr l \<Rightarrow> l | Inl _ \<Rightarrow> []) =
     [''A1'', ''A2'', ''A3'', ''A4'']"
proof -
  have "db_inv mixed_seats"
    by (simp add: db_inv_def mixed_seats_def schema_inv_def demo_defs inventory_ok_def bookings_ok_def row_defs in_sequence_def
        max_int64_def refund_inv_def booking_wf_def refund_wf_def sold_cancelled_def event_content_def event_of_refund_def)
  from ListSeats_shows_board [OF this, of plain_collation 200 "''M1''"]
  obtain ls where "ListSeats NoFault plain_collation 200 ''M1'' mixed_seats = Inr ls" by blast
  moreover have "map ss_SeatID (case ListSeats NoFault plain_collation 200 ''M1'' mixed_seats of Inr l \<Rightarrow> l | Inl _ \<Rightarrow> []) =
     [''A1'', ''A2'', ''A3'', ''A4'']" by code_simp
  ultimately show ?thesis by simp
qed

text \<open>C40: at the very instant a hold expires the store contradicts itself: the seat list shows the
  seat as available and its holder can no longer confirm, yet another buyer's hold is refused with
  ErrSeatUnavailable, because a stale hold is taken over only when it expired strictly before now.\<close>

theorem expiry_instant_unavailable:
  assumes "schema_inv d" and "b \<in> set (bookings d)" and "bk_status b = Held"
    and "bk_hold_expires_at b = Some (he_tx_now env)" and "tx_fault_free env" and "alone env"
    and "bookings_id_seq d \<le> max_int64"
  shows "seat_view (he_tx_now env) d (seat_key b) = Free
    \<and> ConfirmHold NoFault (he_tx_now env) (bk_id b) (bk_buyer_id b) d = (Inl ErrHoldExpired, d)
    \<and> fst (PlaceHold env (bk_match_id b) (bk_seat_id b) buyer ttl d) = Inl ErrSeatUnavailable"
proof -
  let ?now = "he_tx_now env" and ?m = "bk_match_id b" and ?s = "bk_seat_id b"
  have act: "active b" using assms(3) by (simp add: active_def)
  have "x = b" if "x \<in> set (bookings d)" "live ?now x" "seat_key x = seat_key b" for x
    using active_unique [OF assms(1) that(1) assms(2) live_active [OF that(2)] act] that(3) by simp
  moreover have "\<not> live ?now b" using assms(3,4) by (simp add: live_def expires_after_def)
  ultimately have view: "seat_view ?now d (seat_key b) = Free" by (auto simp: seat_view_Free_iff)
  have conf: "ConfirmHold NoFault ?now (bk_id b) (bk_buyer_id b) d = (Inl ErrHoldExpired, d)"
    using ConfirmHold_row [OF assms(1,2)] assms(4) by (simp add: confirmable_def expires_after_def)
  have "seat_taken ?now ?m ?s d"
    using assms(2,4) act by (auto simp: seat_taken_def list_ex_iff seat_key_def stale_hold_def expires_before_def)
  moreover have "seat_exists ?m ?s d"
    using assms(1,2) by (auto simp: schema_inv_def bookings_ok_def list_all_iff seat_exists_def seat_key_def)
  ultimately show ?thesis
    using view conf PlaceHold_outcome [of env d ?m ?s buyer ttl] assms(1,5-7) by (simp add: alone_def Let_def)
qed

theorem expiry_instant_unavailable_witness:
  "seat_view 500 demo_db (''M1'', ''A1'') = Free
   \<and> fst (PlaceHold (demo_env 500) ''M1'' ''A1'' ''erin'' 300000 demo_db) = Inl ErrSeatUnavailable"
  using expiry_instant_unavailable [OF demo_schema_inv, of alice_hold "demo_env 500" "''erin''" 300000]
  by (simp add: demo_tables demo_rows seat_key_def max_int64_def)

end
