(* ===== verification/RefundProperties.thy ===== *)
theory RefundProperties
  imports HoldProperties
begin

text \<open>
  The properties of cancellation, of the outbox and its worker, of the maintenance statements and of
  the booking history.
\<close>

section \<open>CancelBooking\<close>

text \<open>C8: cancelling is all or nothing. Whatever call of the transaction fails, and whatever the
  caller is told, the tables afterwards are the old ones, or the ones in which the sold booking is
  cancelled, one pending refund is added for it and one outbox event for that refund: there is no
  cancelled booking without a refund and no refund without an event.\<close>

theorem CancelBooking_all_or_nothing:
  assumes "schema_inv d" and "CancelBooking env i buyer d = (r, d')"
  shows "same_tables d d' \<or>
     (d' = cancelled_db (ce_now env) i buyer d
      \<and> (\<exists>b \<in> set (bookings d). bk_id b = i \<and> cancellable (ce_now env) buyer (matches d) b))"
  using CancelBooking_atomic_cases [OF assms] .

theorem CancelBooking_all_or_nothing_witness:
  "\<exists>r d'. CancelBooking ((demo_cancel 200)\<lparr>ce_fault := (\<lambda>site. if site = CancelInsertEvent
             then FailAfter DeadlineExceeded else NoFault)\<rparr>) 2 ''bob'' demo_db = (Inl r, d') \<and> same_tables demo_db d'"
proof -
  let ?env = "(demo_cancel 200)\<lparr>ce_fault := (\<lambda>site. if site = CancelInsertEvent
             then FailAfter DeadlineExceeded else NoFault)\<rparr>"
  obtain r d' where c: "CancelBooking ?env 2 ''bob'' demo_db = (r, d')" by (meson surj_pair)
  have r: "\<exists>e. r = Inl e"
    using c by (auto simp: CancelBooking_def in_tx_def cancel_body_def insertOutboxEvent_def Let_def bindA_def
        mapErrA_def withFault_def split: prod.splits sum.splits)
  have "refunds d' = refunds demo_db"
    using c by (auto simp: CancelBooking_def in_tx_def cancel_body_def insertOutboxEvent_def Let_def bindA_def
        mapErrA_def withFault_def rollback_def split: prod.splits sum.splits)
  then show ?thesis
    using CancelBooking_all_or_nothing [OF demo_schema_inv c] c r by (auto simp: cancelled_db_def)
qed




section \<open>Refunds and the outbox\<close>

text \<open>Completing a refund is idempotent: when an event is handled twice, the second completion
  finds no pending refund, succeeds and changes nothing, so the first reference and time stand; the same
  holds for marking the event processed.\<close>

lemma refund_completion_idempotent:
  assumes "MarkRefundStatus f now i ''refunded'' ref d = (Inr u, d1)"
    and "MarkProcessed f' now e d1 = (Inr u', d2)"
  shows "MarkRefundStatus NoFault now' i ''refunded'' ref' d1 = (Inr (), d1)
    \<and> MarkProcessed NoFault now' e d2 = (Inr (), d2)"
proof -
  have "update_where (\<lambda>r. rf_id r = i \<and> rf_status r = Pending) (refunded_row now' ref') (refunds d1) = refunds d1"
    using mark_refund_done(1) [OF assms(1)] by (intro update_where_none) blast
  then have 1: "MarkRefundStatus NoFault now' i ''refunded'' ref' d1 = (Inr (), d1)"
    by (simp add: MarkRefundStatus_Inr)
  have d2: "outbox_events d2 = update_where (\<lambda>x. ob_id x = e \<and> ob_processed_at x = None)
      (\<lambda>x. x\<lparr>ob_processed_at := Some now\<rparr>) (outbox_events d1)"
    using assms(2) by (auto simp: MarkProcessed_def withFault_Inr sql_mark_processed_def)
  have "\<not> (ob_id x = e \<and> ob_processed_at x = None)" if "x \<in> set (outbox_events d2)" for x
    using that unfolding d2 by (rule in_update_whereE) simp_all
  then have "update_where (\<lambda>x. ob_id x = e \<and> ob_processed_at x = None)
      (\<lambda>x. x\<lparr>ob_processed_at := Some now'\<rparr>) (outbox_events d2) = outbox_events d2"
    by (intro update_where_none) blast
  then show ?thesis using 1 by (simp add: MarkProcessed_def mapErrA_def sql_mark_processed_def)
qed

text \<open>C18: a poll claims at most the requested number of events, all of them waiting and not leased, and
  the oldest: an event that could have been claimed and was not is no older than any claimed one. While
  the lease runs, a second poll by any worker returns none of them.\<close>

theorem poll_claims_oldest_exclusively:
  assumes "schema_inv d" and "0 \<le> n" and "PollUnprocessed NoFault now locked n d = (Inr es, d')"
    and "now' \<le> now + claim_lease" and "PollUnprocessed NoFault now' locked' n' d' = (Inr es', d'')"
  shows "length es \<le> nat n
    \<and> (\<forall>e \<in> set (outbox_events d). \<forall>x \<in> set (outbox_events d).
         ob_id e \<in> oe_ID ` set es \<longrightarrow> claimable now x \<longrightarrow> \<not> locked (ob_id x) \<longrightarrow> ob_id x \<notin> oe_ID ` set es \<longrightarrow>
         claimable now e \<and> ob_created_at e \<le> ob_created_at x)
    \<and> oe_ID ` set es \<inter> oe_ID ` set es' = {}"
proof -
  let ?ids = "set (poll_ids now locked n (outbox_events d))"
  note dist = schema_inv_ob_id [OF assms(1)]
  have es: "es = map outbox_event_of (filter (\<lambda>e. ob_id e \<in> ?ids) (outbox_events d))"
    and d': "outbox_events d' = update_where (\<lambda>e. ob_id e \<in> ?ids) (\<lambda>e. e\<lparr>ob_claimed_at := Some now\<rparr>) (outbox_events d)"
    using poll_NoFault [OF assms(2) refl, where now = now and locked = locked and d = d] assms(3) by auto
  have ids: "oe_ID ` set es = ?ids"
    using poll_ids_in by (fastforce simp: es outbox_event_of_def image_iff)
  have 1: "length es \<le> nat n" using polled_are_poll_ids [OF dist] by (simp add: es)
  have 2: "claimable now e \<and> ob_created_at e \<le> ob_created_at x"
    if "e \<in> set (outbox_events d)" "x \<in> set (outbox_events d)" "ob_id e \<in> ?ids" "claimable now x"
      "\<not> locked (ob_id x)" "ob_id x \<notin> ?ids" for e x
    using poll_oldest_first [OF dist that(1,3,2,4,5,6)] poll_ids_in [OF that(3)] distinct_key_eq [OF dist that(1)]
    by (metis)
  have 3: "i \<notin> oe_ID ` set es'" if i: "i \<in> ?ids" for i
  proof
    assume "i \<in> oe_ID ` set es'"
    then have "i \<in> set (poll_ids now' locked' n' (outbox_events d'))"
      using assms(5) by (auto simp: PollUnprocessed_def withFault_Inr sql_poll_unprocessed_def Let_def
          outbox_event_of_def split: if_splits)
    then obtain x where x: "x \<in> set (outbox_events d')" "ob_id x = i" "claimable now' x"
      using poll_ids_in by blast
    then have "\<exists>e. x = e\<lparr>ob_claimed_at := Some now\<rparr>" using i unfolding d' by (auto elim!: in_update_whereE)
    then show False using x(3) polled_not_claimable [OF assms(4)] by blast
  qed
  show ?thesis using 1 2 3 by (auto simp: ids)
qed

lemma demo_poll_ids: "poll_ids 200 (\<lambda>_. False) 10 (outbox_events demo_db) = [1]"
  by (simp add: poll_ids_def demo_tables demo_event_def claimable_def order_limit_def)

theorem poll_claims_oldest_exclusively_witness:
  "\<exists>d' d''. PollUnprocessed NoFault 200 (\<lambda>_. False) 10 demo_db = (Inr [outbox_event_of demo_event], d')
     \<and> PollUnprocessed NoFault 300 (\<lambda>_. False) 10 d' = (Inr [], d'')"
proof -
  let ?p = "PollUnprocessed NoFault 200 (\<lambda>_. False) 10 demo_db"
  have p: "?p = (Inr [outbox_event_of demo_event], snd ?p)"
    using poll_NoFault [of 10 _ 200 "\<lambda>_. False" demo_db, OF _ refl] demo_poll_ids
    by (simp add: demo_tables) (simp add: demo_event_def)
  obtain es' d'' where q: "PollUnprocessed NoFault 300 (\<lambda>_. False) 10 (snd ?p) = (Inr es', d'')"
    using poll_NoFault [of 10 _ 300 "\<lambda>_. False" "snd ?p", OF _ refl] by simp
  have "same_events demo_db (snd ?p)" by (rule obeysD [OF events.obeys_PollUnprocessed])
  then have "fst ` set (event_ids (snd ?p)) = {1}"
    by (simp add: same_events_def event_ids_def demo_tables) (simp add: demo_event_def)
  then have "\<forall>e \<in> set es'. oe_ID e = 1"
    using polled_from_row [OF q] by (force simp: from_row_event_ids)
  moreover have "oe_ID ` set [outbox_event_of demo_event] \<inter> oe_ID ` set es' = {}"
    using poll_claims_oldest_exclusively [OF demo_schema_inv _ p _ q] by (simp add: claim_lease_def claimLeaseTTL_def)
  ultimately have "es' = []" by (cases es') (auto simp: outbox_event_of_def demo_event_def)
  then show ?thesis using p q by blast
qed




section \<open>Maintenance\<close>

text \<open>C35: the sweeper is invisible and bounded: it expires at most the requested number of holds, only
  holds past their expiry, and at no instant from then on does the board of any match change.\<close>

theorem sweep_bounded_and_invisible:
  assumes "schema_inv d" and "0 \<le> limit" and "SweepExpiredHolds NoFault now locked limit d = (Inr n, d')"
  shows "n \<le> nat limit
    \<and> (\<forall>b \<in> set (bookings d). b \<notin> set (bookings d') \<longrightarrow> expired_hold now b \<and> expire_row b \<in> set (bookings d'))
    \<and> (\<forall>t \<ge> now. seat_view t d' = seat_view t d)"
proof -
  let ?P = "\<lambda>b. bk_id b \<in> set (sweep_ids now locked limit (bookings d))"
  have n: "n = length (filter ?P (bookings d))"
    and d': "d' = d\<lparr>bookings := update_where ?P expire_row (bookings d)\<rparr>"
    using assms(3) sql_sweep_outcome [OF assms(1,2), of now locked]
    by (auto simp: SweepExpiredHolds_def mapErrA_def Let_def)
  have "distinct (sweep_ids now locked limit (bookings d))"
    unfolding sweep_ids_def
    by (intro distinct_order_limit distinct_map_filter schema_inv_bk_id [OF assms(1)])
  moreover have "set (sweep_ids now locked limit (bookings d)) \<subseteq> bk_id ` set (bookings d)"
    using sweep_ids_in by fastforce
  ultimately have "length (filter (\<lambda>b. \<not> ?P b) (bookings d)) =
      length (bookings d) - length (sweep_ids now locked limit (bookings d))"
    by (intro length_filter_keys schema_inv_bk_id [OF assms(1)])
  then have "n \<le> length (sweep_ids now locked limit (bookings d))"
    using sum_length_filter_compl [of ?P "bookings d"] n by linarith
  then have 1: "n \<le> nat limit" by (simp add: sweep_ids_def)
  have 2: "expired_hold now b \<and> expire_row b \<in> set (bookings d')"
    if "b \<in> set (bookings d)" "b \<notin> set (bookings d')" for b
  proof -
    have "?P b" using that by (auto simp: d' set_update_where image_iff)
    then show ?thesis
      using swept_expired [OF schema_inv_bk_id [OF assms(1)] that(1)] that(1)
      by (auto simp: d' set_update_where image_iff intro!: bexI [of _ b])
  qed
  have "seat_view t d' = seat_view t d" if "now \<le> t" for t
    using sweep_refines_board [OF assms(1) that, of NoFault locked limit] assms(3) by simp
  then show ?thesis using 1 2 by blast
qed

theorem sweep_bounded_and_invisible_witness:
  "\<exists>n d'. SweepExpiredHolds NoFault 200 (\<lambda>_. False) 1000 demo_db = (Inr n, d') \<and> bookings d' \<noteq> bookings demo_db
     \<and> seat_view 200 d' = seat_view 200 demo_db"
proof -
  obtain n d' where s: "SweepExpiredHolds NoFault 200 (\<lambda>_. False) 1000 demo_db = (Inr n, d')"
    and "bookings d' = update_where (\<lambda>b. bk_id b \<in> set (sweep_ids 200 (\<lambda>_. False) 1000 (bookings demo_db))) expire_row (bookings demo_db)"
    using sql_sweep_outcome [OF demo_schema_inv, of 1000 200 "\<lambda>_. False"]
    by (simp add: SweepExpiredHolds_def mapErrA_def Let_def)
  then have "bookings d' \<noteq> bookings demo_db"
    by (simp add: demo_tables sweep_ids_def expired_hold_def expires_before_def demo_rows order_limit_def expire_row_def)
  then show ?thesis using s sweep_bounded_and_invisible [OF demo_schema_inv _ s] by auto
qed

text \<open>Pruning removes at most the requested number of idempotency keys, each older than the retention,
  and the bookings are not touched: a key younger than the retention keeps replaying.\<close>

lemma prune_only_old_keys:
  assumes "schema_inv d" and "0 \<le> limit" and "PruneIdempotencyKeys NoFault now locked retention limit d = (Inr n, d')"
  shows "n \<le> nat limit \<and> bookings d' = bookings d
    \<and> set (idempotency_keys d') \<subseteq> set (idempotency_keys d)
    \<and> (\<forall>k \<in> set (idempotency_keys d). now - microseconds retention \<le> ik_created_at k \<longrightarrow> k \<in> set (idempotency_keys d'))"
proof -
  let ?keys = "prune_keys now locked (microseconds retention) limit (idempotency_keys d)"
  let ?P = "\<lambda>k. ik_key k \<in> set ?keys"
  have dist: "distinct (map ik_key (idempotency_keys d))" using assms(1) by (simp add: schema_inv_def)
  have n: "n = length (filter ?P (idempotency_keys d))"
    and d': "d' = d\<lparr>idempotency_keys := filter (\<lambda>k. \<not> ?P k) (idempotency_keys d)\<rparr>"
    using assms(2,3) by (auto simp: PruneIdempotencyKeys_def mapErrA_def sql_prune_def Let_def)
  have old: "\<exists>x \<in> set (idempotency_keys d). ik_key x = i \<and> ik_created_at x < now - microseconds retention"
    if "i \<in> set ?keys" for i
    using that by (fastforce simp: prune_keys_def dest: in_order_limitD)
  have "distinct ?keys"
    unfolding prune_keys_def by (intro distinct_order_limit distinct_map_filter dist)
  moreover have "set ?keys \<subseteq> ik_key ` set (idempotency_keys d)" using old by fastforce
  ultimately have "length (filter (\<lambda>k. \<not> ?P k) (idempotency_keys d)) = length (idempotency_keys d) - length ?keys"
    by (intro length_filter_keys dist)
  then have "n \<le> length ?keys" using sum_length_filter_compl [of ?P "idempotency_keys d"] n by linarith
  then have "n \<le> nat limit" by (simp add: prune_keys_def)
  moreover have "k \<in> set (idempotency_keys d')"
    if "k \<in> set (idempotency_keys d)" "now - microseconds retention \<le> ik_created_at k" for k
    using that old distinct_key_eq [OF dist _ that(1)] by (fastforce simp: d')
  ultimately show ?thesis by (auto simp: d')
qed

section \<open>The booking history\<close>

text \<open>The order of the rows, read off the rows: latest sale or cancellation first, then the higher id.\<close>

definition summary_key :: "BookingSummaryRow \<Rightarrow> int \<times> int \<times> int" where
  "summary_key r =
     (case (case sr_CancelledAt r of Some t \<Rightarrow> Some t | None \<Rightarrow> sr_ConfirmedAt r) of
        None \<Rightarrow> (0, 0, - sr_ID r) | Some t \<Rightarrow> (1, - t, - sr_ID r))"

lemma summary_key_of [simp]: "summary_key (summary_of d b) = history_key b"
  by (simp add: summary_key_def summary_of_def history_key_def completed_at_def split: option.split)

text \<open>C36: the history of a buyer in a match lists exactly the bookings that were sold to that buyer
  (still confirmed, or cancelled after the sale; never a hold that was dropped), newest first, and shows
  a refund status exactly on the cancelled ones, that of the one refund the booking has.\<close>

theorem ListBookings_history:
  assumes "db_inv d" and "ListBookings NoFault m buyer d = Inr rows"
  shows "set rows = summary_of d ` {b \<in> set (bookings d). completed m buyer b}
    \<and> sorted (map summary_key rows)
    \<and> (\<forall>b \<in> set (bookings d). completed m buyer b \<longrightarrow>
         (sr_RefundStatus (summary_of d b) = None \<longleftrightarrow> bk_status b = Confirmed)
         \<and> (\<forall>r \<in> set (refunds d). rf_booking_id r = bk_id b \<longrightarrow>
              sr_RefundStatus (summary_of d b) = Some (rstatus_text (rf_status r))))"
proof -
  have rows: "rows = map (summary_of d) (sort_key history_key (filter (completed m buyer) (bookings d)))"
    using assms(2) by (auto simp: ListBookings_def query_def split: sum.splits)
  have "sr_RefundStatus (summary_of d b) = None \<longleftrightarrow> bk_status b = Confirmed"
    if "b \<in> set (bookings d)" "completed m buyer b" for b
    using refund_status_shown [OF assms(1) that(1)] that(2) by (auto simp: completed_def sold_cancelled_def)
  moreover have "sr_RefundStatus (summary_of d b) = Some (rstatus_text (rf_status r))"
    if "r \<in> set (refunds d)" "rf_booking_id r = bk_id b" for b r
    using latest_refund_unique [OF assms(1) that(1)] that(2) by (simp add: summary_of_def)
  ultimately show ?thesis by (auto simp: rows o_def)
qed

theorem ListBookings_history_witness:
  "\<exists>row. ListBookings NoFault ''M1'' ''dave'' demo_db = Inr [row] \<and> sr_RefundStatus row = Some ''pending''"
proof -
  have l: "ListBookings NoFault ''M1'' ''dave'' demo_db = Inr [summary_of demo_db dave_cancelled]"
    by (simp add: ListBookings_def query_def demo_tables completed_def) (simp add: demo_rows)
  have "dave_cancelled \<in> set (bookings demo_db)" "completed ''M1'' ''dave'' dave_cancelled"
    "demo_refund \<in> set (refunds demo_db)" "rf_booking_id demo_refund = bk_id dave_cancelled" "rf_status demo_refund = Pending"
    by (simp_all add: demo_tables completed_def) (simp_all add: demo_rows)
  moreover from this have "sr_RefundStatus (summary_of demo_db dave_cancelled) = Some (rstatus_text (rf_status demo_refund))"
    using ListBookings_history [OF demo_db_inv l] by blast
  ultimately show ?thesis using l by simp
qed

end
