(* ===== verification/Retry.thy ===== *)
theory Retry
  imports Errors "HOL-Library.Word"
begin

text \<open>
  The bounded retry loop of \<open>internal/booking/service.go\<close>: \<open>withRetry\<close>, \<open>backoffFor\<close> and
  \<open>retryCtxErr\<close>. What the context says before each attempt and during each backoff sleep, and the
  draws of the random generator, are parameters.
\<close>

section \<open>The loop\<close>

definition retryCtxErr :: "go_error \<Rightarrow> go_error option \<Rightarrow> go_error" where
  "retryCtxErr ctxErr lastErr =
     (case lastErr of None \<Rightarrow> ctxErr | Some err \<Rightarrow> WrapLast ctxErr err)"

text \<open>
  \<open>rc_err n\<close> is \<open>ctx.Err()\<close> in front of attempt \<open>n\<close>; \<open>rc_wait n\<close> is what the \<open>select\<close> after it
  saw: \<open>None\<close> when the timer fired, the context's error when \<open>ctx.Done()\<close> won.
\<close>

record retry_ctx =
  rc_err :: "int \<Rightarrow> go_error option"
  rc_wait :: "int \<Rightarrow> go_error option"

function retry_loop ::
  "retry_ctx \<Rightarrow> int \<Rightarrow> 'a \<Rightarrow> (int \<Rightarrow> ('s, go_error, 'a) action) \<Rightarrow> int \<Rightarrow> go_error option \<Rightarrow> ('s, go_error, 'a) action"
where
  "retry_loop ctx maxRetries zero fn attempt lastErr s =
     (if attempt \<le> maxRetries then
        (case rc_err ctx attempt of
           Some err \<Rightarrow> (Inl (retryCtxErr err lastErr), s)
         | None \<Rightarrow>
             (case fn attempt s of
                (Inr result, s') \<Rightarrow> (Inr result, s')
              | (Inl err, s') \<Rightarrow>
                  if \<not> isRetryable err then (Inl err, s')
                  else if attempt = maxRetries then (Inl err, s')
                  else (case rc_wait ctx attempt of
                          Some cerr \<Rightarrow> (Inl (retryCtxErr cerr (Some err)), s')
                        | None \<Rightarrow> retry_loop ctx maxRetries zero fn (attempt + 1) (Some err) s')))
      else (case lastErr of None \<Rightarrow> (Inr zero, s) | Some err \<Rightarrow> (Inl err, s)))"
  by pat_completeness auto
termination
  by (relation "measure (\<lambda>(ctx, m, z, fn, a, l, s). nat (m + 1 - a))") auto

declare retry_loop.simps [simp del]

definition withRetry ::
  "retry_ctx \<Rightarrow> int \<Rightarrow> 'a \<Rightarrow> (int \<Rightarrow> ('s, go_error, 'a) action) \<Rightarrow> ('s, go_error, 'a) action"
where
  "withRetry ctx maxRetries zero fn =
     retry_loop ctx (if maxRetries < 0 then 0 else maxRetries) zero fn 0 None"


section \<open>The backoff\<close>

definition baseBackoff :: duration where "baseBackoff = 10 * 1000000"
definition maxBackoff :: duration where "maxBackoff = 1000 * 1000000"
definition maxBackoffShift :: int where "maxBackoffShift = 20"

text \<open>
  \<open>baseBackoff << uint(attempt)\<close> on an \<open>int64\<close>: the conversion wraps a negative attempt round, and
  a shift past the width gives zero.
\<close>

definition shifted :: "int \<Rightarrow> 64 word" where
  "shifted attempt =
     (let n = attempt mod 2 ^ 64 in if 64 \<le> n then 0 else push_bit (nat n) (word_of_int baseBackoff))"

definition backoff_ceiling :: "int \<Rightarrow> int" where
  "backoff_ceiling attempt =
     (let a = (if attempt > maxBackoffShift then maxBackoffShift else attempt);
          ceiling = sint (shifted a)
      in if ceiling \<le> 0 \<or> ceiling > maxBackoff then maxBackoff else ceiling)"

text \<open>\<open>rand.Int64N(n)\<close> draws from \<open>[0, n)\<close> and panics when \<open>n <= 0\<close>: \<open>draw\<close> is the generator.\<close>

definition backoffFor :: "(int \<Rightarrow> int) \<Rightarrow> int \<Rightarrow> duration option" where
  "backoffFor draw attempt =
     (let n = backoff_ceiling attempt + 1 in if n \<le> 0 then None else Some (draw n))"


section \<open>Lemmas on the loop\<close>

text \<open>One turn of the loop: it ends here, or goes round once more after a retryable error.\<close>

lemma retry_loop_cases:
  assumes "a \<le> m"
  obtains (expired) err where "rc_err ctx a = Some err"
      "retry_loop ctx m zero fn a l s = (Inl (retryCtxErr err l), s)"
  | (result) x s' where "fn a s = (Inr x, s')" "retry_loop ctx m zero fn a l s = (Inr x, s')"
  | (fatal) err s' where "fn a s = (Inl err, s')" "\<not> isRetryable err"
      "retry_loop ctx m zero fn a l s = (Inl err, s')"
  | (exhausted) err s' where "fn a s = (Inl err, s')" "a = m"
      "retry_loop ctx m zero fn a l s = (Inl err, s')"
  | (interrupted) err cerr s' where "fn a s = (Inl err, s')" "rc_wait ctx a = Some cerr"
      "retry_loop ctx m zero fn a l s = (Inl (retryCtxErr cerr (Some err)), s')"
  | (again) err s' where "fn a s = (Inl err, s')" "isRetryable err" "a + 1 \<le> m"
      "retry_loop ctx m zero fn a l s = retry_loop ctx m zero fn (a + 1) (Some err) s'"
      "rc_wait ctx a = None"
proof -
  note eq = retry_loop.simps [of ctx m zero fn a l s]
  obtain r s' where f: "fn a s = (r, s')" by (cases "fn a s")
  show thesis
  proof (cases "rc_err ctx a")
    case (Some err)
    then show thesis using expired assms eq by simp
  next
    case None
    then show thesis
      using assms f eq result fatal exhausted interrupted again
      by (cases r; cases "rc_wait ctx a") (auto split: if_splits)
  qed
qed

text \<open>Induction over the attempts that are left.\<close>

lemma retry_induct [consumes 1, case_names step]:
  assumes "a \<le> m"
    and "\<And>a l s. a \<le> m \<Longrightarrow> (\<And>l' s'. a + 1 \<le> m \<Longrightarrow> P (a + 1) l' s') \<Longrightarrow> P a l s"
  shows "P (a :: int) l s"
  using assms(1)
proof (induction "nat (m - a)" arbitrary: a l s rule: less_induct)
  case less
  show ?case by (rule assms(2) [OF less.prems]) (use less.hyps in auto)
qed

context step_contract
begin

lemma obeys_retry_loop: "a \<le> m \<Longrightarrow> (\<And>k. obeys R (fn k)) \<Longrightarrow> R s (snd (retry_loop ctx m zero fn a l s))"
proof (induction a l s rule: retry_induct)
  case (step a l s)
  have fn: "R s s'" if "fn a s = (r, s')" for r s' using obeys_eqD [OF step(3) that] .
  from step(1) show ?case
  proof (cases rule: retry_loop_cases [where ctx = ctx and zero = zero and fn = fn and l = l and s = s])
    case (again err s')
    then show ?thesis using fn step(2) [OF again(3) step(3)] R_trans by metis
  qed (use fn R_refl in auto)
qed

lemma obeys_withRetry: "(\<And>k. obeys R (fn k)) \<Longrightarrow> obeys R (withRetry ctx m zero fn)"
  unfolding withRetry_def obeys_def by (auto intro!: obeys_retry_loop [unfolded obeys_def])

end

text \<open>
  A result of the loop is the result of its last call; what the calls before it did to the state is
  within any relation that calls which failed with a retryable error obey.
\<close>

context step_contract
begin

lemma retry_loop_success:
  assumes "a \<le> m" and "\<And>k s e s'. fn k s = (Inl e, s') \<Longrightarrow> isRetryable e \<Longrightarrow> R s s'"
    and "retry_loop ctx m zero fn a l s = (Inr x, s')"
  shows "\<exists>k s0. a \<le> k \<and> k \<le> m \<and> R s s0 \<and> fn k s0 = (Inr x, s')"
  using assms(1,3)
proof (induction a l s rule: retry_induct)
  case (step a l s)
  from step(1) show ?case
  proof (cases rule: retry_loop_cases [where ctx = ctx and zero = zero and fn = fn and l = l and s = s])
    case (result y s1)
    then show ?thesis using step(1,3) R_refl by (intro exI [of _ a] exI [of _ s]) simp
  next
    case (again err s1)
    have "retry_loop ctx m zero fn (a + 1) (Some err) s1 = (Inr x, s')"
      using step(3) again(4) by simp
    then obtain k s0 where k: "a + 1 \<le> k" "k \<le> m" "R s1 s0" "fn k s0 = (Inr x, s')"
      using step(2) [OF again(3)] by blast
    then have "R s s0" using assms(2) [OF again(1,2)] R_trans by blast
    then show ?thesis using k by (intro exI [of _ k] exI [of _ s0]) simp
  qed (use step in auto)
qed

lemma retry_loop_failure:
  assumes "a \<le> m" and "\<And>k s e s'. fn k s = (Inl e, s') \<Longrightarrow> R s s'"
    and "retry_loop ctx m zero fn a l s = (Inl e, s')"
  shows "R s s'"
  using assms(1,3)
proof (induction a l s rule: retry_induct)
  case (step a l s)
  from step(1) show ?case
  proof (cases rule: retry_loop_cases [where ctx = ctx and zero = zero and fn = fn and l = l and s = s])
    case (again err s1)
    then have "R s1 s'" using step(2) [OF again(3)] step(3) by metis
    then show ?thesis using assms(2) [OF again(1)] R_trans by blast
  qed (use step assms(2) R_refl in auto)
qed

end

text \<open>The calls, counted beside the state.\<close>

definition counted :: "(int \<Rightarrow> ('s, go_error, 'a) action) \<Rightarrow> int \<Rightarrow> ('s \<times> nat, go_error, 'a) action" where
  "counted fn k sc = (let (r, s') = fn k (fst sc) in (r, (s', snd sc + 1)))"

lemma counted_calls: "counted fn k sc = (r, sc') \<Longrightarrow> snd sc' = snd sc + 1"
  by (auto simp: counted_def Let_def split: prod.splits)

lemma retry_loop_calls:
  assumes "a \<le> m" and "retry_loop ctx m zero (counted fn) a l sc = (r, sc')"
  shows "snd sc' \<le> snd sc + nat (m - a + 1)"
  using assms
proof (induction a l sc rule: retry_induct)
  case (step a l sc)
  from step(1) show ?case
  proof (cases rule: retry_loop_cases [where ctx = ctx and zero = zero and fn = "counted fn" and l = l and s = sc])
    case (again err s1)
    then have "snd sc' \<le> snd s1 + nat (m - (a + 1) + 1)" using step(2) [OF again(3)] step(3) by simp
    then show ?thesis using counted_calls [OF again(1)] again(3) by linarith
  qed (use step(1,3) in \<open>auto dest!: counted_calls\<close>)
qed

text \<open>
  The attempts, in order: they are numbered from zero without a gap, the context had not ended in front of
  any of them, and it did not end during the sleep before the next one.
\<close>

definition traced :: "(int \<Rightarrow> ('s, go_error, 'a) action) \<Rightarrow> int \<Rightarrow> ('s \<times> int list, go_error, 'a) action" where
  "traced fn k sc = (let (r, s') = fn k (fst sc) in (r, (s', snd sc @ [k])))"

lemma traced_trace: "traced fn k sc = (r, sc') \<Longrightarrow> snd sc' = snd sc @ [k]"
  by (auto simp: traced_def Let_def split: prod.splits)

lemma retry_loop_expired:
  "a \<le> m \<Longrightarrow> rc_err ctx a = Some err \<Longrightarrow> retry_loop ctx m zero fn a l s = (Inl (retryCtxErr err l), s)"
  by (simp add: retry_loop.simps [of ctx m zero fn a l s])

lemma retry_loop_trace:
  assumes "a \<le> m" and "retry_loop ctx m zero (traced fn) a l sc = (r, sc')"
  shows "\<exists>b \<le> m. snd sc' = snd sc @ [a..b] \<and> (\<forall>k. a \<le> k \<and> k \<le> b \<longrightarrow> rc_err ctx k = None)
     \<and> (\<forall>k. a \<le> k \<and> k < b \<longrightarrow> rc_wait ctx k = None)"
  using assms
proof (induction a l sc rule: retry_induct)
  case (step a l sc)
  show ?case
  proof (cases "rc_err ctx a")
    case (Some err)
    then show ?thesis using step(1,3) by (intro exI [of _ "a - 1"]) (auto simp: retry_loop_expired)
  next
    case None
    have one: ?thesis if "snd sc' = snd sc @ [a]"
      using that step(1) None by (intro exI [of _ a]) auto
    from step(1) show ?thesis
    proof (cases rule: retry_loop_cases [where ctx = ctx and zero = zero and fn = "traced fn" and l = l and s = sc])
      case (again err s1)
      then obtain b where b: "b \<le> m" "snd sc' = snd s1 @ [a + 1..b]"
          "\<forall>k. a + 1 \<le> k \<and> k \<le> b \<longrightarrow> rc_err ctx k = None" "\<forall>k. a + 1 \<le> k \<and> k < b \<longrightarrow> rc_wait ctx k = None"
        using step(2) [OF again(3) step(3) [unfolded again(4)]] by blast
      show ?thesis
      proof (cases "a \<le> b")
        case True
        have "snd sc' = snd sc @ [a..b]"
          using traced_trace [OF again(1)] b(2) upto_rec1 [OF True] by simp
        moreover have "k = a \<or> a + 1 \<le> k" if "a \<le> k" for k :: int using that by auto
        ultimately show ?thesis using b None again(5) by (intro exI [of _ b]) metis
      next
        case False
        then show ?thesis using one traced_trace [OF again(1)] b(2) by simp
      qed
    qed (use one None step(3) in \<open>auto dest!: traced_trace\<close>)
  qed
qed

text \<open>A retryable error comes out only when every attempt was spent.\<close>

definition ctx_errors :: "retry_ctx \<Rightarrow> bool" where
  "ctx_errors ctx \<longleftrightarrow>
     (\<forall>k e. rc_err ctx k = Some e \<or> rc_wait ctx k = Some e \<longrightarrow> e = DeadlineExceeded \<or> e = ContextCanceled)"

lemma retryCtxErr_not_retryable:
  "e = DeadlineExceeded \<or> e = ContextCanceled \<Longrightarrow> \<not> isRetryable (retryCtxErr e l)"
  by (auto simp: retryCtxErr_def split: option.splits)

lemma retry_loop_exhausted:
  assumes "a \<le> m" and "ctx_errors ctx"
    and "retry_loop ctx m zero (counted fn) a l sc = (Inl e, sc')" and "isRetryable e"
  shows "snd sc' = snd sc + nat (m - a + 1)"
  using assms
proof (induction a l sc rule: retry_induct)
  case (step a l sc)
  from step(1) show ?case
  proof (cases rule: retry_loop_cases [where ctx = ctx and zero = zero and fn = "counted fn" and l = l and s = sc])
    case (expired err)
    then show ?thesis using step(3-5) retryCtxErr_not_retryable by (auto simp: ctx_errors_def)
  next
    case (interrupted err cerr s1)
    then show ?thesis using step(3-5) retryCtxErr_not_retryable by (fastforce simp: ctx_errors_def)
  next
    case (again err s1)
    then have "snd sc' = snd s1 + nat (m - (a + 1) + 1)" using step by simp
    then show ?thesis using counted_calls [OF again(1)] again(3) by linarith
  qed (use step in \<open>auto dest!: counted_calls\<close>)
qed


section \<open>Lemmas on the backoff\<close>

lemma shifted_small:
  assumes "0 \<le> a" and "a \<le> maxBackoffShift"
  shows "sint (shifted a) = baseBackoff * 2 ^ nat a"
proof -
  have a: "a mod 2 ^ 64 = a" "a < 64" using assms by (auto simp: maxBackoffShift_def)
  have bound: "baseBackoff * 2 ^ nat a < 2 ^ 63"
  proof -
    have "(2 :: int) ^ nat a \<le> 2 ^ 20" using assms by (intro power_increasing) (auto simp: maxBackoffShift_def)
    then show ?thesis by (simp add: baseBackoff_def)
  qed
  have "shifted a = word_of_int (baseBackoff * 2 ^ nat a)"
    using a by (simp add: shifted_def push_bit_eq_mult)
  then have "sint (shifted a) = signed_take_bit 63 (baseBackoff * 2 ^ nat a)"
    by (simp only: sint_sbintrunc') simp
  moreover have "signed_take_bit 63 (baseBackoff * 2 ^ nat a) = baseBackoff * 2 ^ nat a"
    using bound by (intro signed_take_bit_int_eq_self) (auto simp: baseBackoff_def intro: order_trans [of _ 0])
  ultimately show ?thesis by simp
qed

text \<open>The ceiling is the capped exponential, for every attempt: no shift overflows.\<close>

lemma capped_power: "maxBackoffShift < a \<Longrightarrow> maxBackoff < baseBackoff * 2 ^ nat a"
proof -
  assume "maxBackoffShift < a"
  then have "(2 :: int) ^ 20 \<le> 2 ^ nat a" by (intro power_increasing) (auto simp: maxBackoffShift_def)
  then show ?thesis by (simp add: maxBackoff_def baseBackoff_def)
qed

lemma backoff_ceiling_eq:
  assumes "0 \<le> a"
  shows "backoff_ceiling a = min (baseBackoff * 2 ^ nat a) maxBackoff"
proof (cases "a \<le> maxBackoffShift")
  case True
  have "0 < baseBackoff * 2 ^ nat a" by (simp add: baseBackoff_def)
  then show ?thesis using True by (simp add: backoff_ceiling_def Let_def shifted_small [OF assms True])
next
  case False
  have "sint (shifted maxBackoffShift) = baseBackoff * 2 ^ nat maxBackoffShift"
    by (rule shifted_small) (simp_all add: maxBackoffShift_def)
  then have "sint (shifted maxBackoffShift) > maxBackoff"
    by (simp add: maxBackoff_def baseBackoff_def maxBackoffShift_def)
  then show ?thesis using False capped_power [of a] by (simp add: backoff_ceiling_def Let_def)
qed

lemma backoff_ceiling_bounds: "0 < backoff_ceiling a" "backoff_ceiling a \<le> maxBackoff"
  by (auto simp: backoff_ceiling_def Let_def maxBackoff_def)

text \<open>The draw never panics and no sleep exceeds the ceiling.\<close>

lemma backoffFor_bounds:
  assumes "\<And>n. 0 < n \<Longrightarrow> 0 \<le> draw n \<and> draw n < n" and "0 \<le> attempt"
  shows "\<exists>t. backoffFor draw attempt = Some t \<and> 0 \<le> t \<and> t \<le> min (baseBackoff * 2 ^ nat attempt) maxBackoff"
proof -
  have pos: "0 < backoff_ceiling attempt + 1" using backoff_ceiling_bounds(1) [of attempt] by linarith
  then have "backoffFor draw attempt = Some (draw (backoff_ceiling attempt + 1))"
    by (simp add: backoffFor_def Let_def)
  moreover have "0 \<le> draw (backoff_ceiling attempt + 1)" "draw (backoff_ceiling attempt + 1) \<le> backoff_ceiling attempt"
    using assms(1) [OF pos] by auto
  ultimately show ?thesis using backoff_ceiling_eq [OF assms(2)] by simp
qed


section \<open>The clock of a request\<close>

text \<open>
  A context with a deadline ends at that instant. \<open>rk_check n\<close> is the clock when \<open>ctx.Err()\<close> is asked in
  front of attempt \<open>n\<close>, \<open>rk_sleep n\<close> when the \<open>select\<close> after it begins, and \<open>rk_draw n\<close> the generator then:
  the timer wins the \<open>select\<close> when it fires before the deadline.
\<close>

record retry_clock =
  rk_check :: "int \<Rightarrow> time"
  rk_sleep :: "int \<Rightarrow> time"
  rk_draw :: "int \<Rightarrow> int \<Rightarrow> int"

definition deadline_ctx :: "time \<Rightarrow> retry_clock \<Rightarrow> retry_ctx" where
  "deadline_ctx deadline clock =
     \<lparr>rc_err = (\<lambda>n. if deadline \<le> rk_check clock n then Some DeadlineExceeded else None),
      rc_wait = (\<lambda>n. case backoffFor (rk_draw clock n) n of
                       None \<Rightarrow> None
                     | Some t \<Rightarrow> if deadline \<le> rk_sleep clock n + t then Some DeadlineExceeded else None)\<rparr>"

end
