(* ===== verification/SeatCache.thy ===== *)
theory SeatCache
  imports Errors
begin

text \<open>
  The read-through cache of seat maps, \<open>internal/booking/seatcache.go\<close>. Times are nanoseconds of
  the process clock. The digest, the textual form of a time and the outcome of \<open>singleflight\<close> (whose
  source is not in the repository) are parameters: a caller either runs the flight itself or is
  handed the result of the flight it joined.
\<close>

section \<open>Types\<close>

record Seat =
  seat_SeatID :: string
  seat_Section :: string
  seat_Status :: string
  seat_HoldExpiresAt :: "time option"

record seatCacheEntry =
  sce_seats :: "Seat list"
  sce_version :: string
  sce_expiresAt :: time

type_synonym cache_items = "string \<rightharpoonup> seatCacheEntry"

definition seatCacheTTL :: duration where
  "seatCacheTTL = 1000000000"


section \<open>The version of a snapshot\<close>

text \<open>\<open>writeVersionString\<close>: the length in bytes, a colon, the bytes.\<close>

definition writeVersionString :: "string \<Rightarrow> string" where
  "writeVersionString value = show_nat (length value) @ '':'' @ value"

definition seat_fields :: "(time \<Rightarrow> string) \<Rightarrow> Seat \<Rightarrow> string list" where
  "seat_fields format seat =
     [seat_SeatID seat, seat_Section seat, seat_Status seat,
      (case seat_HoldExpiresAt seat of None \<Rightarrow> '''' | Some t \<Rightarrow> format t)]"

definition version_stream :: "(time \<Rightarrow> string) \<Rightarrow> string \<Rightarrow> Seat list \<Rightarrow> string" where
  "version_stream format matchID seats =
     writeVersionString matchID @ concat (map writeVersionString (concat (map (seat_fields format) seats)))"

definition seatSnapshotVersion :: "(string \<Rightarrow> string) \<Rightarrow> (time \<Rightarrow> string) \<Rightarrow> string \<Rightarrow> Seat list \<Rightarrow> string" where
  "seatSnapshotVersion digest format matchID seats = digest (version_stream format matchID seats)"


section \<open>Operations\<close>

definition newSeatCache :: cache_items where
  "newSeatCache = (\<lambda>_. None)"

definition cache_get :: "time \<Rightarrow> string \<Rightarrow> cache_items \<Rightarrow> seatCacheEntry option" where
  "cache_get now matchID c =
     (case c matchID of
        None \<Rightarrow> None
      | Some e \<Rightarrow> if now > sce_expiresAt e then None else Some e)"

definition cache_entry ::
  "(string \<Rightarrow> string) \<Rightarrow> (time \<Rightarrow> string) \<Rightarrow> duration \<Rightarrow> time \<Rightarrow> string \<Rightarrow> Seat list \<Rightarrow> seatCacheEntry"
where
  "cache_entry digest format ttl now matchID seats =
     \<lparr>sce_seats = seats, sce_version = seatSnapshotVersion digest format matchID seats,
      sce_expiresAt = now + ttl\<rparr>"

definition cache_put :: "string \<Rightarrow> seatCacheEntry \<Rightarrow> cache_items \<Rightarrow> cache_items" where
  "cache_put matchID entry c = c(matchID \<mapsto> entry)"

definition invalidate :: "string \<Rightarrow> cache_items \<Rightarrow> cache_items" where
  "invalidate matchID c = c(matchID := None)"

text \<open>
  \<open>ce_get\<close>, \<open>ce_recheck\<close> and \<open>ce_put\<close> are the clock at the three reads of it; \<open>ce_between\<close> is what
  other goroutines did to the cache before the flight; \<open>ce_joined\<close> is the result of the flight this
  caller joined, if it did; \<open>ce_ctx\<close> is the context's error when \<open>ctx.Done()\<close> won the \<open>select\<close>.
\<close>

record cache_env =
  ce_get :: time
  ce_between :: "cache_items \<Rightarrow> cache_items"
  ce_joined :: "(go_error + seatCacheEntry) option"
  ce_recheck :: time
  ce_put :: time
  ce_ctx :: "go_error option"

text \<open>The function the flight runs.\<close>

definition flight ::
  "(string \<Rightarrow> string) \<Rightarrow> (time \<Rightarrow> string) \<Rightarrow> duration \<Rightarrow> cache_env \<Rightarrow> string \<Rightarrow> go_error + Seat list
     \<Rightarrow> (cache_items, go_error, seatCacheEntry) action"
where
  "flight digest format ttl env matchID loaded c =
     (case cache_get (ce_recheck env) matchID c of
        Some entry \<Rightarrow> (Inr entry, c)
      | None \<Rightarrow>
          (case loaded of
             Inl err \<Rightarrow> (Inl err, c)
           | Inr seats \<Rightarrow>
               (let entry = cache_entry digest format ttl (ce_put env) matchID seats
                in (Inr entry, cache_put matchID entry c))))"

text \<open>A caller whose context ends stops waiting; the flight it started still fills the cache.\<close>

definition load ::
  "(string \<Rightarrow> string) \<Rightarrow> (time \<Rightarrow> string) \<Rightarrow> duration \<Rightarrow> cache_env \<Rightarrow> string \<Rightarrow> go_error + Seat list
     \<Rightarrow> (cache_items, go_error, seatCacheEntry) action"
where
  "load digest format ttl env matchID loaded c =
     (case cache_get (ce_get env) matchID c of
        Some entry \<Rightarrow> (Inr entry, c)
      | None \<Rightarrow>
          (let (res, c') =
             (case ce_joined env of
                Some shared \<Rightarrow> (shared, ce_between env c)
              | None \<Rightarrow> flight digest format ttl env matchID loaded (ce_between env c))
           in (case ce_ctx env of Some err \<Rightarrow> (Inl err, c') | None \<Rightarrow> (res, c'))))"


section \<open>The stream determines the snapshot\<close>

lemma writeVersionString_append:
  assumes "writeVersionString v @ r = writeVersionString v' @ r'"
  shows "v = v' \<and> r = r'"
proof -
  have len: "takeWhile (\<lambda>c. c \<noteq> CHR '':'') (writeVersionString x @ y) = show_nat (length x)" for x y
    using show_nat_no_sign [of "CHR '':''" "length x"] by (auto simp: writeVersionString_def takeWhile_tail)
  then have "show_nat (length v) = show_nat (length v')" using assms by metis
  then have "length v = length v'" by simp
  then show ?thesis using assms by (simp add: writeVersionString_def)
qed

lemma version_strings_inj:
  "concat (map writeVersionString xs) = concat (map writeVersionString ys) \<Longrightarrow> xs = ys"
proof (induction xs arbitrary: ys)
  case Nil
  then show ?case by (cases ys) (simp_all add: writeVersionString_def)
next
  case (Cons x xs)
  then obtain y ys' where "ys = y # ys'" by (cases ys) (simp_all add: writeVersionString_def)
  with Cons.prems have "x = y \<and> concat (map writeVersionString xs) = concat (map writeVersionString ys')"
    by (intro writeVersionString_append) simp
  with Cons.IH \<open>ys = y # ys'\<close> show ?case by blast
qed

lemma seat_fields_inj:
  assumes "inj format" and "\<And>t. format t \<noteq> ''''" and "seat_fields format a = seat_fields format b"
  shows "a = b"
proof -
  have "seat_HoldExpiresAt a = seat_HoldExpiresAt b"
    using assms(3) injD [OF assms(1)] assms(2) assms(2) [symmetric]
    by (auto simp: seat_fields_def split: option.splits)
  then show ?thesis using assms(3) by (cases a; cases b) (simp add: seat_fields_def)
qed

lemma all_fields_inj:
  assumes "inj format" and "\<And>t. format t \<noteq> ''''"
  shows "concat (map (seat_fields format) xs) = concat (map (seat_fields format) ys) \<Longrightarrow> xs = ys"
proof (induction xs arbitrary: ys)
  case Nil
  then show ?case by (cases ys) (auto simp: seat_fields_def)
next
  case (Cons x xs)
  then obtain y ys' where ys: "ys = y # ys'" by (cases ys) (auto simp: seat_fields_def)
  have "length (seat_fields format x) = length (seat_fields format y)" by (simp add: seat_fields_def)
  then have "seat_fields format x = seat_fields format y" "xs = ys'" using Cons ys by auto
  then show ?case using seat_fields_inj [OF assms] ys by blast
qed

lemma version_stream_inj:
  assumes "inj format" and "\<And>t. format t \<noteq> ''''"
    and "version_stream format m xs = version_stream format m' ys"
  shows "m = m' \<and> xs = ys"
  using writeVersionString_append [OF assms(3) [unfolded version_stream_def]] version_strings_inj
    all_fields_inj [OF assms(1,2)] by blast


section \<open>The contract of the cache\<close>

text \<open>
  What a client of the cache relies on: an entry that was put is found under its own key until it
  expires, other keys are not touched, and after an invalidation the key is not found.
\<close>

locale expiring_cache =
  fixes get :: "time \<Rightarrow> 'k \<Rightarrow> 'c \<Rightarrow> 'e option" and put :: "'k \<Rightarrow> 'e \<Rightarrow> 'c \<Rightarrow> 'c"
    and drop_key :: "'k \<Rightarrow> 'c \<Rightarrow> 'c" and expires :: "'e \<Rightarrow> time"
  assumes get_put: "get now k (put k e c) = (if now \<le> expires e then Some e else None)"
    and get_put_other: "k' \<noteq> k \<Longrightarrow> get now k' (put k e c) = get now k' c"
    and get_drop: "get now k (drop_key k c) = None"
    and get_drop_other: "k' \<noteq> k \<Longrightarrow> get now k' (drop_key k c) = get now k' c"
    and get_fresh: "get now k c = Some e \<Longrightarrow> now \<le> expires e"
begin

lemma get_put_Some: "get now k (put k e c) = Some e' \<Longrightarrow> e' = e \<and> now \<le> expires e"
  by (simp add: get_put split: if_splits)

lemma get_after_drop_put:
  "get now k' (put k e (drop_key k c)) = (if k' = k then (if now \<le> expires e then Some e else None) else get now k' c)"
  by (simp add: get_put get_put_other get_drop_other)

end

interpretation seat_cache: expiring_cache cache_get cache_put invalidate sce_expiresAt
  by unfold_locales (auto simp: cache_get_def cache_put_def invalidate_def split: option.splits if_splits)

text \<open>Every entry carries the version of the seats it holds.\<close>

definition versions_ok :: "(string \<Rightarrow> string) \<Rightarrow> (time \<Rightarrow> string) \<Rightarrow> cache_items \<Rightarrow> bool" where
  "versions_ok digest format c \<longleftrightarrow>
     (\<forall>m e. c m = Some e \<longrightarrow> sce_version e = seatSnapshotVersion digest format m (sce_seats e))"

lemma versions_ok_ops:
  "versions_ok dg fm c \<Longrightarrow> versions_ok dg fm (invalidate m c)"
  "versions_ok dg fm c \<Longrightarrow> versions_ok dg fm (cache_put m (cache_entry dg fm ttl now m seats) c)"
  "versions_ok dg fm c \<Longrightarrow> cache_get now m c = Some e \<Longrightarrow>
     sce_version e = seatSnapshotVersion dg fm m (sce_seats e)"
  by (auto simp: versions_ok_def invalidate_def cache_put_def cache_entry_def cache_get_def
      split: if_splits option.splits)

lemma load_hit: "cache_get (ce_get env) m c = Some e \<Longrightarrow> load dg fm ttl env m loaded c = (Inr e, c)"
  by (simp add: load_def)

lemma load_miss:
  assumes "cache_get (ce_get env) m c = None" and "ce_joined env = None" and "ce_ctx env = None"
    and "cache_get (ce_recheck env) m (ce_between env c) = None"
  shows "load dg fm ttl env m loaded c =
     (case loaded of
        Inl err \<Rightarrow> (Inl err, ce_between env c)
      | Inr seats \<Rightarrow> (let e = cache_entry dg fm ttl (ce_put env) m seats
                      in (Inr e, cache_put m e (ce_between env c))))"
  using assms by (simp add: load_def flight_def split: sum.splits)

lemma load_versions:
  assumes "versions_ok dg fm c" and "\<And>c. versions_ok dg fm c \<Longrightarrow> versions_ok dg fm (ce_between env c)"
    and "\<And>e. ce_joined env = Some (Inr e) \<Longrightarrow> sce_version e = seatSnapshotVersion dg fm m (sce_seats e)"
    and "load dg fm ttl env m loaded c = (r, c')"
  shows "versions_ok dg fm c'" and "\<And>e. r = Inr e \<Longrightarrow> sce_version e = seatSnapshotVersion dg fm m (sce_seats e)"
  using assms versions_ok_ops(2) [OF assms(2) [OF assms(1)]] versions_ok_ops(3) [OF assms(1)]
    versions_ok_ops(3) [OF assms(2) [OF assms(1)]]
  by (auto simp: load_def flight_def Let_def cache_entry_def split: option.splits sum.splits prod.splits)

end
