(* ===== verification/Service.thy ===== *)
theory Service
  imports StoreSystem History Retry SeatCache
begin

text \<open>
  The booking service, \<open>internal/booking\<close>: every operation runs the store under the request's
  deadline, the retried ones within \<open>withRetry\<close>, and drops the cached seat map of the match it
  changed. The state is the database with the process's cache; what other goroutines do to the
  cache while the store runs is a parameter.
\<close>

section \<open>Types\<close>

record Hold =
  ho_ID :: int
  ho_MatchID :: string
  ho_SeatID :: string
  ho_BuyerID :: string
  ho_Status :: string
  ho_HoldExpiresAt :: "time option"

record Booking =
  bo_ID :: int
  bo_MatchID :: string
  bo_SeatID :: string
  bo_Status :: string
  bo_ConfirmedAt :: "time option"

record BookingSummary =
  bs_ID :: int
  bs_MatchID :: string
  bs_SeatID :: string
  bs_Status :: string
  bs_ConfirmedAt :: "time option"
  bs_CancelledAt :: "time option"
  bs_RefundStatus :: "string option"

record Service =
  svc_holdTTL :: duration
  svc_requestTimeout :: duration
  svc_maxRetries :: int
  svc_digest :: "string \<Rightarrow> string"
  svc_format :: "time \<Rightarrow> string"

definition NewService ::
  "(string \<Rightarrow> string) \<Rightarrow> (time \<Rightarrow> string) \<Rightarrow> duration \<Rightarrow> duration \<Rightarrow> int \<Rightarrow> Service"
where
  "NewService digest format holdTTL requestTimeout maxRetries =
     \<lparr>svc_holdTTL = holdTTL, svc_requestTimeout = requestTimeout, svc_maxRetries = maxRetries,
      svc_digest = digest, svc_format = format\<rparr>"

text \<open>The deadline \<open>context.WithTimeout\<close> sets: the parent's, when that is earlier.\<close>

definition withDeadline :: "Service \<Rightarrow> time \<Rightarrow> time option \<Rightarrow> time" where
  "withDeadline svc now parent =
     (let deadline = now + svc_requestTimeout svc
      in case parent of None \<Rightarrow> deadline | Some earlier \<Rightarrow> min earlier deadline)"

type_synonym svc_state = "db \<times> cache_items"

text \<open>The request's context, and the other goroutines' use of the cache until the store call returned. The context is
  the one the handler passes, with whatever deadline and cancellation; that of a request whose deadline is
  \<open>withDeadline\<close> is one of them (\<open>deadline_ctx\<close>).\<close>

record service_env =
  sv_ctx :: retry_ctx
  sv_cache :: "cache_items \<Rightarrow> cache_items"

definition hold_of_row :: "BookingRow \<Rightarrow> Hold" where
  "hold_of_row r =
     \<lparr>ho_ID = br_ID r, ho_MatchID = br_MatchID r, ho_SeatID = br_SeatID r, ho_BuyerID = br_BuyerID r,
      ho_Status = br_Status r, ho_HoldExpiresAt = br_HoldExpiresAt r\<rparr>"

definition booking_of_row :: "BookingRow \<Rightarrow> Booking" where
  "booking_of_row r =
     \<lparr>bo_ID = br_ID r, bo_MatchID = br_MatchID r, bo_SeatID = br_SeatID r, bo_Status = br_Status r,
      bo_ConfirmedAt = br_ConfirmedAt r\<rparr>"

definition cancelled_of_row :: "BookingRow \<Rightarrow> Booking" where
  "cancelled_of_row r =
     \<lparr>bo_ID = br_ID r, bo_MatchID = br_MatchID r, bo_SeatID = br_SeatID r, bo_Status = br_Status r,
      bo_ConfirmedAt = None\<rparr>"

definition zero_hold :: Hold where
  "zero_hold = \<lparr>ho_ID = 0, ho_MatchID = '''', ho_SeatID = '''', ho_BuyerID = '''', ho_Status = '''',
                ho_HoldExpiresAt = None\<rparr>"

definition zero_booking :: Booking where
  "zero_booking = \<lparr>bo_ID = 0, bo_MatchID = '''', bo_SeatID = '''', bo_Status = '''', bo_ConfirmedAt = None\<rparr>"


section \<open>Operations that write\<close>

definition store_hold ::
  "Service \<Rightarrow> (int \<Rightarrow> hold_env) \<Rightarrow> string \<Rightarrow> string \<Rightarrow> string \<Rightarrow> string \<Rightarrow> int \<Rightarrow> (db, go_error, Hold) action"
where
  "store_hold svc envs matchID seatID buyerID key n =
     bindA (PlaceHoldWithKey (envs n) matchID seatID buyerID (svc_holdTTL svc) key) (\<lambda>r. returnA (hold_of_row r))"

definition service_placeHold ::
  "Service \<Rightarrow> service_env \<Rightarrow> (int \<Rightarrow> hold_env) \<Rightarrow> string \<Rightarrow> string \<Rightarrow> string \<Rightarrow> string
     \<Rightarrow> (svc_state, go_error, Hold) action"
where
  "service_placeHold svc sv envs matchID seatID buyerID key st =
     (case withRetry (sv_ctx sv) (svc_maxRetries svc) zero_hold
             (store_hold svc envs matchID seatID buyerID key) (fst st) of
        (Inr h, d') \<Rightarrow> (Inr h, (d', invalidate matchID (sv_cache sv (snd st))))
      | (Inl err, d') \<Rightarrow> (Inl err, (d', sv_cache sv (snd st))))"

definition service_PlaceHold where
  "service_PlaceHold svc sv envs matchID seatID buyerID =
     service_placeHold svc sv envs matchID seatID buyerID ''''"

definition service_PlaceHoldWithKey where
  "service_PlaceHoldWithKey svc sv envs matchID seatID buyerID key =
     service_placeHold svc sv envs matchID seatID buyerID key"

text \<open>\<open>ReleaseHold\<close> is not retried.\<close>

definition service_ReleaseHold ::
  "service_env \<Rightarrow> fault \<Rightarrow> time \<Rightarrow> int \<Rightarrow> string \<Rightarrow> (svc_state, go_error, unit) action"
where
  "service_ReleaseHold sv f now holdID buyerID st =
     (case ReleaseHold f now holdID buyerID (fst st) of
        (Inl err, d') \<Rightarrow> (Inl err, (d', sv_cache sv (snd st)))
      | (Inr matchID, d') \<Rightarrow> (Inr (), (d', invalidate matchID (sv_cache sv (snd st)))))"

definition store_confirm :: "(int \<Rightarrow> fault \<times> time) \<Rightarrow> int \<Rightarrow> string \<Rightarrow> int \<Rightarrow> (db, go_error, Booking) action" where
  "store_confirm envs holdID buyerID n =
     bindA (ConfirmHold (fst (envs n)) (snd (envs n)) holdID buyerID) (\<lambda>r. returnA (booking_of_row r))"

definition service_ConfirmHold ::
  "Service \<Rightarrow> service_env \<Rightarrow> (int \<Rightarrow> fault \<times> time) \<Rightarrow> int \<Rightarrow> string \<Rightarrow> (svc_state, go_error, Booking) action"
where
  "service_ConfirmHold svc sv envs holdID buyerID st =
     (case withRetry (sv_ctx sv) (svc_maxRetries svc) zero_booking (store_confirm envs holdID buyerID) (fst st) of
        (Inr b, d') \<Rightarrow> (Inr b, (d', invalidate (bo_MatchID b) (sv_cache sv (snd st))))
      | (Inl err, d') \<Rightarrow> (Inl err, (d', sv_cache sv (snd st))))"

definition store_cancel :: "(int \<Rightarrow> cancel_env) \<Rightarrow> int \<Rightarrow> string \<Rightarrow> int \<Rightarrow> (db, go_error, Booking) action" where
  "store_cancel envs bookingID buyerID n =
     bindA (CancelBooking (envs n) bookingID buyerID) (\<lambda>r. returnA (cancelled_of_row r))"

definition service_CancelBooking ::
  "Service \<Rightarrow> service_env \<Rightarrow> (int \<Rightarrow> cancel_env) \<Rightarrow> int \<Rightarrow> string \<Rightarrow> (svc_state, go_error, Booking) action"
where
  "service_CancelBooking svc sv envs bookingID buyerID st =
     (case withRetry (sv_ctx sv) (svc_maxRetries svc) zero_booking (store_cancel envs bookingID buyerID) (fst st) of
        (Inr b, d') \<Rightarrow> (Inr b, (d', invalidate (bo_MatchID b) (sv_cache sv (snd st))))
      | (Inl err, d') \<Rightarrow> (Inl err, (d', sv_cache sv (snd st))))"


section \<open>Operations that read\<close>

definition seat_of_status :: "SeatStatus \<Rightarrow> Seat" where
  "seat_of_status r =
     \<lparr>seat_SeatID = ss_SeatID r, seat_Section = ss_Section r, seat_Status = ss_Status r,
      seat_HoldExpiresAt = ss_HoldExpiresAt r\<rparr>"

definition load_seats :: "fault \<Rightarrow> collation \<Rightarrow> time \<Rightarrow> string \<Rightarrow> db \<Rightarrow> go_error + Seat list" where
  "load_seats f coll now matchID d =
     (case ListSeats f coll now matchID d of
        Inl err \<Rightarrow> Inl err
      | Inr rows \<Rightarrow> Inr (map seat_of_status rows))"

definition service_ListSeatsVersioned ::
  "Service \<Rightarrow> cache_env \<Rightarrow> fault \<Rightarrow> collation \<Rightarrow> time \<Rightarrow> string \<Rightarrow> (svc_state, go_error, Seat list \<times> string) action"
where
  "service_ListSeatsVersioned svc cenv f coll now matchID st =
     (case load (svc_digest svc) (svc_format svc) seatCacheTTL cenv matchID
             (load_seats f coll now matchID (fst st)) (snd st) of
        (Inl err, c') \<Rightarrow> (Inl err, (fst st, c'))
      | (Inr entry, c') \<Rightarrow> (Inr (sce_seats entry, sce_version entry), (fst st, c')))"

definition service_ListSeats ::
  "Service \<Rightarrow> cache_env \<Rightarrow> fault \<Rightarrow> collation \<Rightarrow> time \<Rightarrow> string \<Rightarrow> (svc_state, go_error, Seat list) action"
where
  "service_ListSeats svc cenv f coll now matchID =
     bindA (service_ListSeatsVersioned svc cenv f coll now matchID) (\<lambda>(seats, _). returnA seats)"

definition summary_of_row :: "BookingSummaryRow \<Rightarrow> BookingSummary" where
  "summary_of_row r =
     \<lparr>bs_ID = sr_ID r, bs_MatchID = sr_MatchID r, bs_SeatID = sr_SeatID r, bs_Status = sr_Status r,
      bs_ConfirmedAt = sr_ConfirmedAt r, bs_CancelledAt = sr_CancelledAt r,
      bs_RefundStatus = sr_RefundStatus r\<rparr>"

definition service_ListBookings :: "fault \<Rightarrow> string \<Rightarrow> string \<Rightarrow> db \<Rightarrow> go_error + BookingSummary list" where
  "service_ListBookings f matchID buyerID d =
     (case ListBookings f matchID buyerID d of
        Inl err \<Rightarrow> Inl err
      | Inr rows \<Rightarrow> Inr (map summary_of_row rows))"


section \<open>The store's contracts lift to the service\<close>

text \<open>
  What a client of the store relies on is weaker than what its statements obey: a relation that each
  whole call obeys. Both the contracts of the statements and the runs of the system provide it.
\<close>

locale hold_calls = step_contract R for R :: "db \<Rightarrow> db \<Rightarrow> bool" +
  assumes placeHold_R: "env_obeys R env \<Longrightarrow> obeys R (placeHold env m s b ttl key)"
    and ConfirmHold_R: "obeys R (ConfirmHold f now i b)"
    and ReleaseHold_R: "obeys R (ReleaseHold f now i b)"

locale request_contract = hold_calls R for R :: "db \<Rightarrow> db \<Rightarrow> bool" +
  assumes CancelBooking_R: "obeys R (CancelBooking cenv i b)"

sublocale hold_contract \<subseteq> hold_calls R
  by unfold_locales (rule obeys_placeHold obeys_ConfirmHold obeys_ReleaseHold; assumption?)+

sublocale store_contract \<subseteq> request_contract R
  by unfold_locales (rule obeys_CancelBooking)

interpretation runs: request_contract client_run
proof unfold_locales
  show "obeys client_run (placeHold env m s b ttl key)" if "env_obeys client_run env" for env m s b ttl key
    using placeHold_runs [OF that] by (simp add: obeys_def)
qed (auto simp: obeys_def intro: client_run_intros client_step.intros)

context hold_calls
begin

lemma R_service_placeHold:
  assumes "\<And>n. env_obeys R (envs n)"
  shows "R (fst st) (fst (snd (service_placeHold svc sv envs m s b key st)))"
proof -
  have "obeys R (withRetry (sv_ctx sv) (svc_maxRetries svc) zero_hold (store_hold svc envs m s b key))"
    unfolding store_hold_def PlaceHoldWithKey_def
    by (intro obeys_withRetry obeys_intros placeHold_R assms)
  from obeysD [OF this] show ?thesis
    by (auto simp: service_placeHold_def split: prod.splits sum.splits) (metis snd_conv)+
qed

lemma R_service_ConfirmHold: "R (fst st) (fst (snd (service_ConfirmHold svc sv envs i b st)))"
proof -
  have "obeys R (withRetry (sv_ctx sv) (svc_maxRetries svc) zero_booking (store_confirm envs i b))"
    unfolding store_confirm_def by (intro obeys_withRetry obeys_intros ConfirmHold_R)
  from obeysD [OF this] show ?thesis
    by (auto simp: service_ConfirmHold_def split: prod.splits sum.splits) (metis snd_conv)+
qed

lemma R_service_ReleaseHold: "R (fst st) (fst (snd (service_ReleaseHold sv f now i b st)))"
  using obeysD [OF ReleaseHold_R]
  by (auto simp: service_ReleaseHold_def split: prod.splits sum.splits) (metis snd_conv)+

end

context request_contract
begin

lemma R_service_CancelBooking: "R (fst st) (fst (snd (service_CancelBooking svc sv envs i b st)))"
proof -
  have "obeys R (withRetry (sv_ctx sv) (svc_maxRetries svc) zero_booking (store_cancel envs i b))"
    unfolding store_cancel_def by (intro obeys_withRetry obeys_intros CancelBooking_R)
  from obeysD [OF this] show ?thesis
    by (auto simp: service_CancelBooking_def split: prod.splits sum.splits) (metis snd_conv)+
qed

end

text \<open>A success of the service is a success of its last store call, and drops the match from the cache.\<close>

lemma service_Inr:
  "service_placeHold svc sv envs m s b key st = (Inr h, (d', c')) \<longleftrightarrow>
     withRetry (sv_ctx sv) (svc_maxRetries svc) zero_hold (store_hold svc envs m s b key) (fst st) = (Inr h, d')
     \<and> c' = invalidate m (sv_cache sv (snd st))"
  "service_ConfirmHold svc sv cenvs i b st = (Inr bk, (d', c')) \<longleftrightarrow>
     withRetry (sv_ctx sv) (svc_maxRetries svc) zero_booking (store_confirm cenvs i b) (fst st) = (Inr bk, d')
     \<and> c' = invalidate (bo_MatchID bk) (sv_cache sv (snd st))"
  "service_CancelBooking svc sv xenvs i b st = (Inr bk, (d', c')) \<longleftrightarrow>
     withRetry (sv_ctx sv) (svc_maxRetries svc) zero_booking (store_cancel xenvs i b) (fst st) = (Inr bk, d')
     \<and> c' = invalidate (bo_MatchID bk) (sv_cache sv (snd st))"
  "service_ReleaseHold sv f now i b st = (Inr (), (d', c')) \<longleftrightarrow>
     (\<exists>m. ReleaseHold f now i b (fst st) = (Inr m, d') \<and> c' = invalidate m (sv_cache sv (snd st)))"
  by (auto simp: service_placeHold_def service_ConfirmHold_def service_CancelBooking_def service_ReleaseHold_def
      split: prod.split sum.split)

text \<open>The match such a result names is the match of the booking, as the tables have it afterwards.\<close>

definition booking_in :: "string \<Rightarrow> int \<Rightarrow> db \<Rightarrow> bool" where
  "booking_in m i d \<longleftrightarrow> (\<exists>r \<in> set (bookings d). bk_id r = i \<and> bk_match_id r = m)"

lemma booking_in_unique: "schema_inv d \<Longrightarrow> booking_in m i d \<Longrightarrow> booking_in m' i d \<Longrightarrow> m' = m"
  using distinct_key_eq [OF schema_inv_bk_id] by (fastforce simp: booking_in_def)

lemma update_returning_row:
  assumes "update_bookings_returning P f d = (Inr r, d')"
  shows "r \<in> set (bookings d') \<and> (\<exists>b. P b \<and> r = f b)"
proof -
  have "bookings d' = update_where P f (bookings d)" and "\<exists>b rest. filter P (bookings d) = b # rest \<and> r = f b"
    using assms
    by (auto simp: update_bookings_returning_def update_bookings_def write_bookings_def split: option.splits list.splits)
  then show ?thesis by (auto simp: set_update_where filter_eq_Cons_iff)
qed

lemma ConfirmHold_booking_in: "ConfirmHold f now i b d = (Inr row, d') \<Longrightarrow> booking_in (br_MatchID row) i d'"
  by (auto simp: ConfirmHold_def withFault_Inr sql_confirm_hold_def booking_in_def
      split: prod.splits sum.splits if_splits dest!: update_returning_row) (metis confirm_row_simps(1))

lemma ReleaseHold_booking_in: "ReleaseHold f now i b d = (Inr m, d') \<Longrightarrow> booking_in m i d'"
  by (auto simp: ReleaseHold_def withFault_Inr sql_release_hold_def booking_in_def
      split: prod.splits sum.splits if_splits dest!: update_returning_row) (metis cancel_row_simps(1))

lemma CancelBooking_booking_in: "CancelBooking env i b d = (Inr row, d') \<Longrightarrow> booking_in (br_MatchID row) i d'"
  by (auto simp: CancelBooking_def in_tx_Inr cancel_body_def Let_def bindA_Inr_iff withFault_Inr sql_cancel_booking_def
      insertOutboxEvent_def sql_insert_refund_def sql_insert_outbox_event_def returnA_def booking_in_def
      split: if_splits dest!: update_returning_row) (metis cancel_row_simps(1))

lemma withRetry_Inr:
  assumes "withRetry ctx m zero fn s = (Inr x, s')"
  shows "\<exists>k s0. fn k s0 = (Inr x, s')"
proof -
  have "0 \<le> (if m < 0 then 0 else m)" by simp
  from keep.retry_loop_success [where I = "\<lambda>_. True", OF this _ assms [unfolded withRetry_def]] show ?thesis by blast
qed

lemma service_booking_in:
  "service_ConfirmHold svc sv cenvs i b st = (Inr bk, (d', c')) \<Longrightarrow> booking_in (bo_MatchID bk) i d'"
  "service_CancelBooking svc sv xenvs i b st = (Inr bk, (d', c')) \<Longrightarrow> booking_in (bo_MatchID bk) i d'"
  by (auto simp: service_Inr store_confirm_def store_cancel_def bindA_Inr_iff returnA_def booking_of_row_def cancelled_of_row_def
      dest!: withRetry_Inr ConfirmHold_booking_in CancelBooking_booking_in)

end
