(* ===== verification/Delivery.thy ===== *)
theory Delivery
  imports Worker
begin

text \<open>
  The header logic of \<open>internal/httpapi/delivery.go\<close>: entity tags, the negotiation of gzip and the
  \<open>Vary\<close> header. Header values are ASCII text; \<open>strconv.ParseFloat\<close> is a parameter that says of a
  quality value whether it is positive (\<open>None\<close> when it does not parse), the only thing the code
  asks of it.
\<close>

section \<open>Strings\<close>

definition is_space :: "char \<Rightarrow> bool" where
  "is_space c \<longleftrightarrow> of_char c \<in> set [9, 10, 11, 12, 13, 32 :: nat]"

definition trimSpace :: "string \<Rightarrow> string" where
  "trimSpace s = rev (dropWhile is_space (rev (dropWhile is_space s)))"

text \<open>\<open>strings.Split\<close> at a one-character separator: never empty.\<close>

fun splitOn :: "char \<Rightarrow> string \<Rightarrow> string list" where
  "splitOn sep [] = [[]]"
| "splitOn sep (c # cs) =
     (if c = sep then [] # splitOn sep cs
      else (case splitOn sep cs of [] \<Rightarrow> [[c]] | w # ws \<Rightarrow> (c # w) # ws))"

definition has_prefix :: "string \<Rightarrow> string \<Rightarrow> bool" where
  "has_prefix s p \<longleftrightarrow> take (length p) s = p"

text \<open>\<open>strings.SplitN(s, "=", 2)\<close>: two parts when the separator occurs, one otherwise.\<close>

definition split2 :: "char \<Rightarrow> string \<Rightarrow> (string \<times> string) option" where
  "split2 sep s =
     (if sep \<in> set s
      then Some (takeWhile (\<lambda>c. c \<noteq> sep) s, tl (dropWhile (\<lambda>c. c \<noteq> sep) s))
      else None)"


section \<open>Headers\<close>

text \<open>\<open>http.Header\<close>: the values of a canonical name, in the order they were added.\<close>

type_synonym header = "string \<Rightarrow> string list"

definition header_set :: "string \<Rightarrow> string \<Rightarrow> header \<Rightarrow> header" where
  "header_set k v h = h(k := [v])"

definition header_get :: "string \<Rightarrow> header \<Rightarrow> string" where
  "header_get k h = (case h k of [] \<Rightarrow> '''' | v # _ \<Rightarrow> v)"

definition header_add :: "string \<Rightarrow> string \<Rightarrow> header \<Rightarrow> header" where
  "header_add k v h = h(k := h k @ [v])"

definition header_del :: "string \<Rightarrow> header \<Rightarrow> header" where
  "header_del k h = h(k := [])"

definition vary_tokens :: "header \<Rightarrow> string list" where
  "vary_tokens h = map trimSpace (concat (map (splitOn CHR '','') (h ''Vary'')))"

definition addVary :: "string \<Rightarrow> header \<Rightarrow> header" where
  "addVary value h =
     (if list_ex (\<lambda>token. fold_equal token value) (vary_tokens h) then h else header_add ''Vary'' value h)"


section \<open>Entity tags\<close>

definition opaqueETag :: "string \<Rightarrow> string" where
  "opaqueETag value =
     (let v = trimSpace value
      in if length v \<ge> 2 \<and> fold_equal (take 2 v) ''W/'' then trimSpace (drop 2 v) else v)"

definition etagMatches :: "string \<Rightarrow> string \<Rightarrow> bool" where
  "etagMatches ifNoneMatch current =
     (let cur = opaqueETag current
      in list_ex (\<lambda>candidate. let c = trimSpace candidate
                              in c = ''*'' \<or> (opaqueETag c = cur \<and> cur \<noteq> ''''))
           (splitOn CHR '','' ifNoneMatch))"


section \<open>gzip\<close>

definition statusAllowsBody :: "int \<Rightarrow> bool" where
  "statusAllowsBody status \<longleftrightarrow> status \<ge> 200 \<and> status \<noteq> 204 \<and> status \<noteq> 304"

definition compressibleContentType :: "string \<Rightarrow> bool" where
  "compressibleContentType contentType =
     (let t = map lower_ascii contentType
      in has_prefix t ''application/json'' \<or> has_prefix t ''application/javascript'' \<or> has_prefix t ''text/html'')"

text \<open>The quality of one element: the last \<open>q\<close> parameter decides, an unparseable one counts as 0.\<close>

definition quality_positive :: "(string \<Rightarrow> bool option) \<Rightarrow> string list \<Rightarrow> bool" where
  "quality_positive parseFloat parameters =
     foldl (\<lambda>q parameter.
        case split2 CHR ''='' (trimSpace parameter) of
          None \<Rightarrow> q
        | Some (k, v) \<Rightarrow>
            if \<not> fold_equal k ''q'' then q
            else (case parseFloat v of None \<Rightarrow> False | Some pos \<Rightarrow> pos)) True parameters"

fun accepts_parts :: "(string \<Rightarrow> bool option) \<Rightarrow> bool \<Rightarrow> string list \<Rightarrow> bool" where
  "accepts_parts parseFloat wildcard [] = wildcard"
| "accepts_parts parseFloat wildcard (part # parts) =
     (let parameters = splitOn CHR '';'' part;
          encoding = map lower_ascii (trimSpace (hd parameters));
          quality = quality_positive parseFloat (tl parameters)
      in if encoding = ''gzip'' then quality
         else accepts_parts parseFloat (if encoding = ''*'' then quality else wildcard) parts)"

definition acceptsGzip :: "(string \<Rightarrow> bool option) \<Rightarrow> string \<Rightarrow> bool" where
  "acceptsGzip parseFloat header = accepts_parts parseFloat False (splitOn CHR '','' header)"


section \<open>Lemmas\<close>

lemma splitOn_nonempty [simp]: "splitOn sep s \<noteq> []"
  by (cases s) (auto split: list.splits)

lemma splitOn_no_sep: "sep \<notin> set s \<Longrightarrow> splitOn sep s = [s]"
  by (induction s) auto

lemma splitOn_append: "sep \<notin> set w \<Longrightarrow> splitOn sep (w @ sep # rest) = w # splitOn sep rest"
  by (induction w) auto

lemma trimSpace_id:
  assumes "s \<noteq> []" and "\<not> is_space (hd s)" and "\<not> is_space (last s)"
  shows "trimSpace s = s"
proof -
  have "dropWhile is_space s = s" using assms(1,2) by (cases s) auto
  moreover have "dropWhile is_space (rev s) = rev s" using assms(1,3) by (cases s rule: rev_cases) auto
  ultimately show ?thesis by (simp add: trimSpace_def)
qed

lemma fold_equal_refl [simp]: "fold_equal s s"
  by (simp add: fold_equal_def)

lemma addVary_present:
  assumes "CHR '','' \<notin> set v" and "trimSpace v = v"
  shows "list_ex (\<lambda>token. fold_equal token v) (vary_tokens (addVary v h))"
  using assms by (auto simp: addVary_def header_add_def vary_tokens_def splitOn_no_sep list_ex_iff)

text \<open>A weak tag, \<open>W/"..."\<close>, and its opaque part. The tags the program makes are all of this form.\<close>

definition weak_tag :: "string \<Rightarrow> string" where
  "weak_tag t = ''W/'' @ [CHR 0x22] @ t @ [CHR 0x22]"

text \<open>The tag of a seat map, \<open>W/"seats-<version>"\<close>.\<close>

definition seats_etag :: "string \<Rightarrow> string" where
  "seats_etag version = ''W/'' @ [CHR 0x22] @ ''seats-'' @ version @ [CHR 0x22]"

lemma seats_etag_weak: "seats_etag v = weak_tag (''seats-'' @ v)"
  by (simp add: seats_etag_def weak_tag_def)

lemma quoted_not_space: "\<not> is_space (CHR 0x22)" "\<not> is_space (CHR ''W'')"
  by (simp_all add: is_space_def)

lemma trimSpace_weak_tag: "trimSpace (weak_tag t) = weak_tag t"
  by (rule trimSpace_id) (simp_all add: weak_tag_def quoted_not_space)

lemma opaque_weak_tag: "opaqueETag (weak_tag t) = [CHR 0x22] @ t @ [CHR 0x22]"
proof -
  have "trimSpace ([CHR 0x22] @ t @ [CHR 0x22]) = [CHR 0x22] @ t @ [CHR 0x22]"
    by (rule trimSpace_id) (simp_all add: quoted_not_space)
  then show ?thesis using trimSpace_weak_tag by (simp add: opaqueETag_def weak_tag_def numeral_2_eq_2)
qed

lemma etagMatches_weak:
  assumes "CHR '','' \<notin> set t'"
  shows "etagMatches (weak_tag t') (weak_tag t) \<longleftrightarrow> t' = t"
proof -
  have "splitOn CHR '','' (weak_tag t') = [weak_tag t']"
    using assms by (intro splitOn_no_sep) (simp add: weak_tag_def)
  moreover have "weak_tag t' \<noteq> ''*''" by (simp add: weak_tag_def)
  ultimately show ?thesis by (simp add: etagMatches_def opaque_weak_tag trimSpace_weak_tag Let_def)
qed

lemma etagMatches_single:
  assumes "CHR '','' \<notin> set v'"
  shows "etagMatches (seats_etag v') (seats_etag v) \<longleftrightarrow> v' = v"
  unfolding seats_etag_weak using assms by (subst etagMatches_weak) auto

end
