(* ===== verification/Config.thy ===== *)
theory Config
  imports Errors "HOL-Library.Word"
begin

text \<open>
  \<open>internal/config/config.go\<close>: the environment variables, their fallbacks and the validation that
  stops the process from starting. \<open>os.Getenv\<close> is a function from names to values (empty when
  unset) and \<open>time.ParseDuration\<close> a parameter; \<open>strconv.Atoi\<close> and \<open>strconv.ParseBool\<close> are modelled.
\<close>

section \<open>Parsing\<close>

definition is_digit :: "char \<Rightarrow> bool" where
  "is_digit c \<longleftrightarrow> 48 \<le> (of_char c :: nat) \<and> (of_char c :: nat) \<le> 57"

text \<open>\<open>strconv.Atoi\<close>, and \<open>strconv.ParseInt(s, 10, 64)\<close>: an optional sign, digits, the range of \<open>int64\<close>.\<close>

definition parse_int64 :: "string \<Rightarrow> int option" where
  "parse_int64 v =
     (let (neg, ds) = (case v of
            [] \<Rightarrow> (False, [])
          | c # cs \<Rightarrow> if c = CHR ''-'' then (True, cs) else if c = CHR ''+'' then (False, cs) else (False, v))
      in if ds = [] \<or> \<not> list_all is_digit ds then None
         else let n = (if neg then - int (read_nat ds) else int (read_nat ds))
              in if min_int64 \<le> n \<and> n \<le> max_int64 then Some n else None)"

definition parse_bool :: "string \<Rightarrow> bool option" where
  "parse_bool v =
     (if v \<in> set [''1'', ''t'', ''T'', ''true'', ''TRUE'', ''True''] then Some True
      else if v \<in> set [''0'', ''f'', ''F'', ''false'', ''FALSE'', ''False''] then Some False
      else None)"


section \<open>Config\<close>

record Config =
  DatabaseURL :: string
  HoldTTL :: duration
  PoolMaxConns :: int
  RequestTimeout :: duration
  OutboxBatchSize :: int
  MaxRetries :: int
  RateLimitEnabled :: bool

type_synonym environment = "string \<Rightarrow> string"

definition getEnv :: "environment \<Rightarrow> string \<Rightarrow> string \<Rightarrow> string" where
  "getEnv env key fallback = (if env key \<noteq> '''' then env key else fallback)"

definition getParsed :: "(string \<Rightarrow> 'a option) \<Rightarrow> environment \<Rightarrow> string \<Rightarrow> 'a \<Rightarrow> 'a" where
  "getParsed parse env key fallback =
     (if env key \<noteq> '''' then (case parse (env key) of Some x \<Rightarrow> x | None \<Rightarrow> fallback) else fallback)"

definition getDuration :: "(string \<Rightarrow> duration option) \<Rightarrow> environment \<Rightarrow> string \<Rightarrow> duration \<Rightarrow> duration" where
  "getDuration parseDuration = getParsed parseDuration"

definition getBool :: "environment \<Rightarrow> string \<Rightarrow> bool \<Rightarrow> bool" where
  "getBool = getParsed parse_bool"

definition getInt :: "environment \<Rightarrow> string \<Rightarrow> int \<Rightarrow> int" where
  "getInt = getParsed parse_int64"

text \<open>The conversion \<open>int32(...)\<close> keeps the low 32 bits.\<close>

definition to_int32 :: "int \<Rightarrow> int" where
  "to_int32 n = sint (word_of_int n :: 32 word)"

definition second :: duration where
  "second = 1000000000"

definition Validate :: "Config \<Rightarrow> go_error option" where
  "Validate c =
     (if HoldTTL c \<le> 0 then Some (OtherError ''config: HOLD_TTL must be > 0'')
      else if HoldTTL c > 3600 * second then Some (OtherError ''config: HOLD_TTL exceeds sane upper bound (1h)'')
      else if PoolMaxConns c \<le> 0 then Some (OtherError ''config: POOL_MAX_CONNS must be > 0'')
      else if RequestTimeout c \<le> 0 then Some (OtherError ''config: REQUEST_TIMEOUT must be > 0'')
      else if OutboxBatchSize c \<le> 0 then Some (OtherError ''config: OUTBOX_BATCH_SIZE must be > 0'')
      else if MaxRetries c < 0 then Some (OtherError ''config: MAX_RETRIES must be >= 0'')
      else None)"

definition Load :: "(string \<Rightarrow> duration option) \<Rightarrow> environment \<Rightarrow> go_error + Config" where
  "Load parseDuration env =
     (let c = \<lparr>DatabaseURL = getEnv env ''DATABASE_URL'' ''postgres:///cricket_stadium_booking?host=/tmp'',
               HoldTTL = getDuration parseDuration env ''HOLD_TTL'' (5 * 60 * second),
               PoolMaxConns = to_int32 (getInt env ''POOL_MAX_CONNS'' 20),
               RequestTimeout = getDuration parseDuration env ''REQUEST_TIMEOUT'' (2 * second),
               OutboxBatchSize = getInt env ''OUTBOX_BATCH_SIZE'' 100,
               MaxRetries = getInt env ''MAX_RETRIES'' 3,
               RateLimitEnabled = getBool env ''RATE_LIMIT_ENABLED'' False\<rparr>
      in case Validate c of Some err \<Rightarrow> Inl err | None \<Rightarrow> Inr c)"


declare getEnv_def [env_defs] getParsed_def [env_defs] getDuration_def [env_defs] getBool_def [env_defs] getInt_def [env_defs]


section \<open>What a loaded configuration satisfies\<close>

definition config_ok :: "Config \<Rightarrow> bool" where
  "config_ok c \<longleftrightarrow>
     0 < HoldTTL c \<and> HoldTTL c \<le> 3600 * second \<and> 0 < PoolMaxConns c \<and> 0 < RequestTimeout c
     \<and> 0 < OutboxBatchSize c \<and> 0 \<le> MaxRetries c"

lemma Validate_None [simp]: "Validate c = None \<longleftrightarrow> config_ok c"
  by (auto simp: Validate_def config_ok_def)

lemma to_int32_range: "- (2 ^ 31) \<le> to_int32 n" "to_int32 n < 2 ^ 31"
  using sint_greater_eq [of "word_of_int n :: 32 word"] sint_less [of "word_of_int n :: 32 word"]
  by (simp_all add: to_int32_def)

lemma to_int32_id: "- (2 ^ 31) \<le> n \<Longrightarrow> n < 2 ^ 31 \<Longrightarrow> to_int32 n = n"
  unfolding to_int32_def sint_sbintrunc' by (simp add: signed_take_bit_int_eq_self)

lemma Load_config_ok:
  assumes "Load parseDuration env = Inr c"
  shows "config_ok c" "PoolMaxConns c < 2 ^ 31"
proof -
  show "config_ok c" using assms by (auto simp: Load_def Let_def split: option.splits)
  have "\<exists>n. PoolMaxConns c = to_int32 n" using assms by (auto simp: Load_def Let_def split: option.splits)
  then show "PoolMaxConns c < 2 ^ 31" using to_int32_range(2) by auto
qed

text \<open>With nothing set in the environment the defaults load.\<close>

lemma Load_defaults:
  "Load parseDuration (\<lambda>_. '''') = Inr \<lparr>DatabaseURL = ''postgres:///cricket_stadium_booking?host=/tmp'',
      HoldTTL = 300 * second, PoolMaxConns = 20, RequestTimeout = 2 * second, OutboxBatchSize = 100,
      MaxRetries = 3, RateLimitEnabled = False\<rparr>"
  by (simp add: Load_def Let_def env_defs Validate_def
      second_def to_int32_id)

text \<open>The texts of the numbers of 64 bits: an optional sign, decimal digits, a value in the range.\<close>

definition decimal :: "string \<Rightarrow> bool" where
  "decimal ds \<longleftrightarrow> ds \<noteq> '''' \<and> set ds \<subseteq> set ''0123456789''"

definition int64_text :: "string \<Rightarrow> bool" where
  "int64_text v \<longleftrightarrow>
     (\<exists>ds. decimal ds \<and> (v = ds \<and> read_nat ds \<le> 9223372036854775807
        \<or> v = CHR ''+'' # ds \<and> read_nat ds \<le> 9223372036854775807
        \<or> v = CHR ''-'' # ds \<and> read_nat ds \<le> 9223372036854775808))"

lemma is_digit_iff: "is_digit c \<longleftrightarrow> c \<in> set ''0123456789''"
proof
  assume "is_digit c"
  then obtain n :: nat where n: "n = of_char c" "48 \<le> n" "n \<le> 57" by (simp add: is_digit_def)
  from n(2,3) have "n = 48 \<or> n = 49 \<or> n = 50 \<or> n = 51 \<or> n = 52 \<or> n = 53 \<or> n = 54 \<or> n = 55 \<or> n = 56 \<or> n = 57"
    by presburger
  moreover have "c = char_of n" by (simp add: n(1))
  ultimately show "c \<in> set ''0123456789''" by (elim disjE) (simp_all add: char_of_def bit_0)
qed (auto simp: is_digit_def)

lemma decimal_digits: "decimal ds \<longleftrightarrow> ds \<noteq> [] \<and> list_all is_digit ds"
  unfolding decimal_def list_all_iff subset_iff is_digit_iff by blast

lemma decimal_no_sign: "decimal (c # cs) \<Longrightarrow> c \<noteq> CHR ''-'' \<and> c \<noteq> CHR ''+''"
proof -
  assume "decimal (c # cs)"
  then have "is_digit c" by (simp add: decimal_digits)
  moreover have "\<not> is_digit (CHR ''-'')" "\<not> is_digit (CHR ''+'')" by (simp_all add: is_digit_def)
  ultimately show ?thesis by blast
qed

lemma parse_int64_iff: "parse_int64 v \<noteq> None \<longleftrightarrow> int64_text v"
proof (cases v)
  case Nil
  then show ?thesis by (simp add: parse_int64_def int64_text_def decimal_digits)
next
  case (Cons c cs)
  note nos = decimal_no_sign [of c cs]
  consider "c = CHR ''-''" | "c = CHR ''+''" | "c \<noteq> CHR ''-''" "c \<noteq> CHR ''+''" by blast
  then show ?thesis
  proof cases
    case 1
    then have "int64_text v \<longleftrightarrow> decimal cs \<and> read_nat cs \<le> 9223372036854775808"
      using Cons nos by (auto simp: int64_text_def)
    moreover have "parse_int64 v \<noteq> None \<longleftrightarrow> decimal cs \<and> - int (read_nat cs) \<ge> min_int64 \<and> - int (read_nat cs) \<le> max_int64"
      using Cons 1 by (auto simp: parse_int64_def decimal_digits Let_def)
    ultimately show ?thesis by (auto simp: min_int64_def max_int64_def)
  next
    case 2
    then have "int64_text v \<longleftrightarrow> decimal cs \<and> read_nat cs \<le> 9223372036854775807"
      using Cons nos by (auto simp: int64_text_def)
    moreover have "parse_int64 v \<noteq> None \<longleftrightarrow> decimal cs \<and> int (read_nat cs) \<ge> min_int64 \<and> int (read_nat cs) \<le> max_int64"
      using Cons 2 by (auto simp: parse_int64_def decimal_digits Let_def)
    ultimately show ?thesis by (auto simp: min_int64_def max_int64_def)
  next
    case 3
    then have "int64_text v \<longleftrightarrow> decimal v \<and> read_nat v \<le> 9223372036854775807"
      using Cons by (auto simp: int64_text_def)
    moreover have "parse_int64 v \<noteq> None \<longleftrightarrow> decimal v \<and> int (read_nat v) \<ge> min_int64 \<and> int (read_nat v) \<le> max_int64"
      using Cons 3 by (auto simp: parse_int64_def decimal_digits Let_def)
    ultimately show ?thesis by (auto simp: min_int64_def max_int64_def)
  qed
qed

lemma parse_int64_range: "parse_int64 v = Some n \<Longrightarrow> min_int64 \<le> n \<and> n \<le> max_int64"
  by (auto simp: parse_int64_def Let_def split: prod.splits if_splits)

text \<open>A decimal that was printed is read back.\<close>

lemma show_nat_is_digits: "list_all is_digit (show_nat n)"
  using show_nat_digits by (fastforce simp: list_all_iff is_digit_def)

lemma show_nat_nonempty [simp]: "show_nat n \<noteq> []"
  by (simp add: show_nat.simps [of n])

lemma parse_show_int:
  assumes "min_int64 \<le> n" and "n \<le> max_int64"
  shows "parse_int64 (show_int n) = Some n"
proof -
  obtain c cs where c: "show_nat k = c # cs" and "is_digit c" if "k = nat n" for k
    using show_nat_is_digits [of "nat n"] show_nat_nonempty [of "nat n"] by (cases "show_nat (nat n)") auto
  then have "c \<noteq> CHR ''-'' \<and> c \<noteq> CHR ''+''" by (auto simp: is_digit_def)
  then show ?thesis
    using assms show_nat_is_digits [of "nat (- n)"] show_nat_is_digits [of "nat n"] c [OF refl]
    by (auto simp: parse_int64_def show_int_def) (metis c read_nat_show_nat int_nat_eq not_less)+
qed

end
