(* ===== verification/HttpApi.thy ===== *)
theory HttpApi
  imports Service Delivery Config
begin

text \<open>
  The handlers of \<open>internal/httpapi\<close>: validation of the request, the call of the service, and the
  translation of its result into a response. A request body is what the JSON decoder finds in the
  stream: no body at all, text that is no JSON value, or a first value together with the number of
  bytes up to its end (the decoder stops there). Log lines are left out.
\<close>

section \<open>Requests and responses\<close>

datatype http_body = NoBody | BadBody | JsonBody nat jsonb

record request =
  rq_method :: string
  rq_url :: "string list"           \<comment> \<open>\<open>r.URL.Path\<close>, cleaned and split at the slashes\<close>
  rq_path :: "string \<Rightarrow> string"     \<comment> \<open>\<open>r.PathValue\<close>\<close>
  rq_query :: "string \<Rightarrow> string"    \<comment> \<open>\<open>r.URL.Query().Get\<close>\<close>
  rq_header :: header
  rq_body :: http_body
  rq_remote :: string

record seatEntry =
  en_SeatID :: string
  en_Section :: string
  en_Status :: string
  en_HoldExpiresAt :: "string option"

datatype resp_body =
    EmptyBody
  | RawBody string                  \<comment> \<open>bytes written as they are\<close>
  | ErrorBody string                \<comment> \<open>\<open>{"error": ...}\<close>\<close>
  | StatusBody string               \<comment> \<open>\<open>{"status": ...}\<close>\<close>
  | HoldBody Hold
  | BookingBody Booking
  | BookingsBody "BookingSummary list"
  | SeatsBody string "seatEntry list"

record response =
  rs_status :: int
  rs_header :: header
  rs_body :: resp_body

definition no_header :: header where
  "no_header = (\<lambda>_. [])"


section \<open>render.go and errors.go\<close>

definition maxRequestBodyBytes :: nat where
  "maxRequestBodyBytes = 65536"

definition maxBuyerIDLen :: nat where
  "maxBuyerIDLen = 255"

definition maxIdempotencyKeyLen :: nat where
  "maxIdempotencyKeyLen = 255"

definition validBuyerID :: "string \<Rightarrow> bool" where
  "validBuyerID i \<longleftrightarrow> i \<noteq> '''' \<and> length i \<le> maxBuyerIDLen"

definition validIdempotencyKey :: "string \<Rightarrow> bool" where
  "validIdempotencyKey key \<longleftrightarrow> length key \<le> maxIdempotencyKeyLen"

definition writeJSON :: "int \<Rightarrow> resp_body \<Rightarrow> header \<Rightarrow> response" where
  "writeJSON status v h =
     (let h1 = addVary ''Accept-Encoding'' (header_set ''Content-Type'' ''application/json'' h);
          h2 = (if header_get ''Cache-Control'' h1 = '''' then header_set ''Cache-Control'' ''no-store'' h1 else h1)
      in \<lparr>rs_status = status, rs_header = h2, rs_body = v\<rparr>)"

definition writeError :: "go_error \<Rightarrow> header \<Rightarrow> response" where
  "writeError err =
     (if errors_Is err ErrSeatUnavailable then writeJSON 409 (ErrorBody ''seat_unavailable'')
      else if errors_Is err ErrHoldExpired then writeJSON 409 (ErrorBody ''hold_expired'')
      else if errors_Is err ErrNotFound then writeJSON 404 (ErrorBody ''not_found'')
      else if errors_Is err ErrIdempotencyKeyReuse then writeJSON 422 (ErrorBody ''idempotency_key_reuse'')
      else writeJSON 500 (ErrorBody ''internal_error''))"

text \<open>
  Decoding into \<open>buyerRequest\<close>: the field \<open>buyer_id\<close>, as the decoder of the standard library does. A value
  that ends past the limit of \<open>http.MaxBytesReader\<close> is an error.
\<close>

fun decode_buyer_fields :: "(string \<times> jsonb) list \<Rightarrow> string \<Rightarrow> string option" where
  "decode_buyer_fields [] acc = Some acc"
| "decode_buyer_fields ((k, v) # kvs) acc =
     (if fold_equal k ''buyer_id''
      then (case v of
              JNull \<Rightarrow> decode_buyer_fields kvs acc
            | JString t \<Rightarrow> decode_buyer_fields kvs t
            | _ \<Rightarrow> None)
      else decode_buyer_fields kvs acc)"

definition decodeJSON :: "http_body \<Rightarrow> string option" where
  "decodeJSON body =
     (case body of
        NoBody \<Rightarrow> Some ''''
      | BadBody \<Rightarrow> None
      | JsonBody n v \<Rightarrow>
          if maxRequestBodyBytes < n then None
          else (case v of
                  JNull \<Rightarrow> Some ''''
                | JObject kvs \<Rightarrow> decode_buyer_fields kvs ''''
                | _ \<Rightarrow> None))"

definition parseIDAndBuyer :: "request \<Rightarrow> string \<Rightarrow> response + int \<times> string" where
  "parseIDAndBuyer r pathParam =
     (case parse_int64 (rq_path r pathParam) of
        None \<Rightarrow> Inl (writeJSON 400 (ErrorBody ''invalid id'') no_header)
      | Some i \<Rightarrow>
          (case decodeJSON (rq_body r) of
             None \<Rightarrow> Inl (writeJSON 400 (ErrorBody ''buyer_id required'') no_header)
           | Some buyer \<Rightarrow>
               if \<not> validBuyerID buyer then Inl (writeJSON 400 (ErrorBody ''buyer_id required'') no_header)
               else Inr (i, buyer)))"


section \<open>Handlers\<close>

definition handleHold ::
  "Service \<Rightarrow> service_env \<Rightarrow> (int \<Rightarrow> hold_env) \<Rightarrow> request \<Rightarrow> svc_state \<Rightarrow> response \<times> svc_state"
where
  "handleHold svc sv envs r st =
     (let matchID = rq_path r ''matchId''; seatID = rq_path r ''seatId'' in
      case decodeJSON (rq_body r) of
        None \<Rightarrow> (writeJSON 400 (ErrorBody ''buyer_id required'') no_header, st)
      | Some buyer \<Rightarrow>
          if \<not> validBuyerID buyer then (writeJSON 400 (ErrorBody ''buyer_id required'') no_header, st)
          else let key = header_get ''Idempotency-Key'' (rq_header r) in
            if \<not> validIdempotencyKey key
            then (writeJSON 400 (ErrorBody ''invalid idempotency key'') no_header, st)
            else (case service_PlaceHoldWithKey svc sv envs matchID seatID buyer key st of
                    (Inl err, st') \<Rightarrow> (writeError err no_header, st')
                  | (Inr hold, st') \<Rightarrow> (writeJSON 201 (HoldBody hold) no_header, st')))"

definition handleConfirm ::
  "Service \<Rightarrow> service_env \<Rightarrow> (int \<Rightarrow> fault \<times> time) \<Rightarrow> request \<Rightarrow> svc_state \<Rightarrow> response \<times> svc_state"
where
  "handleConfirm svc sv envs r st =
     (case parseIDAndBuyer r ''holdId'' of
        Inl resp \<Rightarrow> (resp, st)
      | Inr (holdID, buyer) \<Rightarrow>
          (case service_ConfirmHold svc sv envs holdID buyer st of
             (Inl err, st') \<Rightarrow> (writeError err no_header, st')
           | (Inr b, st') \<Rightarrow> (writeJSON 200 (BookingBody b) no_header, st')))"

definition handleRelease ::
  "service_env \<Rightarrow> fault \<Rightarrow> time \<Rightarrow> request \<Rightarrow> svc_state \<Rightarrow> response \<times> svc_state"
where
  "handleRelease sv f now r st =
     (case parseIDAndBuyer r ''holdId'' of
        Inl resp \<Rightarrow> (resp, st)
      | Inr (holdID, buyer) \<Rightarrow>
          (case service_ReleaseHold sv f now holdID buyer st of
             (Inl err, st') \<Rightarrow> (writeError err no_header, st')
           | (Inr _, st') \<Rightarrow> (\<lparr>rs_status = 204, rs_header = no_header, rs_body = EmptyBody\<rparr>, st')))"

definition handleCancel ::
  "Service \<Rightarrow> service_env \<Rightarrow> (int \<Rightarrow> cancel_env) \<Rightarrow> request \<Rightarrow> svc_state \<Rightarrow> response \<times> svc_state"
where
  "handleCancel svc sv envs r st =
     (case parseIDAndBuyer r ''bookingId'' of
        Inl resp \<Rightarrow> (resp, st)
      | Inr (bookingID, buyer) \<Rightarrow>
          (case service_CancelBooking svc sv envs bookingID buyer st of
             (Inl err, st') \<Rightarrow> (writeError err no_header, st')
           | (Inr b, st') \<Rightarrow> (writeJSON 200 (BookingBody b) no_header, st')))"

definition handleListBookings :: "fault \<Rightarrow> request \<Rightarrow> db \<Rightarrow> response" where
  "handleListBookings f r d =
     (let buyer = rq_query r ''buyer_id'' in
      if \<not> validBuyerID buyer then writeJSON 400 (ErrorBody ''buyer_id required'') no_header
      else (case service_ListBookings f (rq_path r ''matchId'') buyer d of
              Inl err \<Rightarrow> writeError err no_header
            | Inr bs \<Rightarrow> writeJSON 200 (BookingsBody bs) no_header))"

definition seat_entry :: "(time \<Rightarrow> string) \<Rightarrow> Seat \<Rightarrow> seatEntry" where
  "seat_entry format_seconds s =
     \<lparr>en_SeatID = seat_SeatID s, en_Section = seat_Section s, en_Status = seat_Status s,
      en_HoldExpiresAt = map_option format_seconds (seat_HoldExpiresAt s)\<rparr>"

definition handleListSeats ::
  "(time \<Rightarrow> string) \<Rightarrow> Service \<Rightarrow> cache_env \<Rightarrow> fault \<Rightarrow> collation \<Rightarrow> time \<Rightarrow> request \<Rightarrow> svc_state
     \<Rightarrow> response \<times> svc_state"
where
  "handleListSeats format_seconds svc cenv f coll now r st =
     (let matchID = rq_path r ''matchId'' in
      case service_ListSeatsVersioned svc cenv f coll now matchID st of
        (Inl err, st') \<Rightarrow> (writeError err no_header, st')
      | (Inr (ss, version), st') \<Rightarrow>
          (let etag = seats_etag version;
               h = addVary ''Accept-Encoding'' (header_set ''ETag'' etag
                     (header_set ''Cache-Control'' ''public, no-cache'' no_header))
           in if etagMatches (header_get ''If-None-Match'' (rq_header r)) etag
              then (\<lparr>rs_status = 304, rs_header = h, rs_body = EmptyBody\<rparr>, st')
              else (writeJSON 200 (SeatsBody matchID (map (seat_entry format_seconds) ss)) h, st')))"


section \<open>Lemmas\<close>

lemma writeJSON_simps [simp]:
  "rs_status (writeJSON st v h) = st" "rs_body (writeJSON st v h) = v"
  by (simp_all add: writeJSON_def Let_def)

text \<open>
  The buyer a body names, said of the document: a JSON object that ends within 64 KiB and in which every field
  that reads \<open>buyer_id\<close> up to the case of its letters is a string or null; the last string of them is the buyer.
\<close>

definition names_buyer :: "string \<times> jsonb \<Rightarrow> bool" where
  "names_buyer kv \<longleftrightarrow> fold_equal (fst kv) ''buyer_id''"

definition only_null :: "(string \<times> jsonb) list \<Rightarrow> bool" where
  "only_null kvs \<longleftrightarrow> (\<forall>kv \<in> set kvs. names_buyer kv \<longrightarrow> snd kv = JNull)"

definition only_text :: "(string \<times> jsonb) list \<Rightarrow> bool" where
  "only_text kvs \<longleftrightarrow> (\<forall>kv \<in> set kvs. names_buyer kv \<longrightarrow> snd kv = JNull \<or> (\<exists>t. snd kv = JString t))"

definition last_named :: "(string \<times> jsonb) list \<Rightarrow> string \<Rightarrow> bool" where
  "last_named kvs b \<longleftrightarrow>
     (\<exists>before k after. kvs = before @ (k, JString b) # after \<and> names_buyer (k, JString b) \<and> only_text before \<and> only_null after)"

definition buyer_in_body :: "http_body \<Rightarrow> string \<Rightarrow> bool" where
  "buyer_in_body body b \<longleftrightarrow> (\<exists>n kvs. body = JsonBody n (JObject kvs) \<and> n \<le> 65536 \<and> last_named kvs b)"

lemma named_simps [simp]:
  "only_null []" "only_null (kv # kvs) \<longleftrightarrow> (names_buyer kv \<longrightarrow> snd kv = JNull) \<and> only_null kvs"
  "only_text []" "only_text (kv # kvs) \<longleftrightarrow> (names_buyer kv \<longrightarrow> snd kv = JNull \<or> (\<exists>t. snd kv = JString t)) \<and> only_text kvs"
  "\<not> last_named [] b"
  by (simp_all add: only_null_def only_text_def last_named_def)

lemma last_named_Cons:
  "last_named ((k, v) # kvs) b \<longleftrightarrow>
     v = JString b \<and> names_buyer (k, v) \<and> only_null kvs
     \<or> (names_buyer (k, v) \<longrightarrow> v = JNull \<or> (\<exists>t. v = JString t)) \<and> last_named kvs b" (is "?l \<longleftrightarrow> ?r")
proof
  assume ?l
  then obtain pre k' post where eq: "(k, v) # kvs = pre @ (k', JString b) # post"
    and p: "names_buyer (k', JString b)" "only_text pre" "only_null post"
    by (auto simp: last_named_def)
  show ?r
  proof (cases pre)
    case Nil
    then show ?thesis using eq p by simp
  next
    case (Cons x pre')
    then have "last_named kvs b" using eq p by (auto simp: last_named_def)
    then show ?thesis using Cons eq p(2) by auto
  qed
next
  assume ?r
  then show ?l
  proof (elim disjE conjE)
    assume "v = JString b" "names_buyer (k, v)" "only_null kvs"
    then show ?l unfolding last_named_def by (intro exI [of _ "[]"] exI [of _ k] exI [of _ kvs]) simp
  next
    assume h: "names_buyer (k, v) \<longrightarrow> v = JNull \<or> (\<exists>t. v = JString t)" and "last_named kvs b"
    then obtain pre k' post where "kvs = pre @ (k', JString b) # post" "names_buyer (k', JString b)" "only_text pre" "only_null post"
      by (auto simp: last_named_def)
    then show ?l unfolding last_named_def using h
      by (intro exI [of _ "(k, v) # pre"] exI [of _ k'] exI [of _ post]) simp
  qed
qed

lemma decode_buyer_last: "decode_buyer_fields kvs acc = Some b \<longleftrightarrow> b = acc \<and> only_null kvs \<or> last_named kvs b"
proof (induction kvs arbitrary: acc)
  case (Cons kv kvs)
  obtain k v where kv: "kv = (k, v)" by (cases kv)
  show ?case
  proof (cases "names_buyer (k, v)")
    case True
    then have f: "fold_equal k ''buyer_id''" by (simp add: names_buyer_def)
    show ?thesis using True f by (cases v) (auto simp: kv last_named_Cons Cons.IH)
  next
    case False
    then have f: "\<not> fold_equal k ''buyer_id''" by (simp add: names_buyer_def)
    show ?thesis using False f by (auto simp: kv last_named_Cons Cons.IH)
  qed
qed auto

lemma decodeJSON_buyer: "b \<noteq> '''' \<Longrightarrow> decodeJSON body = Some b \<longleftrightarrow> buyer_in_body body b"
  by (cases body) (auto simp: decodeJSON_def buyer_in_body_def maxRequestBodyBytes_def decode_buyer_last split: jsonb.splits)

lemma buyer_accepted:
  "(\<exists>b. decodeJSON body = Some b \<and> validBuyerID b) \<longleftrightarrow> (\<exists>b. buyer_in_body body b \<and> b \<noteq> '''' \<and> length b \<le> 255)"
  using decodeJSON_buyer by (auto simp: validBuyerID_def maxBuyerIDLen_def)

lemma writeError_not_400 [simp]: "rs_status (writeError e h) \<noteq> 400"
  by (simp add: writeError_def)

lemma header_simps [simp]:
  "header_get k (header_set k v h) = v" "k' \<noteq> k \<Longrightarrow> header_get k' (header_set k v h) = header_get k' h"
  "k' \<noteq> k \<Longrightarrow> header_get k' (header_add k v h) = header_get k' h"
  by (simp_all add: header_get_def header_set_def header_add_def)

lemma header_get_addVary [simp]: "k \<noteq> ''Vary'' \<Longrightarrow> header_get k (addVary v h) = header_get k h"
  by (simp add: addVary_def)

end
