(* ===== verification/RateLimit.thy ===== *)
theory RateLimit
  imports HttpApi
begin

text \<open>
  The per-address rate limiter, \<open>internal/httpapi/ratelimit.go\<close>. The token bucket of
  \<open>golang.org/x/time/rate\<close> is a parameter: a fresh limiter, and what \<open>Allow()\<close> answers at an instant
  together with the limiter's next state. The last section shows that the janitor, which drops idle
  addresses, never changes a decision.
\<close>

section \<open>The limiter\<close>

definition limiterIdleTTL :: duration where
  "limiterIdleTTL = 10 * 60 * second"

record 'l limiterEntry =
  le_limiter :: 'l
  le_lastSeen :: time

type_synonym 'l limiters = "string \<rightharpoonup> 'l limiterEntry"

definition newIPRateLimiter :: "'l limiters" where
  "newIPRateLimiter = (\<lambda>_. None)"

definition allow ::
  "'l \<Rightarrow> ('l \<Rightarrow> time \<Rightarrow> bool \<times> 'l) \<Rightarrow> time \<Rightarrow> string \<Rightarrow> 'l limiters \<Rightarrow> bool \<times> 'l limiters"
where
  "allow fresh Allow now ip ls =
     (let l = (case ls ip of None \<Rightarrow> fresh | Some e \<Rightarrow> le_limiter e);
          (ok, l') = Allow l now
      in (ok, ls(ip \<mapsto> \<lparr>le_limiter = l', le_lastSeen = now\<rparr>)))"

definition cleanup :: "time \<Rightarrow> 'l limiters \<Rightarrow> 'l limiters" where
  "cleanup now ls =
     (\<lambda>ip. case ls ip of
             None \<Rightarrow> None
           | Some e \<Rightarrow> if le_lastSeen e < now - limiterIdleTTL then None else Some e)"

text \<open>
  \<open>rateLimitMiddleware\<close> in front of a handler: \<open>split_host\<close> is \<open>net.SplitHostPort\<close>, \<open>None\<close> when it
  fails.
\<close>

definition rateLimitMiddleware ::
  "'l \<Rightarrow> ('l \<Rightarrow> time \<Rightarrow> bool \<times> 'l) \<Rightarrow> (string \<Rightarrow> string option) \<Rightarrow> time
     \<Rightarrow> (request \<Rightarrow> 's \<Rightarrow> response \<times> 's) \<Rightarrow> request \<Rightarrow> 'l limiters \<times> 's \<Rightarrow> response \<times> 'l limiters \<times> 's"
where
  "rateLimitMiddleware fresh Allow split_host now handler r st =
     (if rq_method r = ''GET''
      then (let (resp, s') = handler r (snd st) in (resp, (fst st, s')))
      else let ip = (case split_host (rq_remote r) of None \<Rightarrow> rq_remote r | Some h \<Rightarrow> h);
               (ok, ls') = allow fresh Allow now ip (fst st)
           in if \<not> ok then (writeJSON 429 (ErrorBody ''rate_limited'') no_header, (ls', snd st))
              else (let (resp, s') = handler r (snd st) in (resp, (ls', s'))))"


section \<open>The janitor is invisible\<close>

text \<open>The requests and the janitor's rounds in the order of time, with or without the janitor doing its work.\<close>

datatype limiter_event = Request time string | Janitor time

fun event_time :: "limiter_event \<Rightarrow> time" where
  "event_time (Request t ip) = t"
| "event_time (Janitor t) = t"

fun run_limiter ::
  "'l \<Rightarrow> ('l \<Rightarrow> time \<Rightarrow> bool \<times> 'l) \<Rightarrow> bool \<Rightarrow> limiter_event list \<Rightarrow> 'l limiters \<Rightarrow> bool list"
where
  "run_limiter fresh Allow evict [] ls = []"
| "run_limiter fresh Allow evict (Request t ip # evs) ls =
     fst (allow fresh Allow t ip ls) # run_limiter fresh Allow evict evs (snd (allow fresh Allow t ip ls))"
| "run_limiter fresh Allow evict (Janitor t # evs) ls =
     run_limiter fresh Allow evict evs (if evict then cleanup t ls else ls)"

definition same_limits :: "('l \<Rightarrow> time \<Rightarrow> bool \<times> 'l) \<Rightarrow> time \<Rightarrow> 'l limiters \<Rightarrow> 'l limiters \<Rightarrow> bool" where
  "same_limits Allow now ls ls' \<longleftrightarrow>
     (\<forall>ip. case ls' ip of
        None \<Rightarrow> ls ip = None
      | Some e \<Rightarrow> (\<exists>l. le_limiter e = snd (Allow l (le_lastSeen e)))
          \<and> (ls ip = Some e \<or> (ls ip = None \<and> le_lastSeen e < now - limiterIdleTTL)))"

lemma same_limits_later: "same_limits Allow t ls ls' \<Longrightarrow> t \<le> t' \<Longrightarrow> same_limits Allow t' ls ls'"
  unfolding same_limits_def by (fastforce split: option.splits)

lemma same_limits_cleanup:
  assumes "same_limits Allow t ls ls'"
  shows "same_limits Allow t (cleanup t ls) ls'"
  using assms unfolding same_limits_def cleanup_def
  by (auto split: option.splits) (metis option.distinct(1) option.inject)+

lemma same_limits_allow:
  fixes fresh :: 'l
  assumes idle: "\<And>l t0 t. t0 + limiterIdleTTL < t \<Longrightarrow> Allow (snd (Allow l t0)) t = Allow fresh t"
    and sim: "same_limits Allow t ls ls'"
  shows "fst (allow fresh Allow t ip ls) = fst (allow fresh Allow t ip ls')
    \<and> same_limits Allow t (snd (allow fresh Allow t ip ls)) (snd (allow fresh Allow t ip ls'))"
proof -
  define cur where "cur x = (case x ip of None \<Rightarrow> fresh | Some e \<Rightarrow> le_limiter e)" for x :: "'l limiters"
  have same: "Allow (cur ls) t = Allow (cur ls') t"
    using sim [unfolded same_limits_def, rule_format, of ip] idle
    by (auto simp: cur_def split: option.splits)
  have al: "allow fresh Allow t ip x = (fst (Allow (cur x) t), x(ip \<mapsto> \<lparr>le_limiter = snd (Allow (cur x) t), le_lastSeen = t\<rparr>))"
    for x by (simp add: allow_def cur_def Let_def split_beta)
  show ?thesis
  proof
    show "fst (allow fresh Allow t ip ls) = fst (allow fresh Allow t ip ls')" using same by (simp add: al)
    show "same_limits Allow t (snd (allow fresh Allow t ip ls)) (snd (allow fresh Allow t ip ls'))"
      unfolding same_limits_def
    proof
      fix x
      show "case snd (allow fresh Allow t ip ls') x of
          None \<Rightarrow> snd (allow fresh Allow t ip ls) x = None
        | Some e \<Rightarrow> (\<exists>l. le_limiter e = snd (Allow l (le_lastSeen e)))
            \<and> (snd (allow fresh Allow t ip ls) x = Some e
               \<or> (snd (allow fresh Allow t ip ls) x = None \<and> le_lastSeen e < t - limiterIdleTTL))"
        using sim [unfolded same_limits_def, rule_format, of x] same
        by (cases "x = ip") (auto simp: al split: option.splits)
    qed
  qed
qed

lemma janitor_invisible:
  assumes idle: "\<And>l t0 t. t0 + limiterIdleTTL < t \<Longrightarrow> Allow (snd (Allow l t0)) t = Allow fresh t"
    and "sorted (map event_time evs)" and "\<And>ev. ev \<in> set evs \<Longrightarrow> start \<le> event_time ev"
    and "same_limits Allow start ls ls'"
  shows "run_limiter fresh Allow True evs ls = run_limiter fresh Allow False evs ls'"
  using assms(2-4)
proof (induction evs arbitrary: start ls ls')
  case Nil
  then show ?case by simp
next
  case (Cons ev evs)
  let ?t = "event_time ev"
  have sim: "same_limits Allow ?t ls ls'" using same_limits_later [OF Cons.prems(3)] Cons.prems(2) by simp
  have rest: "sorted (map event_time evs)" "x \<in> set evs \<Longrightarrow> ?t \<le> event_time x" for x
    using Cons.prems(1) by auto
  show ?case
  proof (cases ev)
    case (Request t ip)
    then show ?thesis
      using same_limits_allow [OF idle sim, of ip] Cons.IH [OF rest] by simp
  next
    case (Janitor t)
    then show ?thesis using same_limits_cleanup [OF sim] Cons.IH [OF rest] by simp
  qed
qed

end
