(* ===== verification/LoadTest.thy ===== *)
theory LoadTest
  imports Service
begin

text \<open>
  The expiry-boundary scenario of \<open>cmd/loadtest/main.go\<close>: a hold is backdated past its expiry and a
  number of buyers race for the seat, each through the service; the report passes when no seat is
  oversold and exactly one of them won. The order of the list is the order in which the racers'
  transactions take place. A reply may be lost on the way: \<open>ra_delivered\<close> tells whether \<open>postJSON\<close> returned one,
  and a result that was not delivered is \<open>None\<close> in the list the race leaves.
\<close>

section \<open>The scenario\<close>

text \<open>\<open>UPDATE bookings SET hold_expires_at = now() - interval '1 second' WHERE ... status = 'held'\<close>\<close>

definition backdated :: "time \<Rightarrow> bookings_row \<Rightarrow> bookings_row" where
  "backdated now b = b\<lparr>bk_hold_expires_at := Some (now - 1000000)\<rparr>"

definition sql_backdate :: "time \<Rightarrow> string \<Rightarrow> string \<Rightarrow> (db, go_error, unit) action" where
  "sql_backdate now matchID seatID =
     update_bookings (\<lambda>b. bk_match_id b = matchID \<and> bk_seat_id b = seatID \<and> bk_status b = Held) (backdated now)"

record racer =
  ra_buyer :: string
  ra_service :: service_env
  ra_env :: "int \<Rightarrow> hold_env"
  ra_delivered :: bool

fun race ::
  "Service \<Rightarrow> string \<Rightarrow> string \<Rightarrow> racer list \<Rightarrow> svc_state \<Rightarrow> (go_error + Hold) option list \<times> svc_state"
where
  "race svc matchID seatID [] st = ([], st)"
| "race svc matchID seatID (r # rs) st =
     (let (res, st') = service_PlaceHold svc (ra_service r) (ra_env r) matchID seatID (ra_buyer r) st;
          (ress, st'') = race svc matchID seatID rs st'
      in ((if ra_delivered r then Some res else None) # ress, st''))"

definition won :: "(go_error + Hold) option list \<Rightarrow> nat" where
  "won ress = length (filter (\<lambda>r. case r of Some (Inr _) \<Rightarrow> True | _ \<Rightarrow> False) ress)"

text \<open>
  The whole scenario: the first hold, the backdating, the race, and the confirmation of the first hold,
  which must fail. \<open>None\<close> is \<open>log.Fatalf\<close>, also when the first hold's answer does not arrive whole; when the first
  hold is refused there is no hold to confirm.
\<close>

definition runExpiryBoundaryScenario ::
  "Service \<Rightarrow> string \<Rightarrow> string \<Rightarrow> racer \<Rightarrow> fault \<Rightarrow> time \<Rightarrow> racer list \<Rightarrow> service_env \<Rightarrow> (int \<Rightarrow> fault \<times> time) \<Rightarrow> svc_state
     \<Rightarrow> ((go_error + Hold) option list \<times> (go_error + Booking) option \<times> svc_state) option"
where
  "runExpiryBoundaryScenario svc matchID seatID first f now racers sv cenvs st =
     (let (res, st1) = service_PlaceHold svc (ra_service first) (ra_env first) matchID seatID (ra_buyer first) st in
      if \<not> ra_delivered first then None else
      case withFault f (sql_backdate now matchID seatID) (fst st1) of
        (Inl err, _) \<Rightarrow> None
      | (Inr _, d2) \<Rightarrow>
          (let (ress, st3) = race svc matchID seatID racers (d2, snd st1) in
           case res of
             Inl _ \<Rightarrow> Some (ress, None, st3)
           | Inr hold \<Rightarrow>
               (let (rc, st4) = service_ConfirmHold svc sv cenvs (ho_ID hold) (ra_buyer first) st3
                in Some (ress, Some rc, st4))))"

definition report_pass :: "nat \<Rightarrow> nat \<Rightarrow> bool" where
  "report_pass oversold_seats b_confirmed \<longleftrightarrow> oversold_seats = 0 \<and> b_confirmed = 1"


section \<open>One call of a racer\<close>

text \<open>A racer that meets no fault and no deadline and gets its answer; the race is serialised, so nothing runs in between.\<close>

definition clean_racer :: "racer \<Rightarrow> bool" where
  "clean_racer r \<longleftrightarrow>
     rc_err (sv_ctx (ra_service r)) 0 = None \<and> tx_fault_free (ra_env r 0) \<and> alone (ra_env r 0) \<and> ra_delivered r"

definition racer_now :: "racer \<Rightarrow> time" where
  "racer_now r = he_tx_now (ra_env r 0)"

lemma withRetry_first:
  assumes "rc_err ctx 0 = None" and "\<And>e s'. fn 0 s = (Inl e, s') \<Longrightarrow> \<not> isRetryable e"
  shows "withRetry ctx m zero fn s = fn 0 s"
proof -
  obtain r s' where "fn 0 s = (r, s')" by (cases "fn 0 s")
  then show ?thesis
    using assms by (cases r) (simp_all add: withRetry_def retry_loop.simps [of ctx _ zero fn 0])
qed

lemma racer_call:
  assumes inv: "schema_inv d" and clean: "clean_racer r" and ex: "seat_exists m s d"
    and seq: "bookings_id_seq d \<le> max_int64"
  shows "\<exists>c'. service_PlaceHold svc (ra_service r) (ra_env r) m s (ra_buyer r) (d, c) =
     (if seat_taken (racer_now r) m s d
      then (Inl ErrSeatUnavailable, (d\<lparr>bookings_id_seq := bookings_id_seq d + 1\<rparr>, c'))
      else (Inr (hold_of_row (booking_row_of (placed_row (ra_env r 0) m s (ra_buyer r) (svc_holdTTL svc) d))),
            (placed_db (ra_env r 0) m s (ra_buyer r) (svc_holdTTL svc) '''' 0 d, c')))"
proof -
  let ?env = "ra_env r 0" and ?ttl = "svc_holdTTL svc"
  have al: "he_before_tx ?env x = x" "he_before_replay ?env x = x" for x
    using clean by (simp_all add: clean_racer_def alone_def)
  have out: "store_hold svc (ra_env r) m s (ra_buyer r) '''' 0 d =
     (if seat_taken (racer_now r) m s d
      then (Inl ErrSeatUnavailable, d\<lparr>bookings_id_seq := bookings_id_seq d + 1\<rparr>)
      else (Inr (hold_of_row (booking_row_of (placed_row ?env m s (ra_buyer r) ?ttl d))),
            placed_db ?env m s (ra_buyer r) ?ttl '''' 0 d))"
    using PlaceHold_outcome [of ?env d m s "ra_buyer r" ?ttl] clean inv ex seq
    by (simp add: store_hold_def PlaceHoldWithKey_def PlaceHold_def al clean_racer_def bindA_def racer_now_def Let_def)
  have "withRetry (sv_ctx (ra_service r)) (svc_maxRetries svc) zero_hold
      (store_hold svc (ra_env r) m s (ra_buyer r) '''') d = store_hold svc (ra_env r) m s (ra_buyer r) '''' 0 d"
    using clean by (intro withRetry_first) (auto simp: clean_racer_def out split: if_splits)
  then show ?thesis
    by (simp add: service_PlaceHold_def service_placeHold_def out split: if_splits)
qed


section \<open>The race\<close>

lemma seat_taken_seq [simp]: "seat_taken now m s (d\<lparr>bookings_id_seq := n\<rparr>) = seat_taken now m s d"
  by (simp add: seat_taken_def)

lemma seat_exists_seq [simp]: "seat_exists m s (d\<lparr>bookings_id_seq := n\<rparr>) = seat_exists m s d"
  by (simp add: seat_exists_def)

lemma race_losers:
  assumes "schema_inv d" and "seat_exists m s d" and "bookings_id_seq d + int (length rs) \<le> max_int64"
    and "\<And>r. r \<in> set rs \<Longrightarrow> clean_racer r \<and> seat_taken (racer_now r) m s d"
  shows "won (fst (race svc m s rs (d, c))) = 0
     \<and> fst (snd (race svc m s rs (d, c))) = d\<lparr>bookings_id_seq := bookings_id_seq d + int (length rs)\<rparr>"
  using assms
proof (induction rs arbitrary: d c)
  case Nil
  then show ?case by (simp add: won_def)
next
  case (Cons r rs)
  let ?d = "d\<lparr>bookings_id_seq := bookings_id_seq d + 1\<rparr>"
  obtain c' where call: "service_PlaceHold svc (ra_service r) (ra_env r) m s (ra_buyer r) (d, c) =
      (Inl ErrSeatUnavailable, (?d, c'))"
    using racer_call [OF Cons.prems(1), of r m s svc c] Cons.prems by auto
  have "won (fst (race svc m s rs (?d, c'))) = 0
     \<and> fst (snd (race svc m s rs (?d, c'))) = ?d\<lparr>bookings_id_seq := bookings_id_seq ?d + int (length rs)\<rparr>"
    using Cons.prems by (intro Cons.IH schema_inv_seq_bump) auto
  then show ?case by (simp add: call won_def split_beta add.assoc [symmetric])
qed

lemma placed_seat_taken:
  assumes "now \<le> he_tx_now env + microseconds ttl"
  shows "seat_taken now m s (placed_db env m s b ttl key stale d)"
  using assms
  by (auto simp: seat_taken_def placed_db_def placed_row_def stale_hold_def expires_before_def)

lemma placed_db_schema:
  assumes "schema_inv d" and "bookings_id_seq d \<le> max_int64" and "seat_exists m s d"
    and "\<not> seat_taken (he_tx_now env) m s d" and "tx_fault_free env"
  shows "schema_inv (placed_db env m s b ttl '''' 0 d)"
  using placed_db_inv [OF assms(1)] hold_tx_outcome [OF assms(1,5,2), of m s b ttl "''''" 0] assms(3,4)
  by (simp add: key_blocked_def)

lemma race_one_winner:
  assumes inv: "schema_inv d" and ex: "seat_exists m s d"
    and seq: "bookings_id_seq d + int (length (r # rs)) \<le> max_int64"
    and free: "\<not> seat_taken (racer_now r) m s d"
    and clean: "\<And>x. x \<in> set (r # rs) \<Longrightarrow> clean_racer x"
    and t: "\<And>x. x \<in> set rs \<Longrightarrow> racer_now x \<le> racer_now r + microseconds (svc_holdTTL svc)"
  shows "won (fst (race svc m s (r # rs) (d, c))) = 1
     \<and> fst (snd (race svc m s (r # rs) (d, c))) =
         (placed_db (ra_env r 0) m s (ra_buyer r) (svc_holdTTL svc) '''' 0 d)
           \<lparr>bookings_id_seq := bookings_id_seq d + int (length (r # rs))\<rparr>"
proof -
  let ?p = "placed_db (ra_env r 0) m s (ra_buyer r) (svc_holdTTL svc) '''' 0 d"
  obtain c' h where call: "service_PlaceHold svc (ra_service r) (ra_env r) m s (ra_buyer r) (d, c) = (Inr h, (?p, c'))"
    using racer_call [OF inv, of r m s svc c] ex seq free clean by auto
  have ff: "tx_fault_free (ra_env r 0)" "ra_delivered r" using clean [of r] by (simp_all add: clean_racer_def)
  have p: "schema_inv ?p" using free ff seq by (intro placed_db_schema inv ex) (simp_all add: racer_now_def)
  have "won (fst (race svc m s rs (?p, c'))) = 0
     \<and> fst (snd (race svc m s rs (?p, c'))) = ?p\<lparr>bookings_id_seq := bookings_id_seq ?p + int (length rs)\<rparr>"
  proof (rule race_losers [OF p])
    show "seat_exists m s ?p" using ex by (simp add: seat_exists_def placed_db_def)
    show "bookings_id_seq ?p + int (length rs) \<le> max_int64" using seq by (simp add: placed_db_def)
    show "clean_racer x \<and> seat_taken (racer_now x) m s ?p" if "x \<in> set rs" for x
      using clean t that placed_seat_taken by (simp add: racer_now_def)
  qed
  then show ?thesis using ff(2) by (simp add: call won_def split_beta placed_db_def add.assoc)
qed


section \<open>The whole scenario\<close>

lemma demotes_backdated: "demotes P (backdated now)"
  by (simp add: demotes_def backdated_def row_defs)

lemma backdated_simps [simp]:
  "bk_id (backdated now b) = bk_id b" "bk_status (backdated now b) = bk_status b"
  "seat_key (backdated now b) = seat_key b" "bk_match_id (backdated now b) = bk_match_id b"
  "bk_seat_id (backdated now b) = bk_seat_id b" "bk_hold_expires_at (backdated now b) = Some (now - 1000000)"
  by (simp_all add: backdated_def seat_key_def)

text \<open>Once backdated, the hold of the seat no longer keeps anyone out.\<close>

lemma backdated_not_taken:
  assumes inv: "schema_inv d" and h: "h \<in> set (bookings d)" "bk_status h = Held" "seat_key h = (m, s)"
    and t: "now \<le> t"
    and d': "d' = d\<lparr>bookings := update_where (\<lambda>b. bk_match_id b = m \<and> bk_seat_id b = s \<and> bk_status b = Held) (backdated now) (bookings d)\<rparr>"
  shows "\<not> seat_taken t m s d'" and "backdated now h \<in> set (bookings d')"
proof -
  have key: "bk_match_id h = m" "bk_seat_id h = s" using h(3) by (simp_all add: seat_key_def)
  show in': "backdated now h \<in> set (bookings d')"
    using h key by (force simp: d' set_update_where)
  have inv': "schema_inv d'" unfolding d' by (intro schema_inv_demotes inv demotes_backdated)
  have stale: "stale_hold t m s (backdated now h)"
    using h key t by (simp add: stale_hold_def expires_before_def)
  have "stale_hold t m s r" if "r \<in> set (bookings d')" "seat_key r = (m, s)" "active r" for r
  proof -
    have "r = backdated now h"
      using that h by (intro active_unique [OF inv' that(1) in']) (simp_all add: active_def)
    then show ?thesis using stale by simp
  qed
  then show "\<not> seat_taken t m s d'" by (auto simp: seat_taken_def list_ex_iff)
qed

lemma expired_confirm_refused:
  assumes "schema_inv d" and "x \<in> set (bookings d)" and "bk_status x = Expired"
    and "rc_err (sv_ctx sv) 0 = None" and "fst (cenvs 0) = NoFault"
  shows "\<exists>c'. service_ConfirmHold svc sv cenvs (bk_id x) buyer (d, c) = (Inl ErrHoldExpired, (d, c'))"
proof -
  have "store_confirm cenvs (bk_id x) buyer 0 d = (Inl ErrHoldExpired, d)"
    using ConfirmHold_row [OF assms(1,2), of "snd (cenvs 0)" buyer] assms(3,5)
    by (simp add: store_confirm_def bindA_def confirmable_def)
  then have "withRetry (sv_ctx sv) (svc_maxRetries svc) zero_booking (store_confirm cenvs (bk_id x) buyer) d =
      (Inl ErrHoldExpired, d)"
    using assms(4) by (subst withRetry_first) auto
  then show ?thesis by (simp add: service_ConfirmHold_def)
qed

lemma hold_row_stale: "stale_hold now m s r \<Longrightarrow> hold_row now m s b r = expire_row r"
  by (simp add: hold_row_def stale_hold_def previous_hold_def)

lemma placed_db_expires:
  assumes "hold_row (racer_now r) m s (ra_buyer r) x = y" and "x \<in> set (bookings d)"
  shows "y \<in> set (bookings (placed_db (ra_env r 0) m s (ra_buyer r) ttl '''' 0 d))"
  using assms by (auto simp: placed_db_def racer_now_def hold_rows_map)

lemma expiry_scenario:
  assumes inv: "schema_inv d" and ex: "seat_exists m s d"
    and seq: "bookings_id_seq d + int (length (first # r # rs)) \<le> max_int64"
    and free: "\<not> seat_taken (racer_now first) m s d"
    and clean: "\<And>x. x \<in> set (first # r # rs) \<Longrightarrow> clean_racer x"
    and t: "now \<le> racer_now r" "\<And>x. x \<in> set rs \<Longrightarrow> racer_now x \<le> racer_now r + microseconds (svc_holdTTL svc)"
    and conf: "rc_err (sv_ctx sv) 0 = None" "fst (cenvs 0) = NoFault"
  shows "\<exists>ress st'. runExpiryBoundaryScenario svc m s first NoFault now (r # rs) sv cenvs (d, c) =
      Some (ress, Some (Inl ErrHoldExpired), st') \<and> won ress = 1 \<and> schema_inv (fst st')"
proof -
  let ?ttl = "svc_holdTTL svc"
  let ?row = "placed_row (ra_env first 0) m s (ra_buyer first) ?ttl d"
  let ?d1 = "placed_db (ra_env first 0) m s (ra_buyer first) ?ttl '''' 0 d"
  let ?d2 = "?d1\<lparr>bookings := update_where (\<lambda>b. bk_match_id b = m \<and> bk_seat_id b = s \<and> bk_status b = Held)
      (backdated now) (bookings ?d1)\<rparr>"
  have ff: "tx_fault_free (ra_env first 0)" "ra_delivered first" using clean [of first] by (simp_all add: clean_racer_def)
  obtain c1 where hold: "service_PlaceHold svc (ra_service first) (ra_env first) m s (ra_buyer first) (d, c) =
      (Inr (hold_of_row (booking_row_of ?row)), (?d1, c1))"
    using racer_call [OF inv, of first m s svc c] ex seq free clean [of first] by auto
  have inv1: "schema_inv ?d1" using free ff seq by (intro placed_db_schema inv ex) (simp_all add: racer_now_def)
  have row: "?row \<in> set (bookings ?d1)" "bk_status ?row = Held" "seat_key ?row = (m, s)" "bk_id ?row = bookings_id_seq d"
    by (simp_all add: placed_db_def placed_row_def)
  have bd: "sql_backdate now m s ?d1 = (Inr (), ?d2)"
    unfolding sql_backdate_def by (intro update_bookings_demotes inv1 demotes_backdated)
  have inv2: "schema_inv ?d2" by (intro schema_inv_demotes inv1 demotes_backdated)
  note free2 = backdated_not_taken [OF inv1 row(1-3) t(1) refl]
  have "seat_exists m s ?d2" "bookings_id_seq ?d2 + int (length (r # rs)) \<le> max_int64"
    using ex seq by (simp_all add: seat_exists_def placed_db_def)
  note race = race_one_winner [OF inv2 this free2(1) _ t(2), of c1]
  let ?d3 = "fst (snd (race svc m s (r # rs) (?d2, c1)))"
  have won: "won (fst (race svc m s (r # rs) (?d2, c1))) = 1"
    and d3: "?d3 = (placed_db (ra_env r 0) m s (ra_buyer r) ?ttl '''' 0 ?d2)
           \<lparr>bookings_id_seq := bookings_id_seq ?d2 + int (length (r # rs))\<rparr>"
    using race clean by auto
  have "tx_fault_free (ra_env r 0)" using clean [of r] by (simp add: clean_racer_def)
  then have "schema_inv (placed_db (ra_env r 0) m s (ra_buyer r) ?ttl '''' 0 ?d2)"
    using free2(1) ex seq
    by (intro placed_db_schema inv2) (simp_all add: racer_now_def seat_exists_def placed_db_def)
  then have inv3: "schema_inv ?d3"
    unfolding d3 by (rule schema_inv_seq_grow) (use seq in \<open>simp_all add: placed_db_def\<close>)
  have "stale_hold (racer_now r) m s (backdated now ?row)"
    using row t(1) by (simp add: stale_hold_def expires_before_def placed_row_def)
  then have "hold_row (racer_now r) m s (ra_buyer r) (backdated now ?row) = expire_row (backdated now ?row)"
    by (rule hold_row_stale)
  then have "expire_row (backdated now ?row) \<in>
      set (bookings (placed_db (ra_env r 0) m s (ra_buyer r) ?ttl '''' 0 ?d2))"
    using free2(2) by (rule placed_db_expires)
  then have "expire_row (backdated now ?row) \<in> set (bookings ?d3)"
    by (subst d3) simp
  from expired_confirm_refused [where svc = svc and sv = sv and cenvs = cenvs
      and buyer = "ra_buyer first" and c = "snd (snd (race svc m s (r # rs) (?d2, c1)))", OF inv3 this _ conf]
  obtain c4 where
    "service_ConfirmHold svc sv cenvs (bk_id ?row) (ra_buyer first) (?d3, snd (snd (race svc m s (r # rs) (?d2, c1)))) =
      (Inl ErrHoldExpired, (?d3, c4))"
    by (auto simp del: race.simps)
  then show ?thesis
    using won inv3 ff(2)
    by (simp add: runExpiryBoundaryScenario_def hold bd split_beta hold_of_row_def booking_row_of_def del: race.simps)
qed

end
