(* ===== verification/ServiceProperties.thy ===== *)
theory ServiceProperties
  imports RefundProperties RateLimit LoadTest
begin

text \<open>
  The properties of the service and of what stands around it: the retry loop and its backoff, the
  seat cache and its versions, the configuration, the handlers and the load test's verdict.
\<close>

section \<open>Retries\<close>

text \<open>C29: the retry loop is bounded and honest. It calls the operation at most max(0, maxRetries) + 1
  times; it reports a retryable error only after every one of those attempts was spent; and it never
  reports a success that no call returned, even for a negative bound.\<close>

theorem withRetry_bounded:
  assumes "ctx_errors ctx" and "withRetry ctx maxRetries zero (counted fn) (s, 0) = (r, (s', calls))"
  shows "calls \<le> nat (max 0 maxRetries) + 1
    \<and> (\<forall>e. r = Inl e \<and> isRetryable e \<longrightarrow> calls = nat (max 0 maxRetries) + 1)
    \<and> (\<forall>x. r = Inr x \<longrightarrow> (\<exists>k s0. fn k s0 = (Inr x, s')))"
proof -
  let ?m = "if maxRetries < 0 then 0 else maxRetries"
  have m: "0 \<le> ?m" "nat (?m - 0 + 1) = nat (max 0 maxRetries) + 1" by auto
  note run = assms(2) [unfolded withRetry_def]
  have 1: "calls \<le> nat (max 0 maxRetries) + 1"
    using retry_loop_calls [OF m(1) run] m(2) by simp
  have 2: "calls = nat (max 0 maxRetries) + 1" if "r = Inl e" "isRetryable e" for e
    using retry_loop_exhausted [OF m(1) assms(1) run [unfolded that(1)] that(2)] m(2) by simp
  have 3: "\<exists>k s0. fn k s0 = (Inr x, s')" if r: "r = Inr x" for x
  proof -
    obtain k sc where "counted fn k sc = (Inr x, (s', calls))"
      using keep.retry_loop_success [where I = "\<lambda>_. True", OF m(1) _ run [unfolded r]] by blast
    then show ?thesis by (auto simp: counted_def Let_def split: prod.splits)
  qed
  show ?thesis using 1 2 3 by blast
qed

definition demo_format :: "time \<Rightarrow> string" where
  "demo_format t = ''t'' @ show_int t"

definition demo_svc :: Service where
  "demo_svc = \<lparr>svc_holdTTL = 300000, svc_requestTimeout = 2000000000, svc_maxRetries = 3, svc_digest = (\<lambda>s. s), svc_format = demo_format\<rparr>"

definition demo_ctx :: retry_ctx where
  "demo_ctx = \<lparr>rc_err = (\<lambda>_. None), rc_wait = (\<lambda>_. None)\<rparr>"

theorem withRetry_bounded_witness:
  "\<exists>calls. withRetry demo_ctx 2 0 (counted (\<lambda>k s. (Inl (PgError ''40001'') :: go_error + nat, s :: nat))) (7, 0) =
     (Inl (PgError ''40001''), (7, calls)) \<and> calls = 3"
proof -
  let ?fn = "\<lambda>k s. (Inl (PgError ''40001'') :: go_error + nat, s :: nat)"
  have w: "withRetry demo_ctx 2 0 (counted ?fn) (7, 0) = (Inl (PgError ''40001''), (7, 3))"
    by (simp add: withRetry_def retry_loop.simps demo_ctx_def counted_def serializationFailure_def)
  have "ctx_errors demo_ctx" by (simp add: ctx_errors_def demo_ctx_def)
  then show ?thesis using withRetry_bounded [OF _ w] w by (simp add: serializationFailure_def)
qed

text \<open>C30: a request never retries past its deadline. The calls of the operation are attempts 0, 1, ..., in
  order and at most max(0, maxRetries) + 1; every one of them starts before the request timeout has run out;
  every backoff between two of them is at most min(10ms * 2^n, 1s), the 64-bit shift never overflowing and
  the draw never panicking, and ends before the timeout too.\<close>

theorem retries_within_deadline:
  assumes "\<And>k n. 0 < n \<Longrightarrow> 0 \<le> rk_draw clock k n \<and> rk_draw clock k n < n"
    and "withRetry (deadline_ctx (withDeadline svc now parent) clock) (svc_maxRetries svc) zero (traced fn) (s, []) =
           (r, (s', trace))"
  shows "\<exists>b \<le> max 0 (svc_maxRetries svc). trace = [0..b]
     \<and> (\<forall>k \<in> {0..b}. rk_check clock k < now + svc_requestTimeout svc)
     \<and> (\<forall>k \<in> {0..<b}. \<exists>t. backoffFor (rk_draw clock k) k = Some t
          \<and> 0 \<le> t \<and> t \<le> min (baseBackoff * 2 ^ nat k) maxBackoff
          \<and> rk_sleep clock k + t < now + svc_requestTimeout svc)"
proof -
  let ?dl = "withDeadline svc now parent" and ?m = "if svc_maxRetries svc < 0 then 0 else svc_maxRetries svc"
  have dl: "?dl \<le> now + svc_requestTimeout svc" by (simp add: withDeadline_def Let_def split: option.splits)
  have "0 \<le> ?m" by simp
  from retry_loop_trace [OF this assms(2) [unfolded withRetry_def]] obtain b where
    b: "b \<le> ?m" "trace = [0..b]"
    and e: "\<And>k. 0 \<le> k \<Longrightarrow> k \<le> b \<Longrightarrow> rc_err (deadline_ctx ?dl clock) k = None"
    and w: "\<And>k. 0 \<le> k \<Longrightarrow> k < b \<Longrightarrow> rc_wait (deadline_ctx ?dl clock) k = None"
    by auto
  have "rk_check clock k < now + svc_requestTimeout svc" if "k \<in> {0..b}" for k
    using e [of k] that dl by (auto simp: deadline_ctx_def split: if_splits)
  moreover have "\<exists>t. backoffFor (rk_draw clock k) k = Some t \<and> 0 \<le> t \<and> t \<le> min (baseBackoff * 2 ^ nat k) maxBackoff
      \<and> rk_sleep clock k + t < now + svc_requestTimeout svc" if k: "k \<in> {0..<b}" for k
    using backoffFor_bounds [where draw = "rk_draw clock k" and attempt = k, OF assms(1)] w [of k] k dl
    by (fastforce simp: deadline_ctx_def split: if_splits)
  moreover have "b \<le> max 0 (svc_maxRetries svc)" using b(1) by (auto split: if_splits)
  ultimately show ?thesis using b(2) by (intro exI [of _ b]) (simp only: simp_thms ball_simps, blast)
qed

text \<open>A storm of serialization failures, one second per call: the third attempt would start too late.\<close>

definition storm_clock :: retry_clock where
  "storm_clock = \<lparr>rk_check = (\<lambda>n. n * 1010000000), rk_sleep = (\<lambda>n. n * 1010000000 + 1000000000), rk_draw = (\<lambda>_ n. n - 1)\<rparr>"

theorem retries_within_deadline_witness:
  "\<exists>b \<le> 3. snd (snd (withRetry (deadline_ctx (withDeadline demo_svc 0 None) storm_clock) 3 0
      (traced (\<lambda>k s. (Inl (PgError ''40001'') :: go_error + nat, s :: nat))) (7, []))) = [0..b]
     \<and> rk_check storm_clock b < 2000000000 \<and> b = 1"
proof -
  let ?run = "withRetry (deadline_ctx (withDeadline demo_svc 0 None) storm_clock) 3 0
      (traced (\<lambda>k s. (Inl (PgError ''40001'') :: go_error + nat, s :: nat))) (7, [])"
  have run: "?run = (Inl (WrapLast DeadlineExceeded (PgError ''40001'')), (7, [0, 1]))" by code_simp
  have "svc_maxRetries demo_svc = 3" "svc_requestTimeout demo_svc = 2000000000" by (simp_all add: demo_svc_def)
  then obtain b where b: "b \<le> 3" "[0, 1] = [0..b]" "\<forall>k\<in>{0..b}. rk_check storm_clock k < 2000000000"
    using retries_within_deadline [where svc = demo_svc and clock = storm_clock and now = 0 and parent = None
        and zero = "0 :: nat" and s = "7 :: nat", unfolded \<open>svc_maxRetries demo_svc = 3\<close>, OF _ run]
    by (auto simp: storm_clock_def)
  have "b = 1" using arg_cong [OF b(2), of length] by simp
  then show ?thesis using run b by (intro exI [of _ b]) simp
qed


section \<open>The seat cache\<close>

text \<open>The version of a snapshot separates snapshots: unless the digest collides on their two streams,
  two snapshots have the same version only if they are of the same match and list the same seats with the
  same states and expiries. The length prefixes make the stream unambiguous for any strings at all; the
  time format has to be lossless and never empty.\<close>

lemma version_separates:
  assumes "digest (version_stream format m xs) = digest (version_stream format m' ys) \<Longrightarrow>
             version_stream format m xs = version_stream format m' ys"
    and "inj format" and "\<And>t. format t \<noteq> ''''"
    and "seatSnapshotVersion digest format m xs = seatSnapshotVersion digest format m' ys"
  shows "m = m' \<and> xs = ys"
  using version_stream_inj [OF assms(2,3) assms(1) [OF assms(4) [unfolded seatSnapshotVersion_def]]] .

lemma show_int_inj: "show_int a = show_int b \<Longrightarrow> a = b"
  using show_nat_no_sign [of "CHR ''-''"]
  by (auto simp: show_int_def split: if_splits) (metis list.set_intros(1))+

lemma demo_format_inj: "inj demo_format" "demo_format t \<noteq> ''''"
  using show_int_inj by (auto simp: inj_def demo_format_def)

text \<open>The cache bounds staleness: after a load filled the entry of a match at some instant, a read
  hits it up to and including the instant one TTL later and misses it afterwards; an invalidation makes
  the next read miss, and neither touches another match.\<close>

lemma cache_staleness_bounded:
  assumes "load digest format seatCacheTTL env m (Inr ss) c = (Inr e, c')"
    and "cache_get (ce_get env) m c = None" and "ce_joined env = None"
    and "cache_get (ce_recheck env) m (ce_between env c) = None"
  shows "sce_seats e = ss
    \<and> cache_get t m c' = (if t \<le> ce_put env + seatCacheTTL then Some e else None)
    \<and> cache_get t m (invalidate m c') = None
    \<and> (m' \<noteq> m \<longrightarrow> cache_get t m' c' = cache_get t m' (ce_between env c)
         \<and> cache_get t m' (invalidate m c') = cache_get t m' c')"
proof -
  have "ce_ctx env = None" using assms by (auto simp: load_def flight_def Let_def split: option.splits)
  then have e: "e = cache_entry digest format seatCacheTTL (ce_put env) m ss"
    and c': "c' = cache_put m e (ce_between env c)"
    using load_miss [OF assms(2,3) _ assms(4)] assms(1) by (auto simp: Let_def)
  have "sce_expiresAt e = ce_put env + seatCacheTTL" "sce_seats e = ss" by (simp_all add: e cache_entry_def)
  then show ?thesis
    using seat_cache.get_put [of t m e "ce_between env c"] seat_cache.get_put_other [of m' m t e "ce_between env c"]
      seat_cache.get_drop [of t m c'] seat_cache.get_drop_other [of m' m t c']
    by (simp add: c')
qed

definition demo_cache_env :: "time \<Rightarrow> cache_env" where
  "demo_cache_env t = \<lparr>ce_get = t, ce_between = (\<lambda>c. c), ce_joined = None, ce_recheck = t, ce_put = t, ce_ctx = None\<rparr>"

section \<open>The service\<close>

lemma placeHold_retryable_same_tables:
  assumes "alone env" and "\<And>x. he_fault env CommitTx = FailAfter x \<Longrightarrow> \<not> isRetryable x"
    and "placeHold env m s b ttl key d = (Inl e, d')" and "isRetryable e"
  shows "same_tables d d'"
proof -
  have tx: "same_tables d w \<or> (\<exists>x. f = FailWith (Wrap ''place hold: commit'' x) \<and> he_fault env CommitTx = FailAfter x)"
    if "hold_tx env m s b ttl key stale d = (Inl f, w)" for stale f w
    using that by (auto simp: hold_tx_def in_tx_def same_tables_def rollback_def split: fault.splits prod.splits sum.splits)
  have "same_tables d d'" if "hold_attempt env m s b ttl key stale d = (Inl e, d')" for stale
    using that assms(1,2,4) tx [of stale]
    by (auto simp: hold_attempt_def alone_def Let_def split: prod.splits sum.splits hold_failure.splits)
  then show ?thesis
    using assms(3) by (auto simp: placeHold_def split: if_splits sum.splits prod.splits)
qed

interpretation tables: step_contract same_tables
  by unfold_locales (auto simp: same_tables_def)

text \<open>C22: a hold placed through the service is placed once. When the service reports a hold, the
  database went from the old tables to the new ones by exactly one successful call of the store: every
  attempt before it that ended in a serialization failure or a deadlock left no trace. (PostgreSQL reports
  these two only for a transaction it rolled back.) The cached seat map of the match is dropped.\<close>

theorem service_hold_once:
  assumes "\<And>n. alone (envs n)" and "\<And>n x. he_fault (envs n) CommitTx = FailAfter x \<Longrightarrow> \<not> isRetryable x"
    and "service_placeHold svc sv envs m s b key (d, c) = (Inr h, (d', c'))"
  shows "\<exists>n d0 row. same_tables d d0 \<and> placeHold (envs n) m s b (svc_holdTTL svc) key d0 = (Inr row, d')
     \<and> h = hold_of_row row \<and> c' = invalidate m (sv_cache sv c)"
proof -
  let ?fn = "store_hold svc envs m s b key"
  have run: "withRetry (sv_ctx sv) (svc_maxRetries svc) zero_hold ?fn d = (Inr h, d')"
    and c': "c' = invalidate m (sv_cache sv c)"
    using assms(3) by (simp_all add: service_Inr)
  have fail: "same_tables x x'" if "?fn k x = (Inl e, x')" "isRetryable e" for k x e x'
    using that placeHold_retryable_same_tables [OF assms(1,2)]
    by (auto simp: store_hold_def PlaceHoldWithKey_def bindA_def split: prod.splits sum.splits)
  have "\<exists>k d0. 0 \<le> k \<and> k \<le> (if svc_maxRetries svc < 0 then 0 else svc_maxRetries svc)
      \<and> same_tables d d0 \<and> ?fn k d0 = (Inr h, d')"
    by (rule tables.retry_loop_success [OF _ _ run [unfolded withRetry_def]]) (use fail in auto)
  then obtain k d0 where "same_tables d d0" "?fn k d0 = (Inr h, d')" by blast
  then show ?thesis
    using c' by (auto simp: store_hold_def PlaceHoldWithKey_def bindA_Inr_iff)
qed

definition demo_sv :: service_env where
  "demo_sv = \<lparr>sv_ctx = demo_ctx, sv_cache = (\<lambda>c. c)\<rparr>"

text \<open>An environment whose first attempt ends in a serialization failure.\<close>

definition demo_storm :: "int \<Rightarrow> hold_env" where
  "demo_storm n = (demo_env 200)\<lparr>he_fault := (\<lambda>site. if n = 0 \<and> site = InsertHold then FailBefore (PgError ''40001'') else NoFault)\<rparr>"

theorem service_hold_once_witness:
  "\<exists>h d' c' n d0 row. service_placeHold demo_svc demo_sv demo_storm ''M1'' ''A4'' ''erin'' '''' (demo_db, \<lambda>_. None) = (Inr h, (d', c'))
     \<and> same_tables demo_db d0 \<and> placeHold (demo_storm n) ''M1'' ''A4'' ''erin'' 300000 '''' d0 = (Inr row, d')"
proof -
  have "\<exists>h. fst (service_placeHold demo_svc demo_sv demo_storm ''M1'' ''A4'' ''erin'' '''' (demo_db, \<lambda>_. None)) = Inr h"
  proof
    show "fst (service_placeHold demo_svc demo_sv demo_storm ''M1'' ''A4'' ''erin'' '''' (demo_db, \<lambda>_. None)) =
      Inr \<lparr>ho_ID = 5, ho_MatchID = ''M1'', ho_SeatID = ''A4'', ho_BuyerID = ''erin'', ho_Status = ''held'', ho_HoldExpiresAt = Some 500\<rparr>"
      by code_simp
  qed
  then obtain h d' c' where r: "service_placeHold demo_svc demo_sv demo_storm ''M1'' ''A4'' ''erin'' '''' (demo_db, \<lambda>_. None) = (Inr h, (d', c'))"
    by (metis prod.collapse)
  have "alone (demo_storm n)" "he_fault (demo_storm n) CommitTx \<noteq> FailAfter x" for n x
    by (simp_all add: demo_storm_def alone_def)
  then show ?thesis
    using service_hold_once [OF _ _ r] r by (simp add: demo_svc_def) blast
qed

text \<open>What a read shows when the cache has no entry for the match.\<close>

definition board_seats :: "collation \<Rightarrow> time \<Rightarrow> string \<Rightarrow> db \<Rightarrow> Seat list" where
  "board_seats coll now m d = map (\<lambda>s. seat_of_status (seat_line now d s)) (seats_of coll m d)"

definition read_alone :: "cache_env \<Rightarrow> bool" where
  "read_alone cenv \<longleftrightarrow> ce_joined cenv = None \<and> ce_ctx cenv = None \<and> (\<forall>c. ce_between cenv c = c)"

lemma read_after_drop:
  assumes "db_inv d" and "ce_joined cenv = None" "ce_ctx cenv = None" "ce_between cenv c m = None" and "c m = None"
  shows "\<exists>v c'. service_ListSeatsVersioned svc cenv NoFault coll now m (d, c) = (Inr (board_seats coll now m d, v), (d, c'))"
proof -
  have "load_seats NoFault coll now m d = Inr (board_seats coll now m d)"
    using ListSeats_board [OF assms(1)] by (simp add: load_seats_def board_seats_def)
  moreover have "cache_get t m (ce_between cenv c) = None" "cache_get t m c = None" for t
    using assms(4,5) by (simp_all add: cache_get_def)
  ultimately show ?thesis
    using assms(2,3) by (simp add: service_ListSeatsVersioned_def load_miss cache_entry_def Let_def)
qed

text \<open>A read that no other goroutine's read of the match overtakes: it joins no flight that began before it, its
  context stays alive, and no flight puts an entry for the match before its own looks again. Whatever happens to
  the other matches in the cache is left open.\<close>

definition read_fresh :: "cache_env \<Rightarrow> string \<Rightarrow> cache_items \<Rightarrow> bool" where
  "read_fresh cenv m c \<longleftrightarrow> ce_joined cenv = None \<and> ce_ctx cenv = None \<and> ce_between cenv c m = None"

text \<open>C23: a client reads its own writes: after a hold, a confirmation, a release or a cancellation that the service
  reported as done, the next read of that match's seat map comes from the database and is the board of that very
  state, in the order of section and seat, however fresh the entry was that the cache held before. The read must not
  be overtaken: it joins no flight that is already under way, and none refills the entry in between (the code does
  not exclude that). The match is the one of the request for a hold, and the one of the booking otherwise.\<close>

theorem read_your_writes:
  assumes "(\<exists>h envs s b key. service_placeHold svc sv envs m s b key st = (Inr h, (d', c')))
     \<or> (\<exists>i. booking_in m i d' \<and>
         ((\<exists>bk envs b. service_ConfirmHold svc sv envs i b st = (Inr bk, (d', c')))
          \<or> (\<exists>f t b. service_ReleaseHold sv f t i b st = (Inr (), (d', c')))
          \<or> (\<exists>bk envs b. service_CancelBooking svc sv envs i b st = (Inr bk, (d', c')))))"
    and "db_inv d'" and "read_fresh cenv m c'"
  shows "\<exists>ls v c''. service_ListSeatsVersioned svc cenv NoFault coll now m (d', c') =
           (Inr (map seat_of_status ls, v), (d', c'')) \<and> board_listing coll now m d' ls"
proof -
  have inv: "schema_inv d'" using assms(2) by (simp add: db_inv_def)
  have "c' m = None"
    using assms(1)
  proof (elim disjE exE conjE)
    fix i bk envs b assume m: "booking_in m i d'" and "service_ConfirmHold svc sv envs i b st = (Inr bk, (d', c'))"
    then have "booking_in (bo_MatchID bk) i d'" "c' = invalidate (bo_MatchID bk) (sv_cache sv (snd st))"
      by (simp_all only: service_booking_in(1) service_Inr)
    then show ?thesis using booking_in_unique [OF inv m] by (simp add: invalidate_def)
  next
    fix i f t b assume m: "booking_in m i d'" and "service_ReleaseHold sv f t i b st = (Inr (), (d', c'))"
    then obtain m' where "ReleaseHold f t i b (fst st) = (Inr m', d')" "c' = invalidate m' (sv_cache sv (snd st))"
      unfolding service_Inr by blast
    then show ?thesis using booking_in_unique [OF inv m ReleaseHold_booking_in] by (simp add: invalidate_def)
  next
    fix i bk envs b assume m: "booking_in m i d'" and "service_CancelBooking svc sv envs i b st = (Inr bk, (d', c'))"
    then have "booking_in (bo_MatchID bk) i d'" "c' = invalidate (bo_MatchID bk) (sv_cache sv (snd st))"
      by (simp_all only: service_booking_in(2) service_Inr)
    then show ?thesis using booking_in_unique [OF inv m] by (simp add: invalidate_def)
  qed (auto simp: service_Inr invalidate_def)
  then have "\<exists>v c''. service_ListSeatsVersioned svc cenv NoFault coll now m (d', c') =
      (Inr (board_seats coll now m d', v), (d', c''))"
    using assms(3) by (intro read_after_drop [OF assms(2)]) (simp_all add: read_fresh_def)
  moreover have "board_seats coll now m d' = map seat_of_status (map (seat_line now d') (seats_of coll m d'))"
    by (simp add: board_seats_def)
  ultimately show ?thesis
    using seats_listing [OF assms(2), of coll now m] by (metis (no_types))
qed

theorem read_your_writes_witness:
  "\<exists>v c' d' ls. service_ListSeatsVersioned demo_svc (demo_cache_env 10) NoFault plain_collation 200 ''M1''
     (snd (service_placeHold demo_svc demo_sv (\<lambda>_. demo_env 200) ''M1'' ''A4'' ''erin'' '''' (demo_db, \<lambda>_. None))) =
       (Inr (map seat_of_status ls, v), (d', c'))
     \<and> board_listing plain_collation 200 ''M1'' d' ls \<and> d' \<noteq> demo_db
   \<and> (\<exists>v c' ls. service_ListSeatsVersioned demo_svc (demo_cache_env 10) NoFault plain_collation 200 ''M1''
        (snd (service_ReleaseHold demo_sv NoFault 200 1 ''alice'' (demo_db, \<lambda>_. None))) = (Inr (map seat_of_status ls, v), c'))"
proof -
  let ?r = "service_placeHold demo_svc demo_sv (\<lambda>_. demo_env 200) ''M1'' ''A4'' ''erin'' '''' (demo_db, \<lambda>_. None)"
  have "fst ?r = Inr \<lparr>ho_ID = 5, ho_MatchID = ''M1'', ho_SeatID = ''A4'', ho_BuyerID = ''erin'', ho_Status = ''held'', ho_HoldExpiresAt = Some 500\<rparr>"
    "bookings_id_seq (fst (snd ?r)) = 6"
    by code_simp+
  then obtain h d' c' where r: "?r = (Inr h, (d', c'))" and "bookings_id_seq d' = 6" by (metis prod.collapse)
  then have "d' \<noteq> demo_db" by (auto simp: demo_tables)
  have e: "env_obeys R (demo_env 200)" if "\<And>d. R d d" for R using that by (simp add: env_obeys_def)
  have "schema_step demo_db d'" "keeping refund_inv demo_db d'"
    using hold_schema.R_service_placeHold [where st = "(demo_db, \<lambda>_. None)" and envs = "\<lambda>_. demo_env 200", OF e]
      hold_refund.R_service_placeHold [where st = "(demo_db, \<lambda>_. None)" and envs = "\<lambda>_. demo_env 200", OF e]
      r schema.R_refl
    by (metis fst_conv snd_conv)+
  then have "db_inv d'" by (simp add: db_inv_def schema_step_def)
  then have 1: "\<exists>ls v c''. service_ListSeatsVersioned demo_svc (demo_cache_env 10) NoFault plain_collation 200 ''M1'' (d', c') =
      (Inr (map seat_of_status ls, v), (d', c'')) \<and> board_listing plain_collation 200 ''M1'' d' ls"
    using r
    by (intro read_your_writes [where st = "(demo_db, \<lambda>_. None)" and sv = demo_sv])
      (auto simp: read_fresh_def demo_cache_env_def service_Inr invalidate_def demo_sv_def)
  let ?q = "service_ReleaseHold demo_sv NoFault 200 1 ''alice'' (demo_db, \<lambda>_. None)"
  let ?d = "demo_db\<lparr>bookings := update_where (\<lambda>r. bk_id r = bk_id alice_hold \<and> releasable ''alice'' r) (cancel_row 200) (bookings demo_db)\<rparr>"
  have rel: "ReleaseHold NoFault 200 1 ''alice'' demo_db = (Inr ''M1'', ?d)"
    using ReleaseHold_row [OF demo_schema_inv, of alice_hold 200 "''alice''"] by (simp add: demo_tables demo_rows releasable_def)
  then have q: "?q = (Inr (), (?d, \<lambda>_. None))" by (auto simp: service_ReleaseHold_def demo_sv_def invalidate_def)
  have "schema_step demo_db ?d" "keeping refund_inv demo_db ?d"
    using obeys_eqD [OF hold_schema.obeys_ReleaseHold rel] obeys_eqD [OF hold_refund.obeys_ReleaseHold rel] by blast+
  then have inv: "db_inv ?d" by (simp add: db_inv_def schema_step_def)
  have "booking_in ''M1'' 1 ?d" by (rule ReleaseHold_booking_in [OF rel])
  then have "\<exists>ls v c''. service_ListSeatsVersioned demo_svc (demo_cache_env 10) NoFault plain_collation 200 ''M1'' (?d, \<lambda>_. None) =
      (Inr (map seat_of_status ls, v), (?d, c'')) \<and> board_listing plain_collation 200 ''M1'' ?d ls"
    using q
    by (intro read_your_writes [where st = "(demo_db, \<lambda>_. None)" and sv = demo_sv, OF disjI2 inv])
      (blast, simp add: read_fresh_def demo_cache_env_def)
  with 1 show ?thesis using r q \<open>d' \<noteq> demo_db\<close> by fastforce
qed


section \<open>HTTP\<close>

text \<open>The answer to a request that places a hold, and the database after it.\<close>

definition new_hold_answer ::
  "Service \<Rightarrow> hold_env \<Rightarrow> string \<Rightarrow> string \<Rightarrow> string \<Rightarrow> string \<Rightarrow> int \<Rightarrow> db \<Rightarrow> response \<Rightarrow> db \<Rightarrow> bool"
where
  "new_hold_answer svc env m s b key stale d resp d' \<longleftrightarrow>
     (if seat_taken (he_tx_now env) m s d
      then rs_status resp = 409 \<and> rs_body resp = ErrorBody ''seat_unavailable'' \<and> same_tables d d'
      else if \<not> seat_exists m s d
      then rs_status resp = 500 \<and> rs_body resp = ErrorBody ''internal_error'' \<and> same_tables d d'
      else rs_status resp = 201
        \<and> rs_body resp = HoldBody (hold_of_row (booking_row_of (placed_row env m s b (svc_holdTTL svc) d)))
        \<and> d' = placed_db env m s b (svc_holdTTL svc) key stale d)"

lemma attempt_answer:
  assumes "attempt_outcome env m s b (svc_holdTTL svc) key stale d = (res, d')"
  shows "new_hold_answer svc env m s b key stale d
     (case res of Inl err \<Rightarrow> writeError err no_header | Inr row \<Rightarrow> writeJSON 201 (HoldBody (hold_of_row row)) no_header) d'"
  using assms by (auto simp: attempt_outcome_def new_hold_answer_def writeError_def same_tables_def split: if_splits)

lemma handleHold_first:
  assumes "buyer_in_body (rq_body r) b" and "b \<noteq> ''''" and "length b \<le> 255" and "length (header_get ''Idempotency-Key'' (rq_header r)) \<le> 255"
    and "rc_err (sv_ctx sv) 0 = None" and "faultless (envs 0)"
    and "placeHold (envs 0) (rq_path r ''matchId'') (rq_path r ''seatId'') b (svc_holdTTL svc)
           (header_get ''Idempotency-Key'' (rq_header r)) d = (res, d')"
    and "\<And>e. res = Inl e \<Longrightarrow> \<not> isRetryable e"
    and "handleHold svc sv envs r (d, c) = (resp, (d2, c'))"
  shows "d2 = d' \<and> resp =
     (case res of Inl err \<Rightarrow> writeError err no_header | Inr row \<Rightarrow> writeJSON 201 (HoldBody (hold_of_row row)) no_header)"
proof -
  let ?m = "rq_path r ''matchId''" and ?s = "rq_path r ''seatId''" and ?key = "header_get ''Idempotency-Key'' (rq_header r)"
  have fn: "store_hold svc envs ?m ?s b ?key 0 d = (case res of Inl e \<Rightarrow> Inl e | Inr row \<Rightarrow> Inr (hold_of_row row), d')"
    using assms(7) by (simp add: store_hold_def PlaceHoldWithKey_def bindA_def returnA_def split: sum.split)
  have "withRetry (sv_ctx sv) (svc_maxRetries svc) zero_hold (store_hold svc envs ?m ?s b ?key) d = store_hold svc envs ?m ?s b ?key 0 d"
    using assms(5,8) by (intro withRetry_first) (auto simp: fn split: sum.splits)
  then have svc: "\<exists>c'. service_PlaceHoldWithKey svc sv envs ?m ?s b ?key (d, c) =
      (case res of Inl e \<Rightarrow> Inl e | Inr row \<Rightarrow> Inr (hold_of_row row), (d', c'))"
    by (simp add: service_PlaceHoldWithKey_def service_placeHold_def fn split: sum.split)
  have "decodeJSON (rq_body r) = Some b" using decodeJSON_buyer [OF assms(2)] assms(1) by simp
  then show ?thesis
    using svc assms(2-4,9)
    by (auto simp: handleHold_def Let_def validBuyerID_def maxBuyerIDLen_def validIdempotencyKey_def maxIdempotencyKeyLen_def
        split: sum.splits)
qed

text \<open>C27: from the request to the tables: every well-formed hold request (a buyer of 1 to 255 bytes in the body, a key
  of at most 255 bytes) that meets no fault, no deadline and no other session, while the sequence of identities lasts,
  is answered, and changes the tables, as follows. Without a key, or with one never recorded: 201 with the new hold when the seat is free, 409
  seat_unavailable when it is taken, 500 when there is no such seat; the tables change in the first case only.
  With a recorded key: 422 when it belongs to a request for another match, seat or buyer; 201 with its booking, and no
  change, while that is live; otherwise as a fresh request that re-points the key.\<close>

theorem hold_request_end_to_end:
  assumes "schema_inv d" and "bookings_id_seq d \<le> max_int64"
    and "m = rq_path r ''matchId''" and "s = rq_path r ''seatId''" and "key = header_get ''Idempotency-Key'' (rq_header r)"
    and "buyer_in_body (rq_body r) b" and "b \<noteq> ''''" and "length b \<le> 255" and "length key \<le> 255"
    and "faultless (envs 0)" and "he_lookup_now (envs 0) \<le> he_replay_now (envs 0)" and "rc_err (sv_ctx sv) 0 = None"
    and "handleHold svc sv envs r (d, c) = (resp, (d', c'))"
  shows "(key = '''' \<or> key \<notin> ik_key ` set (idempotency_keys d) \<longrightarrow> new_hold_answer svc (envs 0) m s b key 0 d resp d')
     \<and> (\<forall>k \<in> set (idempotency_keys d). \<forall>q \<in> set (bookings d).
          key \<noteq> '''' \<and> ik_key k = key \<and> bk_id q = ik_booking_id k \<longrightarrow>
            (if (bk_match_id q, bk_seat_id q, bk_buyer_id q) \<noteq> (m, s, b)
             then rs_status resp = 422 \<and> rs_body resp = ErrorBody ''idempotency_key_reuse'' \<and> d' = d
             else if live (he_lookup_now (envs 0)) q
             then rs_status resp = 201 \<and> rs_body resp = HoldBody (hold_of_row (booking_row_of q)) \<and> d' = d
             else new_hold_answer svc (envs 0) m s b key (bk_id q) d resp d'))"
proof -
  let ?ttl = "svc_holdTTL svc"
  obtain res d2 where call: "placeHold (envs 0) m s b ?ttl key d = (res, d2)" by (meson surj_pair)
  note first = handleHold_first [OF assms(6-8) _ assms(12,10) _ _ assms(13), folded assms(3-5), OF assms(9) call]
  have attempt: "new_hold_answer svc (envs 0) m s b key stale d resp d'"
    if out: "placeHold (envs 0) m s b ?ttl key d = attempt_outcome (envs 0) m s b ?ttl key stale d" for stale
  proof -
    have att: "attempt_outcome (envs 0) m s b ?ttl key stale d = (res, d2)" using call out by simp
    then have "\<not> isRetryable e" if "res = Inl e" for e
      using that by (auto simp: attempt_outcome_def isRetryable_def serializationFailure_def deadlockDetected_def split: if_splits)
    from first [OF this] show ?thesis using attempt_answer [OF att] by simp
  qed
  have fresh: "new_hold_answer svc (envs 0) m s b key 0 d resp d'" if "key = '''' \<or> key \<notin> ik_key ` set (idempotency_keys d)"
    by (rule attempt [OF placeHold_fresh_outcome [OF assms(1,2,10) that]])
  have keyed: "if (bk_match_id q, bk_seat_id q, bk_buyer_id q) \<noteq> (m, s, b)
             then rs_status resp = 422 \<and> rs_body resp = ErrorBody ''idempotency_key_reuse'' \<and> d' = d
             else if live (he_lookup_now (envs 0)) q
             then rs_status resp = 201 \<and> rs_body resp = HoldBody (hold_of_row (booking_row_of q)) \<and> d' = d
             else new_hold_answer svc (envs 0) m s b key (bk_id q) d resp d'"
    if k: "k \<in> set (idempotency_keys d)" "q \<in> set (bookings d)" "bk_id q = ik_booking_id k" "key \<noteq> ''''" "ik_key k = key" for k q
  proof -
    note out = placeHold_keyed_outcome [OF assms(1,2,10,11) k(1-3), of m s b ?ttl, unfolded k(5), OF k(4)]
    have same: "same_request m s b q \<longleftrightarrow> (bk_match_id q, bk_seat_id q, bk_buyer_id q) = (m, s, b)"
      by (auto simp: same_request_def)
    consider "\<not> same_request m s b q" | "same_request m s b q" "live (he_lookup_now (envs 0)) q"
      | "same_request m s b q" "\<not> live (he_lookup_now (envs 0)) q" by blast
    then show ?thesis
    proof cases
      case 1
      then have "res = Inl ErrIdempotencyKeyReuse" "d2 = d" using call out by simp_all
      then show ?thesis using 1 first by (simp add: same writeError_def isRetryable_def)
    next
      case 2
      then have "res = Inr (booking_row_of q)" "d2 = d" using call out by simp_all
      then show ?thesis using 2 first by (simp add: same)
    next
      case 3
      then show ?thesis using attempt out by (simp add: same)
    qed
  qed
  show ?thesis using fresh keyed by blast
qed

definition demo_request :: "string \<Rightarrow> string \<Rightarrow> request" where
  "demo_request seat buyer =
     \<lparr>rq_method = ''POST'', rq_url = [''matches'', ''M1'', ''seats'', seat, ''hold''],
      rq_path = (\<lambda>p. if p = ''matchId'' then ''M1'' else if p = ''seatId'' then seat else ''''),
      rq_query = (\<lambda>_. ''''), rq_header = no_header,
      rq_body = JsonBody 64 (JObject [(''buyer_id'', JString buyer)]), rq_remote = ''10.0.0.1:4711''\<rparr>"

definition demo_racer :: "time \<Rightarrow> string \<Rightarrow> racer" where
  "demo_racer t buyer = \<lparr>ra_buyer = buyer, ra_service = demo_sv, ra_env = (\<lambda>_. demo_env t), ra_delivered = True\<rparr>"

lemma demo_racer_clean [simp]: "clean_racer (demo_racer t b)" "racer_now (demo_racer t b) = t"
  by (simp_all add: clean_racer_def demo_racer_def demo_sv_def demo_ctx_def racer_now_def)

definition keyed_request :: "string \<Rightarrow> string \<Rightarrow> string \<Rightarrow> request" where
  "keyed_request seat buyer key = (demo_request seat buyer)\<lparr>rq_header := header_set ''Idempotency-Key'' key no_header\<rparr>"

lemma demo_request_simps [simp]:
  "rq_path (demo_request seat buyer) ''matchId'' = ''M1''" "rq_path (demo_request seat buyer) ''seatId'' = seat"
  "header_get k (rq_header (demo_request seat buyer)) = ''''"
  "buyer_in_body (rq_body (demo_request seat buyer)) b \<longleftrightarrow> b = buyer"
  by (auto simp: demo_request_def header_get_def no_header_def buyer_in_body_def last_named_Cons names_buyer_def)

lemma demo_env_faultless [simp]: "faultless (demo_env t)"
  by (simp add: faultless_def)

theorem hold_request_end_to_end_witness:
  "rs_status (fst (handleHold demo_svc demo_sv (\<lambda>_. demo_env 200) (demo_request ''A1'' ''erin'') (demo_db, \<lambda>_. None))) = 409
   \<and> rs_status (fst (handleHold demo_svc demo_sv (\<lambda>_. demo_env 200) (demo_request ''Z9'' ''erin'') (demo_db, \<lambda>_. None))) = 500
   \<and> rs_status (fst (handleHold demo_svc demo_sv (\<lambda>_. demo_env 200) (keyed_request ''A4'' ''erin'' ''k1'') (demo_db, \<lambda>_. None))) = 422
   \<and> snd (handleHold demo_svc demo_sv (\<lambda>_. demo_env 200) (keyed_request ''A1'' ''alice'' ''k1'') (demo_db, \<lambda>_. None)) =
       (demo_db, snd (snd (handleHold demo_svc demo_sv (\<lambda>_. demo_env 200) (keyed_request ''A1'' ''alice'' ''k1'') (demo_db, \<lambda>_. None))))"
proof -
  let ?h = "\<lambda>r. handleHold demo_svc demo_sv (\<lambda>_. demo_env 200) r (demo_db, \<lambda>_. None)"
  have split: "?h r = (fst (?h r), (fst (snd (?h r)), snd (snd (?h r))))" for r by simp
  have ctx: "rc_err (sv_ctx demo_sv) 0 = None" by (simp add: demo_sv_def demo_ctx_def)
  have seq: "bookings_id_seq demo_db \<le> max_int64" by (simp add: demo_tables max_int64_def)
  have taken: "seat_taken 200 ''M1'' ''A1'' demo_db" "\<not> seat_taken 200 ''M1'' ''Z9'' demo_db" "\<not> seat_exists ''M1'' ''Z9'' demo_db"
    by (simp_all add: demo_defs seat_taken_def seat_exists_def row_defs stale_hold_def expires_before_def)
  have new: "new_hold_answer demo_svc (demo_env 200) ''M1'' seat ''erin'' '''' 0 demo_db
      (fst (?h (demo_request seat ''erin''))) (fst (snd (?h (demo_request seat ''erin''))))" for seat
    using hold_request_end_to_end [OF demo_schema_inv seq refl refl refl _ _ _ _ _ _ ctx split [of "demo_request seat ''erin''"],
        where b = "''erin''"] by simp
  have keyed: "(if (bk_match_id q, bk_seat_id q, bk_buyer_id q) \<noteq> (''M1'', seat, buyer)
             then rs_status (fst (?h r)) = 422 \<and> rs_body (fst (?h r)) = ErrorBody ''idempotency_key_reuse'' \<and> fst (snd (?h r)) = demo_db
             else if live 200 q
             then rs_status (fst (?h r)) = 201 \<and> rs_body (fst (?h r)) = HoldBody (hold_of_row (booking_row_of q)) \<and> fst (snd (?h r)) = demo_db
             else new_hold_answer demo_svc (demo_env 200) ''M1'' seat buyer ''k1'' (bk_id q) demo_db (fst (?h r)) (fst (snd (?h r))))"
    if "r = keyed_request seat buyer ''k1''" "k \<in> set (idempotency_keys demo_db)" "q \<in> set (bookings demo_db)" "ik_key k = ''k1''"
      "bk_id q = ik_booking_id k" "buyer \<noteq> ''''" "length buyer \<le> 255" for k q r seat buyer
  proof -
    have rq: "rq_path r ''matchId'' = ''M1''" "rq_path r ''seatId'' = seat" "header_get ''Idempotency-Key'' (rq_header r) = ''k1''"
        "buyer_in_body (rq_body r) buyer" "length ''k1'' \<le> 255" "he_lookup_now (demo_env 200) = 200" "he_replay_now (demo_env 200) = 200"
      by (simp_all add: that(1) keyed_request_def demo_env_def)
    note end_to_end = hold_request_end_to_end [OF demo_schema_inv seq refl refl refl rq(4) that(6,7) _ demo_env_faultless _ ctx split, unfolded rq]
    show ?thesis using bspec [OF bspec [OF conjunct2 [OF end_to_end [OF rq(5) order.refl]] that(2)] that(3)] that(4,5) by simp
  qed
  have "rs_status (fst (?h (keyed_request ''A4'' ''erin'' ''k1''))) = 422"
    using keyed [OF refl, where seat = "''A4''" and buyer = "''erin''" and
        k = "\<lparr>ik_key = ''k1'', ik_booking_id = 1, ik_created_at = 0\<rparr>" and q = alice_hold]
    by (simp add: demo_tables) (simp add: demo_rows)
  moreover have "fst (snd (?h (keyed_request ''A1'' ''alice'' ''k1''))) = demo_db"
    using keyed [OF refl, where seat = "''A1''" and buyer = "''alice''" and
        k = "\<lparr>ik_key = ''k1'', ik_booking_id = 1, ik_created_at = 0\<rparr>" and q = alice_hold]
    by (simp add: demo_tables) (simp add: demo_rows live_def expires_after_def)
  ultimately show ?thesis
    using new [of "''A1''"] new [of "''Z9''"] taken by (simp add: new_hold_answer_def prod_eq_iff)
qed

text \<open>A body without an acceptable buyer, in the words of the API: none named, or not of 1 to 255 bytes.\<close>

definition bad_buyer :: "request \<Rightarrow> bool" where
  "bad_buyer r \<longleftrightarrow> (\<nexists>b. buyer_in_body (rq_body r) b \<and> b \<noteq> '''' \<and> length b \<le> 255)"

lemma bad_buyer_cases:
  "(case decodeJSON (rq_body r) of None \<Rightarrow> True | Some b \<Rightarrow> \<not> validBuyerID b) \<longleftrightarrow> bad_buyer r"
  unfolding bad_buyer_def buyer_accepted [symmetric] by (simp split: option.split)

lemma parseIDAndBuyer_cases:
  "(\<exists>resp. parseIDAndBuyer r p = Inl resp \<and> rs_status resp = 400) \<and> (bad_buyer r \<or> \<not> int64_text (rq_path r p))
   \<or> (\<exists>x. parseIDAndBuyer r p = Inr x) \<and> \<not> bad_buyer r \<and> int64_text (rq_path r p)"
  unfolding bad_buyer_cases [symmetric] parse_int64_iff [symmetric]
  by (auto simp: parseIDAndBuyer_def split: option.splits)

text \<open>C37: exactly the malformed requests are answered 400, and they change neither the database nor the cache. For a
  hold: the body names no buyer of 1 to 255 bytes (see \<open>buyer_in_body\<close>), or the idempotency key is longer than 255
  bytes. For a confirmation, a release and a cancellation: no such buyer, or an id that is no decimal of 64 bits. For
  the history, which only reads: the buyer in the query is empty or longer than 255 bytes.\<close>

theorem malformed_request_rejected:
  "(rs_status (fst (handleHold svc sv envs r st)) = 400 \<longleftrightarrow>
      bad_buyer r \<or> 255 < length (header_get ''Idempotency-Key'' (rq_header r)))
   \<and> (rs_status (fst (handleConfirm svc sv cenvs r st)) = 400 \<longleftrightarrow> bad_buyer r \<or> \<not> int64_text (rq_path r ''holdId''))
   \<and> (rs_status (fst (handleRelease sv f now r st)) = 400 \<longleftrightarrow> bad_buyer r \<or> \<not> int64_text (rq_path r ''holdId''))
   \<and> (rs_status (fst (handleCancel svc sv xenvs r st)) = 400 \<longleftrightarrow> bad_buyer r \<or> \<not> int64_text (rq_path r ''bookingId''))
   \<and> (rs_status (handleListBookings f r d) = 400 \<longleftrightarrow> rq_query r ''buyer_id'' = '''' \<or> 255 < length (rq_query r ''buyer_id''))
   \<and> (\<forall>answer \<in> {handleHold svc sv envs r st, handleConfirm svc sv cenvs r st, handleRelease sv f now r st,
                  handleCancel svc sv xenvs r st}. rs_status (fst answer) = 400 \<longrightarrow> snd answer = st)"
proof -
  have 1: "rs_status (fst (handleHold svc sv envs r st)) = 400 \<longleftrightarrow>
      bad_buyer r \<or> 255 < length (header_get ''Idempotency-Key'' (rq_header r))"
    and h: "rs_status (fst (handleHold svc sv envs r st)) = 400 \<Longrightarrow> snd (handleHold svc sv envs r st) = st"
    unfolding bad_buyer_cases [symmetric]
    by (auto simp: handleHold_def Let_def validIdempotencyKey_def maxIdempotencyKeyLen_def split: option.splits prod.splits sum.splits)
  have 2: "rs_status (fst (handleConfirm svc sv cenvs r st)) = 400 \<longleftrightarrow> bad_buyer r \<or> \<not> int64_text (rq_path r ''holdId'')"
    and c: "rs_status (fst (handleConfirm svc sv cenvs r st)) = 400 \<Longrightarrow> snd (handleConfirm svc sv cenvs r st) = st"
    using parseIDAndBuyer_cases [of r "''holdId''"] by (auto simp: handleConfirm_def split: prod.splits sum.splits)
  have 3: "rs_status (fst (handleRelease sv f now r st)) = 400 \<longleftrightarrow> bad_buyer r \<or> \<not> int64_text (rq_path r ''holdId'')"
    and l: "rs_status (fst (handleRelease sv f now r st)) = 400 \<Longrightarrow> snd (handleRelease sv f now r st) = st"
    using parseIDAndBuyer_cases [of r "''holdId''"] by (auto simp: handleRelease_def split: prod.splits sum.splits)
  have 4: "rs_status (fst (handleCancel svc sv xenvs r st)) = 400 \<longleftrightarrow> bad_buyer r \<or> \<not> int64_text (rq_path r ''bookingId'')"
    and x: "rs_status (fst (handleCancel svc sv xenvs r st)) = 400 \<Longrightarrow> snd (handleCancel svc sv xenvs r st) = st"
    using parseIDAndBuyer_cases [of r "''bookingId''"] by (auto simp: handleCancel_def split: prod.splits sum.splits)
  have 5: "rs_status (handleListBookings f r d) = 400 \<longleftrightarrow> rq_query r ''buyer_id'' = '''' \<or> 255 < length (rq_query r ''buyer_id'')"
    by (auto simp: handleListBookings_def Let_def validBuyerID_def maxBuyerIDLen_def split: sum.splits)
  show ?thesis using 1 2 3 4 5 h c l x by (intro conjI ballI) auto
qed

theorem malformed_request_rejected_witness:
  "rs_status (fst (handleRelease demo_sv NoFault 200 (demo_request ''A1'' '''') (demo_db, \<lambda>_. None))) = 400
   \<and> rs_status (fst (handleHold demo_svc demo_sv (\<lambda>_. demo_env 200) (demo_request ''A1'' (replicate 255 CHR ''e'')) (demo_db, \<lambda>_. None))) \<noteq> 400
   \<and> rs_status (fst (handleHold demo_svc demo_sv (\<lambda>_. demo_env 200) (demo_request ''A1'' (replicate 256 CHR ''e'')) (demo_db, \<lambda>_. None))) = 400"
proof -
  have "bad_buyer (demo_request ''A1'' '''')" "bad_buyer (demo_request ''A1'' (replicate 256 CHR ''e''))"
      "\<not> bad_buyer (demo_request ''A1'' (replicate 255 CHR ''e''))"
    by (simp_all add: bad_buyer_def)
  then show ?thesis
    using malformed_request_rejected [of demo_svc demo_sv "\<lambda>_. demo_env 200" "demo_request ''A1'' ''''"]
      malformed_request_rejected [of demo_svc demo_sv "\<lambda>_. demo_env 200" "demo_request ''A1'' (replicate 255 CHR ''e'')"]
      malformed_request_rejected [of demo_svc demo_sv "\<lambda>_. demo_env 200" "demo_request ''A1'' (replicate 256 CHR ''e'')"] by simp
qed

text \<open>The translation of errors to responses sees through every wrapping, and only the four sentinels
  of the domain become a client's fault: an error of the driver, the pool or the deadline is a 500, never
  a false conflict.\<close>

lemma error_translation:
  "writeError (Wrap p e) h = writeError e h
   \<and> (driver_error e \<longrightarrow> rs_status (writeError e h) = 500)
   \<and> (\<not> driver_error e \<longrightarrow> rs_status (writeError e h) \<in> {409, 404, 422} \<or> errors_Is e ErrNoRows)"
  by (auto simp: writeError_def driver_error_def)

text \<open>C34: conditional polling is exact: a client that sends the tag it got with an earlier snapshot of the
  match is answered 304 exactly when the seat map its read returns is that same snapshot, and otherwise 200 with
  the whole map. (When the read shares no flight with another goroutine, the digest does not collide on the two
  streams, its text has no comma, and the time format is lossless.)\<close>

theorem not_modified_iff_unchanged:
  assumes "svc_digest svc (version_stream (svc_format svc) (rq_path r ''matchId'') old) =
           svc_digest svc (version_stream (svc_format svc) (rq_path r ''matchId'') ss) \<Longrightarrow>
             version_stream (svc_format svc) (rq_path r ''matchId'') old =
             version_stream (svc_format svc) (rq_path r ''matchId'') ss"
    and "\<And>x. CHR '','' \<notin> set (svc_digest svc x)"
    and "inj (svc_format svc)" and "\<And>t. svc_format svc t \<noteq> ''''"
    and "versions_ok (svc_digest svc) (svc_format svc) c" and "read_alone cenv"
    and "service_ListSeatsVersioned svc cenv f coll now (rq_path r ''matchId'') (d, c) = (Inr (ss, v), st')"
    and "header_get ''If-None-Match'' (rq_header r) =
           seats_etag (seatSnapshotVersion (svc_digest svc) (svc_format svc) (rq_path r ''matchId'') old)"
  shows "rs_status (fst (handleListSeats fmt svc cenv f coll now r (d, c))) = (if old = ss then 304 else 200)"
proof -
  let ?m = "rq_path r ''matchId''" and ?dg = "svc_digest svc" and ?fm = "svc_format svc"
  obtain e c' where l: "load ?dg ?fm seatCacheTTL cenv ?m (load_seats f coll now ?m d) c = (Inr e, c')"
    and e: "ss = sce_seats e" "v = sce_version e"
    using assms(7) by (auto simp: service_ListSeatsVersioned_def split: prod.splits sum.splits)
  have v: "v = seatSnapshotVersion ?dg ?fm ?m ss"
    unfolding e by (rule load_versions(2) [OF assms(5) _ _ l refl]) (use assms(6) in \<open>auto simp: read_alone_def\<close>)
  have "seatSnapshotVersion ?dg ?fm ?m old = v \<longleftrightarrow> old = ss"
    using version_stream_inj [OF assms(3,4)] assms(1) unfolding v seatSnapshotVersion_def by blast
  moreover have "etagMatches (header_get ''If-None-Match'' (rq_header r)) (seats_etag v) \<longleftrightarrow>
      seatSnapshotVersion ?dg ?fm ?m old = v"
    unfolding assms(8) by (rule etagMatches_single) (use assms(2) in \<open>auto simp: v seatSnapshotVersion_def\<close>)
  ultimately show ?thesis by (simp add: handleListSeats_def Let_def assms(7))
qed

text \<open>A digest in letters, for the example.\<close>

definition demo_letters :: "string \<Rightarrow> string" where
  "demo_letters s = concat (map (\<lambda>c. [char_of (97 + of_char c div 16 :: nat), char_of (97 + of_char c mod 16 :: nat)]) s)"

lemma demo_letters_no_comma: "CHR '','' \<notin> set (demo_letters s)"
proof -
  have no: "CHR '','' \<noteq> char_of (97 + n)" if "n < 16" for n :: nat
  proof
    assume "CHR '','' = char_of (97 + n)"
    then have "(of_char (char_of (97 + n) :: char) :: nat) = of_char (CHR '','')" by simp
    then show False using that by simp
  qed
  have "(of_char c :: nat) div 16 < 16" for c
    using nat_of_char_less_256 [of c] by (simp add: less_mult_imp_div_less)
  then show ?thesis using no by (induction s) (simp_all add: demo_letters_def)
qed

theorem not_modified_iff_unchanged_witness:
  "\<exists>ss. rs_status (fst (handleListSeats demo_format (demo_svc\<lparr>svc_digest := demo_letters\<rparr>) (demo_cache_env 10) NoFault
       plain_collation 200 ((demo_request '''' '''')\<lparr>rq_header := header_set ''If-None-Match''
          (seats_etag (seatSnapshotVersion demo_letters demo_format ''M1'' ss)) no_header\<rparr>) (demo_db, \<lambda>_. None))) = 304"
proof -
  let ?svc = "demo_svc\<lparr>svc_digest := demo_letters\<rparr>"
  obtain v c' where l: "service_ListSeatsVersioned ?svc (demo_cache_env 10) NoFault plain_collation 200 ''M1'' (demo_db, \<lambda>_. None) =
      (Inr (board_seats plain_collation 200 ''M1'' demo_db, v), (demo_db, c'))"
    using read_after_drop [OF demo_db_inv, of "demo_cache_env 10" "\<lambda>_. None" "''M1''"]
    by (fastforce simp: demo_cache_env_def)
  let ?ss = "board_seats plain_collation 200 ''M1'' demo_db"
  let ?r = "(demo_request '''' '''')\<lparr>rq_header := header_set ''If-None-Match''
          (seats_etag (seatSnapshotVersion demo_letters demo_format ''M1'' ?ss)) no_header\<rparr>"
  have "rs_status (fst (handleListSeats demo_format ?svc (demo_cache_env 10) NoFault plain_collation 200 ?r (demo_db, \<lambda>_. None))) = 304"
    using not_modified_iff_unchanged [where svc = ?svc and r = ?r and old = ?ss and c = "\<lambda>_. None" and cenv = "demo_cache_env 10"
        and f = NoFault and coll = plain_collation and now = 200 and d = demo_db and ss = ?ss and v = v and st' = "(demo_db, c')"
        and fmt = demo_format] l demo_letters_no_comma demo_format_inj
    by (simp add: demo_svc_def demo_request_def versions_ok_def read_alone_def demo_cache_env_def)
  then show ?thesis by blast
qed


section \<open>Configuration\<close>






text \<open>The validation does not exclude a TTL that defeats holds: a positive HOLD_TTL below one microsecond
  is accepted, but the store keeps whole microseconds, so every hold placed under it expires at the instant
  it is created and can never be confirmed.\<close>

lemma sub_microsecond_ttl_defeats_holds:
  assumes "0 < HoldTTL c" and "HoldTTL c < 1000" and "config_ok c"
    and "schema_inv d" and "hold_tx env m s b (HoldTTL c) key stale d = (Inr row, d')" and "he_tx_now env \<le> now"
  shows "Validate c = None \<and> br_HoldExpiresAt row = Some (he_tx_now env)
    \<and> ConfirmHold NoFault now (br_ID row) buyer d' = (Inl ErrHoldExpired, d')"
proof -
  let ?row = "placed_row env m s b (HoldTTL c) d"
  have us: "microseconds (HoldTTL c) = 0" using assms(1,2) by (simp add: microseconds_def)
  have row: "row = booking_row_of ?row" "d' = placed_db env m s b (HoldTTL c) key stale d"
    using hold_tx_Inr [OF assms(4,5)] by simp_all
  have inv': "schema_inv d'" using placed_db_inv [OF assms(4,5)] .
  have "?row \<in> set (bookings d')" by (simp add: row placed_db_def)
  moreover have "\<not> confirmable now buyer ?row"
    using us assms(6) by (simp add: confirmable_def placed_row_def expires_after_def)
  ultimately have "ConfirmHold NoFault now (bk_id ?row) buyer d' = (Inl ErrHoldExpired, d')"
    using ConfirmHold_row [OF inv'] by simp
  then show ?thesis using assms(3) us by (simp add: row booking_row_of_def placed_row_def)
qed

text \<open>The pool size is narrowed before it is validated: a POOL_MAX_CONNS beyond 32 bits is not refused
  but silently reduced modulo 2^32, so 2^32 + n starts the process with a pool of n connections.\<close>

lemma pool_size_wraps:
  assumes "env ''POOL_MAX_CONNS'' = show_int (2 ^ 32 + n)" and "0 < n" and "n < 2 ^ 31"
    and "\<And>k. k \<noteq> ''POOL_MAX_CONNS'' \<Longrightarrow> env k = ''''"
  shows "\<exists>c. Load parseDuration env = Inr c \<and> PoolMaxConns c = n"
proof -
  have p: "parse_int64 (show_int (2 ^ 32 + n)) = Some (2 ^ 32 + n)"
    using assms(2,3) by (intro parse_show_int) (simp_all add: min_int64_def max_int64_def)
  have "word_of_int (2 ^ 32 + n) = (word_of_int n :: 32 word)"
    by (simp add: word_of_int_eq_iff take_bit_eq_mod)
  then have "to_int32 (2 ^ 32 + n) = to_int32 n" unfolding to_int32_def by (rule arg_cong)
  then have w: "to_int32 (2 ^ 32 + n) = n" using assms(2,3) to_int32_id [of n] by simp
  have ne: "env ''POOL_MAX_CONNS'' \<noteq> ''''" using p assms(1) by (auto simp: parse_int64_def)
  show ?thesis
    using assms p w ne
    by (simp add: Load_def Let_def env_defs Validate_def second_def)
qed


section \<open>The rate limiter\<close>

text \<open>C39: evicting idle addresses never changes a decision: for any interleaving of requests and janitor
  rounds in the order of time, every request is allowed or refused exactly as it would be if no entry were
  ever dropped. (The limiter's documentation gives the hypothesis: a bucket that idles that long is full,
  so it behaves like a fresh one.)\<close>

theorem eviction_invisible:
  assumes "\<And>l t0 t. t0 + limiterIdleTTL < t \<Longrightarrow> Allow (snd (Allow l t0)) t = Allow fresh t"
    and "sorted (map event_time evs)"
  shows "run_limiter fresh Allow True evs (\<lambda>_. None) = run_limiter fresh Allow False evs (\<lambda>_. None)"
proof (cases evs)
  case (Cons ev rest)
  show ?thesis
    by (rule janitor_invisible [OF assms(1,2), where start = "event_time ev"])
      (use assms(2) Cons in \<open>auto simp: same_limits_def\<close>)
qed simp

text \<open>A bucket of 20 tokens that gains one every 100 ms: the tokens and the instant of the last call.\<close>

fun demo_bucket :: "int \<times> time option \<Rightarrow> time \<Rightarrow> bool \<times> int \<times> time option" where
  "demo_bucket (tok, last_at) t =
     (let k = (case last_at of None \<Rightarrow> 20 | Some t0 \<Rightarrow> max 0 (min 20 (max 0 tok + (t - t0) div 100000000)))
      in if 1 \<le> k then (True, (k - 1, Some t)) else (False, (k, Some t)))"

lemma demo_bucket_refills:
  assumes "t0 + limiterIdleTTL < t"
  shows "demo_bucket (snd (demo_bucket l t0)) t = demo_bucket (20, None) t"
proof -
  have "\<exists>tok. snd (demo_bucket l t0) = (tok, Some t0)" by (cases l) (simp add: Let_def)
  then obtain tok where l: "snd (demo_bucket l t0) = (tok, Some t0)" by blast
  have "600 * 1000000000 \<le> t - t0" using assms by (simp add: limiterIdleTTL_def second_def)
  then have "6000 \<le> (t - t0) div 100000000" by linarith
  then show ?thesis by (simp add: l)
qed

theorem eviction_invisible_witness:
  "run_limiter (20, None) demo_bucket True [Request 0 ''a'', Janitor 700000000000, Request 700000000001 ''a''] (\<lambda>_. None) =
   run_limiter (20, None) demo_bucket False [Request 0 ''a'', Janitor 700000000000, Request 700000000001 ''a''] (\<lambda>_. None)"
  by (rule eviction_invisible [OF demo_bucket_refills]) simp_all


section \<open>The load test\<close>

text \<open>The load test's verdict is a theorem: on a seat that is free, the first hold is placed, and once it is
  backdated exactly one racer takes the seat over, whatever the number of racers and the order in which their
  transactions run, as long as the later ones run before the winner's hold expires; the confirmation of the
  original hold is refused as expired; no seat is oversold, so the report passes.\<close>

lemma race_report_passes:
  assumes "schema_inv d" and "seat_exists m s d"
    and "bookings_id_seq d + int (length (first # r # rs)) \<le> max_int64"
    and "\<not> seat_taken (racer_now first) m s d"
    and "\<And>x. x \<in> set (first # r # rs) \<Longrightarrow> clean_racer x" and "now \<le> racer_now r"
    and "\<And>x. x \<in> set rs \<Longrightarrow> racer_now x \<le> racer_now r + microseconds (svc_holdTTL svc)"
    and "rc_err (sv_ctx sv) 0 = None" and "fst (cenvs 0) = NoFault"
  shows "\<exists>ress st' n. runExpiryBoundaryScenario svc m s first NoFault now (r # rs) sv cenvs (d, c) =
       Some (ress, Some (Inl ErrHoldExpired), st')
     \<and> OversoldSeats NoFault (fst st') = Inr n \<and> report_pass n (won ress)"
proof -
  obtain ress st' where run: "runExpiryBoundaryScenario svc m s first NoFault now (r # rs) sv cenvs (d, c) =
       Some (ress, Some (Inl ErrHoldExpired), st')" and one: "won ress = 1" and inv: "schema_inv (fst st')"
    using expiry_scenario [where svc = svc and now = now and sv = sv and cenvs = cenvs and c = c, OF assms(1-5,6-9)] by blast
  from inv have "oversold (fst st') = []" by (rule oversold_empty)
  then show ?thesis using run one by (simp add: OversoldSeats_def query_def report_pass_def)
qed

end
