(* ===== verification/ResponseWriter.thy ===== *)
theory ResponseWriter
  imports HttpApi
begin

text \<open>
  How a response reaches the wire: \<open>http.ResponseWriter\<close> as an interface with two implementations, the
  one of \<open>net/http\<close> and \<open>gzipResponseWriter\<close> of \<open>internal/httpapi/delivery.go\<close>, and the middlewares
  \<open>gzipMiddleware\<close> and \<open>recoverMiddleware\<close> around a handler. A handler is what it does to the writer: a
  script of calls, which may end in a panic. The model records what the program hands to \<open>net/http\<close>;
  what \<open>net/http\<close> adds on its own (\<open>Date\<close>, chunking, dropping the body of a HEAD answer) is not part of it.
\<close>

section \<open>Scripts of writer calls\<close>

datatype writer_op = EditHeader "header \<Rightarrow> header" | SendHeader int | SendBody string

fun run_ops ::
  "((header \<Rightarrow> header) \<Rightarrow> 'w \<Rightarrow> 'w) \<Rightarrow> (int \<Rightarrow> 'w \<Rightarrow> 'w) \<Rightarrow> (string \<Rightarrow> 'w \<Rightarrow> 'w) \<Rightarrow> writer_op list \<Rightarrow> 'w \<Rightarrow> 'w"
where
  "run_ops edit WriteHeader Write [] w = w"
| "run_ops edit WriteHeader Write (EditHeader f # ops) w = run_ops edit WriteHeader Write ops (edit f w)"
| "run_ops edit WriteHeader Write (SendHeader s # ops) w = run_ops edit WriteHeader Write ops (WriteHeader s w)"
| "run_ops edit WriteHeader Write (SendBody p # ops) w = run_ops edit WriteHeader Write ops (Write p w)"

text \<open>The script of a response: set the headers, send the status, write the body if there is one.\<close>

definition body_ops :: "(resp_body \<Rightarrow> string) \<Rightarrow> resp_body \<Rightarrow> writer_op list" where
  "body_ops encode b = (case b of EmptyBody \<Rightarrow> [] | RawBody p \<Rightarrow> [SendBody p] | _ \<Rightarrow> [SendBody (encode b)])"

definition response_ops :: "(resp_body \<Rightarrow> string) \<Rightarrow> response \<Rightarrow> writer_op list" where
  "response_ops encode resp =
     [EditHeader (\<lambda>_. rs_header resp), SendHeader (rs_status resp)] @ body_ops encode (rs_body resp)"

text \<open>\<open>writeJSON\<close> on a writer whose headers may already be set.\<close>

definition writeJSON_ops :: "(resp_body \<Rightarrow> string) \<Rightarrow> int \<Rightarrow> resp_body \<Rightarrow> writer_op list" where
  "writeJSON_ops encode status v =
     [EditHeader (\<lambda>h. rs_header (writeJSON status v h)), SendHeader status] @ body_ops encode v"


section \<open>The writer of net/http\<close>

text \<open>The header map the handler edits, the status and headers once they are sent, and the body so far.\<close>

record wire =
  w_header :: header
  w_sent :: "(int \<times> header) option"
  w_body :: string

definition fresh_wire :: wire where
  "fresh_wire = \<lparr>w_header = no_header, w_sent = None, w_body = ''''\<rparr>"

definition base_edit :: "(header \<Rightarrow> header) \<Rightarrow> wire \<Rightarrow> wire" where
  "base_edit f w = w\<lparr>w_header := f (w_header w)\<rparr>"

definition base_WriteHeader :: "int \<Rightarrow> wire \<Rightarrow> wire" where
  "base_WriteHeader status w =
     (case w_sent w of None \<Rightarrow> w\<lparr>w_sent := Some (status, w_header w)\<rparr> | Some _ \<Rightarrow> w)"

definition base_Write :: "string \<Rightarrow> wire \<Rightarrow> wire" where
  "base_Write p w = (let w' = base_WriteHeader 200 w in w'\<lparr>w_body := w_body w' @ p\<rparr>)"


section \<open>gzipResponseWriter\<close>

text \<open>
  \<open>gw_active\<close> says that a compressor is attached; \<open>gw_plain\<close> is the text it was given. Its output is
  one stream, complete when it is closed.
\<close>

record gzipResponseWriter =
  gw_wire :: wire
  gw_method :: string
  gw_wroteHeader :: bool
  gw_active :: bool
  gw_plain :: string

definition fresh_gzip :: "string \<Rightarrow> gzipResponseWriter" where
  "fresh_gzip meth =
     \<lparr>gw_wire = fresh_wire, gw_method = meth, gw_wroteHeader = False, gw_active = False, gw_plain = ''''\<rparr>"

definition gzip_edit :: "(header \<Rightarrow> header) \<Rightarrow> gzipResponseWriter \<Rightarrow> gzipResponseWriter" where
  "gzip_edit f w = w\<lparr>gw_wire := base_edit f (gw_wire w)\<rparr>"

text \<open>
  \<open>WriteHeader\<close>: whether the response is compressed is decided once, and only then are the headers
  changed. \<open>compress_header\<close> is the body of the condition.
\<close>

definition compressed :: "string \<Rightarrow> int \<Rightarrow> header \<Rightarrow> bool" where
  "compressed meth status h \<longleftrightarrow>
     meth \<noteq> ''HEAD'' \<and> statusAllowsBody status \<and> header_get ''Content-Encoding'' h = ''''
     \<and> compressibleContentType (header_get ''Content-Type'' h)"

definition compress_header :: "header \<Rightarrow> header" where
  "compress_header h =
     header_del ''Content-Length'' (header_set ''Content-Encoding'' ''gzip'' (addVary ''Accept-Encoding'' h))"

definition gzip_WriteHeader :: "int \<Rightarrow> gzipResponseWriter \<Rightarrow> gzipResponseWriter" where
  "gzip_WriteHeader status w =
     (if gw_wroteHeader w then w
      else let w1 = w\<lparr>gw_wroteHeader := True\<rparr>;
               w2 = (if compressed (gw_method w) status (w_header (gw_wire w))
                     then (gzip_edit compress_header w1)\<lparr>gw_active := True, gw_plain := ''''\<rparr>
                     else w1)
           in w2\<lparr>gw_wire := base_WriteHeader status (gw_wire w2)\<rparr>)"

text \<open>\<open>Write\<close>: \<open>detect\<close> is \<open>http.DetectContentType\<close>.\<close>

definition gzip_Write :: "(string \<Rightarrow> string) \<Rightarrow> string \<Rightarrow> gzipResponseWriter \<Rightarrow> gzipResponseWriter" where
  "gzip_Write detect p w =
     (let w1 = (if gw_wroteHeader w then w
                else gzip_WriteHeader 200
                  (if header_get ''Content-Type'' (w_header (gw_wire w)) = ''''
                   then gzip_edit (header_set ''Content-Type'' (detect p)) w else w))
      in if gw_active w1 then w1\<lparr>gw_plain := gw_plain w1 @ p\<rparr>
         else w1\<lparr>gw_wire := base_Write p (gw_wire w1)\<rparr>)"

text \<open>\<open>close\<close>: \<open>gzip\<close> is the compressor on the whole text.\<close>

definition gzip_close :: "(string \<Rightarrow> string) \<Rightarrow> gzipResponseWriter \<Rightarrow> gzipResponseWriter" where
  "gzip_close gzip w =
     (if \<not> gw_active w then w
      else w\<lparr>gw_wire := base_Write (gzip (gw_plain w)) (gw_wire w), gw_active := False, gw_plain := ''''\<rparr>)"


section \<open>The middlewares\<close>

text \<open>A handler takes a request and the state of the server to a script, a panic or not, and the next state.\<close>

type_synonym 's handler = "request \<Rightarrow> 's \<Rightarrow> (writer_op list \<times> bool) \<times> 's"

definition recoverMiddleware :: "(resp_body \<Rightarrow> string) \<Rightarrow> 's handler \<Rightarrow> 's handler" where
  "recoverMiddleware encode nxt r st =
     (let ((ops, panicked), st') = nxt r st
      in ((if panicked then ops @ writeJSON_ops encode 500 (ErrorBody ''internal_error'') else ops, False), st'))"

text \<open>The second component of the result says that a panic escaped, in which case \<open>close\<close> did not run.\<close>

definition gzipMiddleware ::
  "(string \<Rightarrow> bool option) \<Rightarrow> (string \<Rightarrow> string) \<Rightarrow> (string \<Rightarrow> string) \<Rightarrow> 's handler \<Rightarrow> request \<Rightarrow> 's
     \<Rightarrow> (wire \<times> bool) \<times> 's"
where
  "gzipMiddleware parseFloat detect gzip nxt r st =
     (let ((ops, panicked), st') = nxt r st
      in if \<not> acceptsGzip parseFloat (header_get ''Accept-Encoding'' (rq_header r))
         then ((run_ops base_edit base_WriteHeader base_Write ops fresh_wire, panicked), st')
         else let w = run_ops gzip_edit gzip_WriteHeader (gzip_Write detect) ops (fresh_gzip (rq_method r))
              in ((gw_wire (if panicked then w else gzip_close gzip w), panicked), st'))"

text \<open>The handlers of the program, which return a response, as scripts.\<close>

definition respond :: "(resp_body \<Rightarrow> string) \<Rightarrow> (request \<Rightarrow> 's \<Rightarrow> response \<times> 's) \<Rightarrow> 's handler" where
  "respond encode h r st = (let (resp, st') = h r st in ((response_ops encode resp, False), st'))"


section \<open>The interface\<close>

text \<open>
  What every implementation of \<open>http.ResponseWriter\<close> promises: headers and status are sent once, by the
  first \<open>WriteHeader\<close> or by the first \<open>Write\<close> with status 200, and nothing changes them afterwards. The
  status of an answer then depends on the script alone, not on the writer it runs on.
\<close>

fun first_status :: "writer_op list \<Rightarrow> int option" where
  "first_status [] = None"
| "first_status (EditHeader f # ops) = first_status ops"
| "first_status (SendHeader s # ops) = Some s"
| "first_status (SendBody p # ops) = Some 200"

locale response_writer =
  fixes edit :: "(header \<Rightarrow> header) \<Rightarrow> 'w \<Rightarrow> 'w"
    and WriteHeader :: "int \<Rightarrow> 'w \<Rightarrow> 'w"
    and Write :: "string \<Rightarrow> 'w \<Rightarrow> 'w"
    and sent :: "'w \<Rightarrow> (int \<times> header) option"
    and ok :: "'w \<Rightarrow> bool"
  assumes ok_ops: "ok w \<Longrightarrow> ok (edit f w)" "ok w \<Longrightarrow> ok (WriteHeader s w)" "ok w \<Longrightarrow> ok (Write p w)"
    and edit_sent: "sent (edit f w) = sent w"
    and WriteHeader_first: "ok w \<Longrightarrow> sent w = None \<Longrightarrow> map_option fst (sent (WriteHeader s w)) = Some s"
    and WriteHeader_again: "ok w \<Longrightarrow> sent w = Some x \<Longrightarrow> sent (WriteHeader s w) = Some x"
    and Write_first: "ok w \<Longrightarrow> sent w = None \<Longrightarrow> map_option fst (sent (Write p w)) = Some 200"
    and Write_again: "ok w \<Longrightarrow> sent w = Some x \<Longrightarrow> sent (Write p w) = Some x"
begin

abbreviation run :: "writer_op list \<Rightarrow> 'w \<Rightarrow> 'w" where
  "run \<equiv> run_ops edit WriteHeader Write"

lemma run_sent_once: "ok w \<Longrightarrow> sent w = Some x \<Longrightarrow> sent (run ops w) = Some x"
proof (induction ops arbitrary: w)
  case (Cons op ops)
  then show ?case by (cases op) (auto simp: edit_sent WriteHeader_again Write_again ok_ops)
qed simp

lemma run_status: "ok w \<Longrightarrow> sent w = None \<Longrightarrow> map_option fst (sent (run ops w)) = first_status ops"
proof (induction ops arbitrary: w)
  case (Cons op ops)
  show ?case
  proof (cases op)
    case (SendHeader s)
    obtain h where "sent (WriteHeader s w) = Some (s, h)" using WriteHeader_first [OF Cons.prems] by fastforce
    then show ?thesis using SendHeader run_sent_once Cons.prems ok_ops by fastforce
  next
    case (SendBody p)
    obtain h where "sent (Write p w) = Some (200, h)" using Write_first [OF Cons.prems] by fastforce
    then show ?thesis using SendBody run_sent_once Cons.prems ok_ops by fastforce
  qed (use Cons in \<open>simp add: edit_sent ok_ops\<close>)
qed simp

end

interpretation net_writer: response_writer base_edit base_WriteHeader base_Write w_sent "\<lambda>_. True"
  by unfold_locales
     (auto simp: base_edit_def base_WriteHeader_def base_Write_def Let_def split: option.splits)

text \<open>The wrapper knows whether the headers are out, and never compresses before they are.\<close>

definition gzip_ok :: "gzipResponseWriter \<Rightarrow> bool" where
  "gzip_ok w \<longleftrightarrow> (gw_wroteHeader w \<longleftrightarrow> w_sent (gw_wire w) \<noteq> None) \<and> (gw_active w \<longrightarrow> gw_wroteHeader w)"

lemmas writer_defs = base_edit_def base_WriteHeader_def base_Write_def gzip_edit_def gzip_WriteHeader_def
  gzip_Write_def gzip_ok_def Let_def

interpretation gzip_writer: response_writer gzip_edit gzip_WriteHeader "gzip_Write detect" "\<lambda>w. w_sent (gw_wire w)" gzip_ok
  for detect
  by unfold_locales (auto simp: writer_defs split: option.splits)

lemma fresh_writers [simp]: "w_sent fresh_wire = None" "w_sent (gw_wire (fresh_gzip m)) = None" "gzip_ok (fresh_gzip m)"
  by (simp_all add: fresh_wire_def fresh_gzip_def gzip_ok_def)


section \<open>Compression is transparent\<close>

text \<open>
  The status and headers of a script that sends its headers before it writes: \<open>h\<close> are the headers set
  before the script starts. \<open>script_text\<close> is what it writes.
\<close>

fun first_send :: "writer_op list \<Rightarrow> header \<Rightarrow> (int \<times> header) option" where
  "first_send [] h = None"
| "first_send (EditHeader f # ops) h = first_send ops (f h)"
| "first_send (SendHeader s # ops) h = Some (s, h)"
| "first_send (SendBody p # ops) h = None"

fun script_text :: "writer_op list \<Rightarrow> string" where
  "script_text [] = ''''"
| "script_text (SendBody p # ops) = p @ script_text ops"
| "script_text (op # ops) = script_text ops"

lemma base_edit_simps [simp]:
  "w_sent (base_edit f w) = w_sent w" "w_header (base_edit f w) = f (w_header w)" "w_body (base_edit f w) = w_body w"
  by (simp_all add: base_edit_def)

lemma base_send_simps [simp]:
  "w_body (base_WriteHeader s w) = w_body w"
  "w_sent w = None \<Longrightarrow> w_sent (base_WriteHeader s w) = Some (s, w_header w)"
  "w_sent w \<noteq> None \<Longrightarrow> base_WriteHeader s w = w"
  "w_sent w \<noteq> None \<Longrightarrow> w_sent (base_Write p w) = w_sent w"
  "w_sent w \<noteq> None \<Longrightarrow> w_body (base_Write p w) = w_body w @ p"
  by (auto simp: base_WriteHeader_def base_Write_def Let_def split: option.splits)

lemma base_run_after:
  "w_sent w \<noteq> None \<Longrightarrow> w_sent (net_writer.run ops w) = w_sent w \<and> w_body (net_writer.run ops w) = w_body w @ script_text ops"
proof (induction ops arbitrary: w)
  case (Cons op ops)
  then show ?case by (cases op) simp_all
qed simp

lemma base_run:
  assumes "w_sent w = None" and "first_send ops (w_header w) = Some (s, h)"
  shows "w_sent (net_writer.run ops w) = Some (s, h) \<and> w_body (net_writer.run ops w) = w_body w @ script_text ops"
  using assms
proof (induction ops arbitrary: w)
  case (Cons op ops)
  then show ?case by (cases op) (simp_all add: base_run_after)
qed simp

text \<open>Once the headers are out, a compressing writer collects the text and leaves the wire alone.\<close>

lemma gzip_run_after:
  assumes "gw_wroteHeader w" and "w_sent (gw_wire w) \<noteq> None"
  shows "gw_active (gzip_writer.run detect ops w) = gw_active w
    \<and> w_sent (gw_wire (gzip_writer.run detect ops w)) = w_sent (gw_wire w)
    \<and> gw_plain (gzip_writer.run detect ops w) = gw_plain w @ (if gw_active w then script_text ops else '''')
    \<and> w_body (gw_wire (gzip_writer.run detect ops w)) = w_body (gw_wire w) @ (if gw_active w then '''' else script_text ops)"
  using assms
proof (induction ops arbitrary: w)
  case (Cons op ops)
  show ?case
  proof (cases op)
    case (SendBody p)
    have "gw_wroteHeader (gzip_Write detect p w)" "w_sent (gw_wire (gzip_Write detect p w)) \<noteq> None"
      using Cons.prems by (auto simp: gzip_Write_def base_Write_def base_WriteHeader_def Let_def)
    from Cons.IH [OF this] show ?thesis
      using SendBody Cons.prems by (auto simp: gzip_Write_def base_Write_def base_WriteHeader_def Let_def)
  qed (use Cons in \<open>auto simp: gzip_edit_def base_edit_def gzip_WriteHeader_def\<close>)
qed simp

lemma gzip_WriteHeader_first:
  assumes "\<not> gw_wroteHeader w" and "w_sent (gw_wire w) = None" and "\<not> gw_active w" and "gw_plain w = ''''"
  shows "gw_wroteHeader (gzip_WriteHeader s w)"
    and "w_body (gw_wire (gzip_WriteHeader s w)) = w_body (gw_wire w)" and "gw_plain (gzip_WriteHeader s w) = ''''"
    and "gw_active (gzip_WriteHeader s w) = compressed (gw_method w) s (w_header (gw_wire w))"
    and "w_sent (gw_wire (gzip_WriteHeader s w)) =
      Some (s, if compressed (gw_method w) s (w_header (gw_wire w)) then compress_header (w_header (gw_wire w))
               else w_header (gw_wire w))"
  using assms by (simp_all add: gzip_WriteHeader_def gzip_edit_def base_edit_def base_WriteHeader_def Let_def)

lemma gzip_run:
  assumes "\<not> gw_wroteHeader w" and "w_sent (gw_wire w) = None" and "\<not> gw_active w" and "gw_plain w = ''''"
    and "w_body (gw_wire w) = ''''" and "first_send ops (w_header (gw_wire w)) = Some (s, h)"
    and "c = compressed (gw_method w) s h"
  shows "w_sent (gw_wire (gzip_close gzip (gzip_writer.run detect ops w))) = Some (s, if c then compress_header h else h)
    \<and> w_body (gw_wire (gzip_close gzip (gzip_writer.run detect ops w))) =
        (if c then gzip (script_text ops) else script_text ops)"
  using assms
proof (induction ops arbitrary: w)
  case (Cons op ops)
  show ?case
  proof (cases op)
    case (EditHeader f)
    have "\<not> gw_wroteHeader (gzip_edit f w)" "w_sent (gw_wire (gzip_edit f w)) = None" "\<not> gw_active (gzip_edit f w)"
      "gw_plain (gzip_edit f w) = ''''" "w_body (gw_wire (gzip_edit f w)) = ''''"
      "first_send ops (w_header (gw_wire (gzip_edit f w))) = Some (s, h)" "c = compressed (gw_method (gzip_edit f w)) s h"
      using Cons.prems EditHeader by (simp_all add: gzip_edit_def base_edit_def)
    from Cons.IH [OF this] show ?thesis using EditHeader by simp
  next
    case (SendHeader s')
    have sh: "s' = s" "h = w_header (gw_wire w)" using Cons.prems(6) SendHeader by simp_all
    note first = gzip_WriteHeader_first [OF Cons.prems(1-4), of s]
    have "w_sent (gw_wire (gzip_WriteHeader s w)) \<noteq> None" using first(5) by simp
    from gzip_run_after [OF first(1) this, of detect ops] show ?thesis
      using SendHeader sh first Cons.prems(5,7)
      by (simp add: gzip_close_def base_Write_def base_WriteHeader_def Let_def)
  qed (use Cons.prems in simp)
qed simp

lemma first_send_response:
  "first_send (response_ops encode resp) h = Some (rs_status resp, rs_header resp)"
  by (simp add: response_ops_def)

definition body_text :: "(resp_body \<Rightarrow> string) \<Rightarrow> resp_body \<Rightarrow> string" where
  "body_text encode b = (case b of EmptyBody \<Rightarrow> '''' | RawBody p \<Rightarrow> p | _ \<Rightarrow> encode b)"

lemma script_text_response [simp]: "script_text (response_ops encode resp) = body_text encode (rs_body resp)"
  by (simp add: response_ops_def body_ops_def body_text_def split: resp_body.split)

text \<open>What the two middlewares make of a handler's response.\<close>

lemma gzipMiddleware_exact:
  assumes "nxt r st = ((ops, False), st')" and "first_send ops no_header = Some (s, h)"
    and "c \<longleftrightarrow> acceptsGzip parseFloat (header_get ''Accept-Encoding'' (rq_header r)) \<and> compressed (rq_method r) s h"
  shows "\<exists>w. gzipMiddleware parseFloat detect gzip nxt r st = ((w, False), st')
    \<and> w_sent w = Some (s, if c then compress_header h else h)
    \<and> w_body w = (if c then gzip (script_text ops) else script_text ops)"
proof (cases "acceptsGzip parseFloat (header_get ''Accept-Encoding'' (rq_header r))")
  case True
  then show ?thesis
    using gzip_run [of "fresh_gzip (rq_method r)" ops s h c gzip detect] assms
    by (simp add: gzipMiddleware_def fresh_gzip_def fresh_wire_def)
next
  case False
  then show ?thesis
    using base_run [of fresh_wire ops s h] assms by (simp add: gzipMiddleware_def fresh_wire_def)
qed

lemma served:
  assumes "handler r st = (resp, st')"
    and "c \<longleftrightarrow> acceptsGzip parseFloat (header_get ''Accept-Encoding'' (rq_header r))
              \<and> compressed (rq_method r) (rs_status resp) (rs_header resp)"
  shows "\<exists>w. gzipMiddleware parseFloat detect gzip (recoverMiddleware encode (respond encode handler)) r st = ((w, False), st')
    \<and> w_sent w = Some (rs_status resp, if c then compress_header (rs_header resp) else rs_header resp)
    \<and> w_body w = (if c then gzip (body_text encode (rs_body resp)) else body_text encode (rs_body resp))"
proof -
  have "recoverMiddleware encode (respond encode handler) r st = ((response_ops encode resp, False), st')"
    using assms(1) by (simp add: recoverMiddleware_def respond_def)
  from gzipMiddleware_exact [where nxt = "recoverMiddleware encode (respond encode handler)"
      and detect = detect and gzip = gzip, OF this first_send_response assms(2)]
  show ?thesis unfolding script_text_response .
qed

end
