(* ===== verification/Static.thy ===== *)
theory Static
  imports ResponseWriter
begin

text \<open>
  The embedded assets and the health check, \<open>internal/httpapi/static.go\<close>: the two assets are built once
  from the embedded files, with their tag and their compressed form, and served with conditional
  requests. The embedded file system, the compressor and the digest in hexadecimal are parameters.
\<close>

section \<open>Assets\<close>

record staticAsset =
  sa_contentType :: string
  sa_cachePolicy :: string
  sa_etag :: string
  sa_body :: string
  sa_gzipBody :: string

text \<open>
  \<open>None\<close> is the panic at start-up when the file is not embedded. The other three panics guard calls of
  \<open>compress/gzip\<close> with a valid level on a \<open>bytes.Buffer\<close>, which do not fail.
\<close>

definition mustStaticAsset ::
  "(string \<Rightarrow> string option) \<Rightarrow> (string \<Rightarrow> string) \<Rightarrow> (string \<Rightarrow> string) \<Rightarrow> string \<Rightarrow> string \<Rightarrow> string \<Rightarrow> staticAsset option"
where
  "mustStaticAsset readFile gzip digest name contentType cachePolicy =
     map_option (\<lambda>body.
        \<lparr>sa_contentType = contentType, sa_cachePolicy = cachePolicy,
         sa_etag = ''W/'' @ [CHR 0x22] @ ''sha256-'' @ digest body @ [CHR 0x22],
         sa_body = body, sa_gzipBody = gzip body\<rparr>) (readFile name)"

definition indexAsset :: "(string \<Rightarrow> string option) \<Rightarrow> (string \<Rightarrow> string) \<Rightarrow> (string \<Rightarrow> string) \<Rightarrow> staticAsset option" where
  "indexAsset readFile gzip digest =
     mustStaticAsset readFile gzip digest ''index.html'' ''text/html; charset=utf-8'' ''no-cache''"

definition appJSAsset :: "(string \<Rightarrow> string option) \<Rightarrow> (string \<Rightarrow> string) \<Rightarrow> (string \<Rightarrow> string) \<Rightarrow> staticAsset option" where
  "appJSAsset readFile gzip digest =
     mustStaticAsset readFile gzip digest ''app.js'' ''application/javascript; charset=utf-8''
       ''public, max-age=0, must-revalidate''"

definition serveStaticAsset :: "(string \<Rightarrow> bool option) \<Rightarrow> request \<Rightarrow> staticAsset \<Rightarrow> response" where
  "serveStaticAsset parseFloat r asset =
     (let h = addVary ''Accept-Encoding''
                (header_set ''ETag'' (sa_etag asset)
                  (header_set ''Cache-Control'' (sa_cachePolicy asset)
                    (header_set ''Content-Type'' (sa_contentType asset) no_header)))
      in if etagMatches (header_get ''If-None-Match'' (rq_header r)) (sa_etag asset)
         then \<lparr>rs_status = 304, rs_header = h, rs_body = EmptyBody\<rparr>
         else let gz = acceptsGzip parseFloat (header_get ''Accept-Encoding'' (rq_header r));
                  body = (if gz then sa_gzipBody asset else sa_body asset);
                  h1 = (if gz then header_set ''Content-Encoding'' ''gzip'' h else h)
              in \<lparr>rs_status = 200,
                  rs_header = header_set ''Content-Length'' (show_nat (length body)) h1,
                  rs_body = (if rq_method r \<noteq> ''HEAD'' then RawBody body else EmptyBody)\<rparr>)"

definition handleStatic :: "(string \<Rightarrow> bool option) \<Rightarrow> staticAsset \<Rightarrow> request \<Rightarrow> response" where
  "handleStatic parseFloat index r =
     (if rq_url r = [''favicon.ico'']
      then \<lparr>rs_status = 204, rs_header = header_set ''Cache-Control'' ''public, max-age=86400'' no_header,
            rs_body = EmptyBody\<rparr>
      else serveStaticAsset parseFloat r index)"

definition handleAppJS :: "(string \<Rightarrow> bool option) \<Rightarrow> staticAsset \<Rightarrow> request \<Rightarrow> response" where
  "handleAppJS parseFloat appjs r = serveStaticAsset parseFloat r appjs"

text \<open>\<open>Ping\<close> of the service and of the store pass on what the pool answers: \<open>None\<close> when it is up.\<close>

definition handleHealthz :: "go_error option \<Rightarrow> response" where
  "handleHealthz ping =
     (case ping of
        Some err \<Rightarrow> writeJSON 503 (StatusBody ''down'') no_header
      | None \<Rightarrow> writeJSON 200 (StatusBody ''ok'') no_header)"


section \<open>Lemmas\<close>

lemma header_get_unset [simp]: "header_get k no_header = ''''"
  by (simp add: header_get_def no_header_def)

lemma serveStaticAsset_match:
  assumes "etagMatches (header_get ''If-None-Match'' (rq_header r)) (sa_etag asset)"
  shows "rs_status (serveStaticAsset parseFloat r asset) = 304" "rs_body (serveStaticAsset parseFloat r asset) = EmptyBody"
  using assms by (simp_all add: serveStaticAsset_def Let_def)

lemma serveStaticAsset_send:
  assumes "\<not> etagMatches (header_get ''If-None-Match'' (rq_header r)) (sa_etag asset)"
    and "gz = acceptsGzip parseFloat (header_get ''Accept-Encoding'' (rq_header r))"
  shows "rs_status (serveStaticAsset parseFloat r asset) = 200"
    and "rs_body (serveStaticAsset parseFloat r asset) =
      (if rq_method r \<noteq> ''HEAD'' then RawBody (if gz then sa_gzipBody asset else sa_body asset) else EmptyBody)"
    and "rs_header (serveStaticAsset parseFloat r asset) ''Content-Length'' =
      [show_nat (length (if gz then sa_gzipBody asset else sa_body asset))]"
    and "rs_header (serveStaticAsset parseFloat r asset) ''Content-Encoding'' = (if gz then [''gzip''] else [])"
  using assms
  by (simp_all add: serveStaticAsset_def Let_def header_set_def addVary_def header_add_def no_header_def)

text \<open>The handler compresses on its own, so the middleware never does it again.\<close>

lemma serveStaticAsset_not_compressed:
  assumes "acceptsGzip parseFloat (header_get ''Accept-Encoding'' (rq_header r))"
  shows "\<not> compressed (rq_method r) (rs_status (serveStaticAsset parseFloat r asset))
           (rs_header (serveStaticAsset parseFloat r asset))"
  using assms by (auto simp: serveStaticAsset_def Let_def compressed_def statusAllowsBody_def)

end
