(* ===== verification/Router.thy ===== *)
theory Router
  imports RateLimit Static
begin

text \<open>
  \<open>NewServer\<close> of \<open>internal/httpapi/router.go\<close>: the route table, the dispatch of a request to its handler
  and the three middlewares around it. The table is searched the way \<open>http.ServeMux\<close> does: a pattern
  with method GET also serves HEAD, a wildcard matches one segment that is not empty, and the
  catch-all \<open>GET /\<close> yields to every other pattern. A path that is not clean is redirected by the
  multiplexer before any handler runs, so \<open>rq_url\<close> is a clean path (a trailing slash is an empty last segment).
\<close>

section \<open>The route table\<close>

datatype segment = Lit string | Wild string

datatype route_pattern = Exact "segment list" | Root

datatype endpoint = EHold | EConfirm | ERelease | EListSeats | EListBookings | ECancel | EHealthz | EAppJS | EStatic

definition routes :: "(string \<times> route_pattern \<times> endpoint) list" where
  "routes =
     [(''POST'', Exact [Lit ''matches'', Wild ''matchId'', Lit ''seats'', Wild ''seatId'', Lit ''hold''], EHold),
      (''POST'', Exact [Lit ''holds'', Wild ''holdId'', Lit ''confirm''], EConfirm),
      (''DELETE'', Exact [Lit ''holds'', Wild ''holdId''], ERelease),
      (''GET'', Exact [Lit ''matches'', Wild ''matchId'', Lit ''seats''], EListSeats),
      (''GET'', Exact [Lit ''matches'', Wild ''matchId'', Lit ''bookings''], EListBookings),
      (''POST'', Exact [Lit ''bookings'', Wild ''bookingId'', Lit ''cancel''], ECancel),
      (''GET'', Exact [Lit ''healthz''], EHealthz),
      (''GET'', Exact [Lit ''app.js''], EAppJS),
      (''GET'', Root, EStatic)]"

fun match_segments :: "segment list \<Rightarrow> string list \<Rightarrow> (string \<times> string) list option" where
  "match_segments [] [] = Some []"
| "match_segments (Lit a # ps) (x # xs) = (if a = x then match_segments ps xs else None)"
| "match_segments (Wild n # ps) (x # xs) =
     (if x = '''' then None else map_option (Cons (n, x)) (match_segments ps xs))"
| "match_segments _ _ = None"

fun match_pattern :: "route_pattern \<Rightarrow> string list \<Rightarrow> (string \<times> string) list option" where
  "match_pattern (Exact ps) url = match_segments ps url"
| "match_pattern Root url = Some []"

definition method_matches :: "string \<Rightarrow> string \<Rightarrow> bool" where
  "method_matches pm m \<longleftrightarrow> m = pm \<or> (pm = ''GET'' \<and> m = ''HEAD'')"

fun find_route ::
  "(string \<times> route_pattern \<times> endpoint) list \<Rightarrow> string \<Rightarrow> string list \<Rightarrow> (endpoint \<times> (string \<times> string) list) option"
where
  "find_route [] m url = None"
| "find_route ((pm, pat, ep) # rs) m url =
     (if method_matches pm m
      then (case match_pattern pat url of Some vals \<Rightarrow> Some (ep, vals) | None \<Rightarrow> find_route rs m url)
      else find_route rs m url)"

definition path_value :: "(string \<times> string) list \<Rightarrow> string \<Rightarrow> string" where
  "path_value vals n = (case map_of vals n of None \<Rightarrow> '''' | Some v \<Rightarrow> v)"

text \<open>
  A path that some pattern matches under another method is answered 405 by the multiplexer, with the
  methods it has for that path. The catch-all matches every path, so there is no 404 from here.
\<close>

definition allowed_methods :: "string list \<Rightarrow> string list" where
  "allowed_methods url =
     filter (\<lambda>m. list_ex (\<lambda>(pm, pat, ep). method_matches pm m \<and> match_pattern pat url \<noteq> None) routes)
       [''DELETE'', ''GET'', ''HEAD'', ''POST'']"

fun join :: "string \<Rightarrow> string list \<Rightarrow> string" where
  "join sep [] = ''''"
| "join sep [x] = x"
| "join sep (x # y # ys) = x @ sep @ join sep (y # ys)"

definition method_not_allowed :: "string list \<Rightarrow> response" where
  "method_not_allowed url =
     \<lparr>rs_status = 405,
      rs_header = header_set ''X-Content-Type-Options'' ''nosniff''
        (header_set ''Content-Type'' ''text/plain; charset=utf-8''
          (header_set ''Allow'' (join '', '' (allowed_methods url)) no_header)),
      rs_body = RawBody (''Method Not Allowed'' @ [CHR 0x0A])\<rparr>"


section \<open>The server\<close>

text \<open>
  What is fixed when the server is built (\<open>sr_parseFloat\<close> to \<open>sr_encode\<close> stand for library functions),
  and what one request meets: the environments of the operations it may call.
\<close>

record server =
  sr_service :: Service
  sr_index :: staticAsset
  sr_appjs :: staticAsset
  sr_collation :: collation
  sr_format_seconds :: "time \<Rightarrow> string"
  sr_parseFloat :: "string \<Rightarrow> bool option"
  sr_detect :: "string \<Rightarrow> string"
  sr_gzip :: "string \<Rightarrow> string"
  sr_encode :: "resp_body \<Rightarrow> string"

record request_env =
  re_service :: service_env
  re_hold :: "int \<Rightarrow> hold_env"
  re_confirm :: "int \<Rightarrow> fault \<times> time"
  re_release :: "fault \<times> time"
  re_cancel :: "int \<Rightarrow> cancel_env"
  re_cache :: cache_env
  re_read :: fault
  re_db_now :: time
  re_ping :: "go_error option"
  re_now :: time

definition dispatch :: "server \<Rightarrow> request_env \<Rightarrow> endpoint \<Rightarrow> request \<Rightarrow> svc_state \<Rightarrow> response \<times> svc_state" where
  "dispatch srv env ep r st =
     (case ep of
        EHold \<Rightarrow> handleHold (sr_service srv) (re_service env) (re_hold env) r st
      | EConfirm \<Rightarrow> handleConfirm (sr_service srv) (re_service env) (re_confirm env) r st
      | ERelease \<Rightarrow> handleRelease (re_service env) (fst (re_release env)) (snd (re_release env)) r st
      | EListSeats \<Rightarrow> handleListSeats (sr_format_seconds srv) (sr_service srv) (re_cache env) (re_read env)
                       (sr_collation srv) (re_db_now env) r st
      | EListBookings \<Rightarrow> (handleListBookings (re_read env) r (fst st), st)
      | ECancel \<Rightarrow> handleCancel (sr_service srv) (re_service env) (re_cancel env) r st
      | EHealthz \<Rightarrow> (handleHealthz (re_ping env), st)
      | EAppJS \<Rightarrow> (handleAppJS (sr_parseFloat srv) (sr_appjs srv) r, st)
      | EStatic \<Rightarrow> (handleStatic (sr_parseFloat srv) (sr_index srv) r, st))"

definition mux :: "server \<Rightarrow> request_env \<Rightarrow> request \<Rightarrow> svc_state \<Rightarrow> response \<times> svc_state" where
  "mux srv env r st =
     (case find_route routes (rq_method r) (rq_url r) of
        None \<Rightarrow> (method_not_allowed (rq_url r), st)
      | Some (ep, vals) \<Rightarrow> dispatch srv env ep (r\<lparr>rq_path := path_value vals\<rparr>) st)"

text \<open>
  \<open>NewServer\<close>: the multiplexer, the limiter in front of it when it is enabled (\<open>fresh\<close> and \<open>Allow\<close> are the
  token bucket, \<open>split_host\<close> is \<open>net.SplitHostPort\<close>), the recovery and the compression.
\<close>

definition limited ::
  "bool \<Rightarrow> 'l \<Rightarrow> ('l \<Rightarrow> time \<Rightarrow> bool \<times> 'l) \<Rightarrow> (string \<Rightarrow> string option) \<Rightarrow> time
     \<Rightarrow> (request \<Rightarrow> 's \<Rightarrow> response \<times> 's) \<Rightarrow> request \<Rightarrow> 'l limiters \<times> 's \<Rightarrow> response \<times> 'l limiters \<times> 's"
where
  "limited enabled fresh Allow split_host now handler r st =
     (if enabled then rateLimitMiddleware fresh Allow split_host now handler r st
      else (let (resp, s') = handler r (snd st) in (resp, (fst st, s'))))"

definition NewServer ::
  "server \<Rightarrow> bool \<Rightarrow> 'l \<Rightarrow> ('l \<Rightarrow> time \<Rightarrow> bool \<times> 'l) \<Rightarrow> (string \<Rightarrow> string option) \<Rightarrow> request_env \<Rightarrow> request
     \<Rightarrow> 'l limiters \<times> svc_state \<Rightarrow> (wire \<times> bool) \<times> 'l limiters \<times> svc_state"
where
  "NewServer srv rateLimitEnabled fresh Allow split_host env =
     gzipMiddleware (sr_parseFloat srv) (sr_detect srv) (sr_gzip srv)
       (recoverMiddleware (sr_encode srv)
         (respond (sr_encode srv)
           (limited rateLimitEnabled fresh Allow split_host (re_now env) (mux srv env))))"


section \<open>Routing is unambiguous\<close>

text \<open>Apart from the catch-all, at most one route matches a request, so the order of the table does not matter.\<close>

lemma match_segments_length: "match_segments ps url = Some vals \<Longrightarrow> length url = length ps"
  by (induction ps url arbitrary: vals rule: match_segments.induct) (auto split: if_splits)

lemma match_segments_Cons:
  "match_segments (Lit a # ps) url = Some vals \<longleftrightarrow> (\<exists>xs. url = a # xs \<and> match_segments ps xs = Some vals)"
  "match_segments (Wild n # ps) url = Some vals \<longleftrightarrow>
     (\<exists>x xs vs. url = x # xs \<and> x \<noteq> '''' \<and> match_segments ps xs = Some vs \<and> vals = (n, x) # vs)"
  "match_segments [] url = Some vals \<longleftrightarrow> url = [] \<and> vals = []"
  by (cases url; auto)+

lemma routes_disjoint:
  assumes "(pm, Exact ps, ep) \<in> set routes" and "(pm', Exact ps', ep') \<in> set routes"
    and "method_matches pm m" "method_matches pm' m"
    and "match_segments ps url \<noteq> None" "match_segments ps' url \<noteq> None"
  shows "ep = ep'"
proof -
  obtain v v' where "match_segments ps url = Some v" "match_segments ps' url = Some v'" using assms(5,6) by auto
  with assms(1-4) show ?thesis
    by (auto simp: routes_def match_segments_Cons method_matches_def)
qed

lemma find_route_Some:
  "find_route rs m url = Some (ep, vals) \<Longrightarrow>
     \<exists>pm pat. (pm, pat, ep) \<in> set rs \<and> method_matches pm m \<and> match_pattern pat url = Some vals"
  by (induction rs m url rule: find_route.induct) (auto split: if_splits option.splits)

lemma find_route_routes:
  "find_route routes m url = None \<Longrightarrow> m \<noteq> ''GET'' \<and> m \<noteq> ''HEAD''"
  by (auto simp: routes_def method_matches_def split: if_splits option.splits)

text \<open>The endpoints that write are reached by POST and DELETE only.\<close>

definition writes :: "endpoint \<Rightarrow> bool" where
  "writes ep \<longleftrightarrow> ep \<in> {EHold, EConfirm, ERelease, ECancel}"

lemma safe_route:
  assumes "find_route routes m url = Some (ep, vals)" and "m = ''GET'' \<or> m = ''HEAD''"
  shows "\<not> writes ep"
  using find_route_Some [OF assms(1)] assms(2) by (auto simp: routes_def method_matches_def writes_def)

lemma dispatch_reads: "\<not> writes ep \<Longrightarrow> fst (snd (dispatch srv env ep r st)) = fst st"
  by (auto simp: writes_def dispatch_def handleListSeats_def service_ListSeatsVersioned_def Let_def
      split: endpoint.splits prod.splits sum.splits if_splits)

lemma mux_reads:
  assumes "rq_method r = ''GET'' \<or> rq_method r = ''HEAD''"
  shows "fst (snd (mux srv env r st)) = fst st"
  using safe_route assms dispatch_reads by (auto simp: mux_def split: option.split prod.split)


section \<open>Every request obeys the contract of the store\<close>

definition request_env_obeys :: "(db \<Rightarrow> db \<Rightarrow> bool) \<Rightarrow> request_env \<Rightarrow> bool" where
  "request_env_obeys R env \<longleftrightarrow> (\<forall>n. env_obeys R (re_hold env n))"

lemma snd_handlers:
  "snd (handleHold svc sv envs r st) = st
     \<or> (\<exists>m s b k. snd (handleHold svc sv envs r st) = snd (service_placeHold svc sv envs m s b k st))"
  "snd (handleConfirm svc sv cenvs r st) = st
     \<or> (\<exists>i b. snd (handleConfirm svc sv cenvs r st) = snd (service_ConfirmHold svc sv cenvs i b st))"
  "snd (handleRelease sv f now r st) = st
     \<or> (\<exists>i b. snd (handleRelease sv f now r st) = snd (service_ReleaseHold sv f now i b st))"
  "snd (handleCancel svc sv xenvs r st) = st
     \<or> (\<exists>i b. snd (handleCancel svc sv xenvs r st) = snd (service_CancelBooking svc sv xenvs i b st))"
  by (auto simp: handleHold_def handleConfirm_def handleRelease_def handleCancel_def Let_def
      service_PlaceHoldWithKey_def split: option.splits sum.splits prod.splits if_splits; metis snd_conv)+

context request_contract
begin

lemma R_dispatch:
  assumes "request_env_obeys R env"
  shows "R (fst st) (fst (snd (dispatch srv env ep r st)))"
proof (cases "writes ep")
  case False
  then show ?thesis using dispatch_reads R_refl by simp
next
  case True
  have h: "env_obeys R (re_hold env n)" for n using assms by (simp add: request_env_obeys_def)
  consider (hold) "ep = EHold" | (confirm) "ep = EConfirm" | (release) "ep = ERelease" | (cancel) "ep = ECancel"
    using True by (auto simp: writes_def)
  then show ?thesis
  proof cases
    case hold
    show ?thesis
      using snd_handlers(1) [of "sr_service srv" "re_service env" "re_hold env" r st] 
        R_service_placeHold [where envs = "re_hold env" and st = st, OF h] R_refl
      by (auto simp: hold dispatch_def)
  next
    case confirm
    show ?thesis
      using snd_handlers(2) [of "sr_service srv" "re_service env" "re_confirm env" r st] R_service_ConfirmHold [where st = st] R_refl
      by (auto simp: confirm dispatch_def)
  next
    case release
    show ?thesis
      using snd_handlers(3) [of "re_service env" "fst (re_release env)" "snd (re_release env)" r st]
        R_service_ReleaseHold [where st = st] R_refl
      by (auto simp: release dispatch_def)
  next
    case cancel
    show ?thesis
      using snd_handlers(4) [of "sr_service srv" "re_service env" "re_cancel env" r st] R_service_CancelBooking [where st = st] R_refl
      by (auto simp: cancel dispatch_def)
  qed
qed

lemma R_mux: "request_env_obeys R env \<Longrightarrow> R (fst st) (fst (snd (mux srv env r st)))"
  using R_dispatch R_refl by (auto simp: mux_def split: option.split prod.split)

end

text \<open>The middlewares leave the state as the multiplexer made it, or untouched when the limiter refuses.\<close>

lemma snd_limited:
  "snd (snd (limited enabled fresh Allow split_host now handler r st)) = snd st
   \<or> snd (snd (limited enabled fresh Allow split_host now handler r st)) = snd (handler r (snd st))"
  by (auto simp: limited_def rateLimitMiddleware_def Let_def split: prod.splits)

lemma NewServer_wire:
  assumes "limited enabled fresh Allow split_host (re_now env) (mux srv env) r st = (resp, st')"
    and "c \<longleftrightarrow> acceptsGzip (sr_parseFloat srv) (header_get ''Accept-Encoding'' (rq_header r))
              \<and> compressed (rq_method r) (rs_status resp) (rs_header resp)"
  shows "\<exists>w. NewServer srv enabled fresh Allow split_host env r st = ((w, False), st')
    \<and> w_sent w = Some (rs_status resp, if c then compress_header (rs_header resp) else rs_header resp)
    \<and> w_body w = (if c then sr_gzip srv (body_text (sr_encode srv) (rs_body resp))
                  else body_text (sr_encode srv) (rs_body resp))"
  unfolding NewServer_def
  using served [where handler = "limited enabled fresh Allow split_host (re_now env) (mux srv env)", OF assms] .

lemma NewServer_state:
  "snd (NewServer srv enabled fresh Allow split_host env r st) =
     snd (limited enabled fresh Allow split_host (re_now env) (mux srv env) r st)"
proof -
  obtain resp st' where l: "limited enabled fresh Allow split_host (re_now env) (mux srv env) r st = (resp, st')"
    by (meson surj_pair)
  then show ?thesis using NewServer_wire [OF l refl] by (metis snd_conv)
qed

end
