(* ===== verification/Startup.thy ===== *)
theory Startup
  imports Router Config
begin

text \<open>
  The two processes: what they build before they serve (\<open>store/pool.go\<close>, \<open>cmd/server/main.go\<close>) and the main
  loop of \<open>cmd/worker/main.go\<close>. The driver \<open>pgxpool\<close>, the token bucket and the libraries a server
  uses are parameters; the signal that ends a process is the end of the list of ticks.
\<close>

section \<open>The connection pool\<close>

text \<open>The calls of \<open>pgxpool\<close>; \<open>px_setMaxConns\<close> is the assignment to the field \<open>MaxConns\<close> of its configuration.\<close>

record ('c, 'p) pgxpool =
  px_ParseConfig :: "string \<Rightarrow> go_error + 'c"
  px_setMaxConns :: "int \<Rightarrow> 'c \<Rightarrow> 'c"
  px_NewWithConfig :: "'c \<Rightarrow> go_error + 'p"
  px_Ping :: "'p \<Rightarrow> go_error option"

text \<open>The result, and the pools that were closed again.\<close>

definition NewPool :: "('c, 'p) pgxpool \<Rightarrow> Config \<Rightarrow> (go_error + 'p) \<times> 'p list" where
  "NewPool px cfg =
     (case px_ParseConfig px (DatabaseURL cfg) of
        Inl err \<Rightarrow> (Inl (Wrap ''store: parse pool config'' err), [])
      | Inr poolCfg \<Rightarrow>
          (case px_NewWithConfig px (px_setMaxConns px (PoolMaxConns cfg) poolCfg) of
             Inl err \<Rightarrow> (Inl (Wrap ''store: create pool'' err), [])
           | Inr pool \<Rightarrow>
               (case px_Ping px pool of
                  Some err \<Rightarrow> (Inl (Wrap ''store: ping'' err), [pool])
                | None \<Rightarrow> (Inr pool, []))))"


section \<open>The processes\<close>

text \<open>A process ends in \<open>log.Fatalf\<close>, in a panic of a package's initialisation, or gets to work.\<close>

datatype 'a process = Fatal go_error | Panic | Running 'a

definition server_main ::
  "(string \<Rightarrow> duration option) \<Rightarrow> environment \<Rightarrow> ('c, 'p) pgxpool \<Rightarrow> (string \<Rightarrow> string option) \<Rightarrow> (string \<Rightarrow> string) \<Rightarrow> server
     \<Rightarrow> 'l \<Rightarrow> ('l \<Rightarrow> time \<Rightarrow> bool \<times> 'l) \<Rightarrow> (string \<Rightarrow> string option)
     \<Rightarrow> (request_env \<Rightarrow> request \<Rightarrow> 'l limiters \<times> svc_state \<Rightarrow> (wire \<times> bool) \<times> 'l limiters \<times> svc_state) process"
where
  "server_main parseDuration env px readFile hexDigest libs fresh Allow split_host =
     (case (indexAsset readFile (sr_gzip libs) hexDigest, appJSAsset readFile (sr_gzip libs) hexDigest) of
        (Some index, Some appjs) \<Rightarrow>
          (case Load parseDuration env of
             Inl err \<Rightarrow> Fatal (Wrap ''config'' err)
           | Inr cfg \<Rightarrow>
               (case fst (NewPool px cfg) of
                  Inl err \<Rightarrow> Fatal (Wrap ''pool'' err)
                | Inr pool \<Rightarrow>
                    (let svc = NewService (svc_digest (sr_service libs)) (svc_format (sr_service libs))
                                 (HoldTTL cfg) (RequestTimeout cfg) (MaxRetries cfg)
                     in Running (NewServer (libs\<lparr>sr_service := svc, sr_index := index, sr_appjs := appjs\<rparr>)
                                  (RateLimitEnabled cfg) fresh Allow split_host))))
      | _ \<Rightarrow> Panic)"

definition worker_main ::
  "(string \<Rightarrow> duration option) \<Rightarrow> environment \<Rightarrow> ('c, 'p) pgxpool \<Rightarrow> worker_env list \<Rightarrow> db \<Rightarrow> db process"
where
  "worker_main parseDuration env px ticks d =
     (case Load parseDuration env of
        Inl err \<Rightarrow> Fatal (Wrap ''config'' err)
      | Inr cfg \<Rightarrow>
          (case fst (NewPool px cfg) of
             Inl err \<Rightarrow> Fatal (Wrap ''pool'' err)
           | Inr pool \<Rightarrow> Running (forEachA (\<lambda>w. tick w (OutboxBatchSize cfg)) ticks d)))"


section \<open>Lemmas\<close>

text \<open>A pool that was opened is handed over or closed, never both; the one handed over answered a ping.\<close>

lemma NewPool_no_leak:
  assumes "px_ParseConfig px (DatabaseURL cfg) = Inr c"
    and "px_NewWithConfig px (px_setMaxConns px (PoolMaxConns cfg) c) = Inr pool"
  shows "NewPool px cfg = (Inr pool, []) \<and> px_Ping px pool = None
     \<or> (\<exists>err. NewPool px cfg = (Inl (Wrap ''store: ping'' err), [pool]))"
  using assms by (simp add: NewPool_def split: option.splits)

text \<open>A server that runs has a service within the bounds the configuration is validated against.\<close>

lemma server_main_Running:
  assumes "server_main parseDuration env px readFile hexDigest libs fresh Allow split_host = Running h"
  shows "\<exists>srv enabled. h = NewServer srv enabled fresh Allow split_host
     \<and> 0 < svc_holdTTL (sr_service srv) \<and> svc_holdTTL (sr_service srv) \<le> 3600 * second
     \<and> 0 < svc_requestTimeout (sr_service srv) \<and> 0 \<le> svc_maxRetries (sr_service srv)"
proof -
  obtain cfg index appjs where cfg: "Load parseDuration env = Inr cfg"
    and h: "h = NewServer (libs\<lparr>sr_service := NewService (svc_digest (sr_service libs)) (svc_format (sr_service libs))
        (HoldTTL cfg) (RequestTimeout cfg) (MaxRetries cfg), sr_index := index, sr_appjs := appjs\<rparr>)
        (RateLimitEnabled cfg) fresh Allow split_host"
    using assms by (auto simp: server_main_def Let_def split: option.splits sum.splits)
  have "config_ok cfg" using cfg by (rule Load_config_ok(1))
  then show ?thesis
    unfolding h by (intro exI) (rule conjI, rule refl, simp add: NewService_def config_ok_def)
qed

lemma worker_main_Running:
  assumes "Load parseDuration env = Inr cfg" and "fst (NewPool px cfg) = Inr pool"
  shows "worker_main parseDuration env px ticks d = Running (forEachA (\<lambda>w. tick w (OutboxBatchSize cfg)) ticks d)"
  using assms by (simp add: worker_main_def)

end
