(* ===== verification/Contention.thy ===== *)
theory Contention
  imports LoadTest
begin

text \<open>
  The contention scenario of \<open>cmd/loadtest/main.go\<close>: many buyers, each a goroutine, hold one of a few
  seats and confirm it. A schedule says which goroutine makes its next call and what that call meets, so
  every interleaving of the calls is a schedule. The counters of the report are read off the goroutines.
\<close>

section \<open>The scenario\<close>

definition concurrency :: nat where
  "concurrency = 500"

definition contendedSeats :: nat where
  "contendedSeats = 5"

text \<open>\<open>fmt.Sprintf("CONTEND-%d", n)\<close> and \<open>fmt.Sprintf("buyer-%d@example.com", i)\<close>\<close>

definition contend_seat :: "nat \<Rightarrow> string" where
  "contend_seat n = ''CONTEND-'' @ show_nat n"

definition contend_buyer :: "nat \<Rightarrow> string" where
  "contend_buyer i = ''buyer-'' @ show_nat i @ ''@example.com''"

text \<open>
  Where a goroutine is: before its hold request, before its confirmation, counted as confirmed or counted as
  rejected.
\<close>

datatype contender = Starting | Confirming int | Bought int | Rejected

text \<open>
  A move: who, what its call meets, and whether a good answer reached the client (a lost connection or an
  answer that does not decode counts as rejected whatever the server did).
\<close>

record move =
  mv_who :: nat
  mv_service :: service_env
  mv_hold :: "int \<Rightarrow> hold_env"
  mv_confirm :: "int \<Rightarrow> fault \<times> time"
  mv_delivered :: bool

text \<open>\<open>choice i\<close> is the draw \<open>rand.Intn(contendedSeats)\<close> of goroutine \<open>i\<close>.\<close>

definition contend ::
  "Service \<Rightarrow> string \<Rightarrow> (nat \<Rightarrow> nat) \<Rightarrow> move \<Rightarrow> svc_state \<times> (nat \<Rightarrow> contender) \<Rightarrow> svc_state \<times> (nat \<Rightarrow> contender)"
where
  "contend svc matchID choice mv s =
     (let (st, pc) = s; i = mv_who mv in
      case pc i of
        Starting \<Rightarrow>
          (case service_PlaceHold svc (mv_service mv) (mv_hold mv) matchID (contend_seat (choice i)) (contend_buyer i) st of
             (Inl _, st') \<Rightarrow> (st', pc(i := Rejected))
           | (Inr h, st') \<Rightarrow> (st', pc(i := if mv_delivered mv then Confirming (ho_ID h) else Rejected)))
      | Confirming holdID \<Rightarrow>
          (case service_ConfirmHold svc (mv_service mv) (mv_confirm mv) holdID (contend_buyer i) st of
             (Inl _, st') \<Rightarrow> (st', pc(i := Rejected))
           | (Inr b, st') \<Rightarrow> (st', pc(i := if mv_delivered mv then Bought holdID else Rejected)))
      | _ \<Rightarrow> s)"

definition runContentionScenario ::
  "Service \<Rightarrow> string \<Rightarrow> (nat \<Rightarrow> nat) \<Rightarrow> move list \<Rightarrow> svc_state \<Rightarrow> svc_state \<times> (nat \<Rightarrow> contender)"
where
  "runContentionScenario svc matchID choice moves st =
     forEachA (contend svc matchID choice) moves (st, \<lambda>_. Starting)"

text \<open>The counters, and \<open>wg.Wait()\<close>: every goroutine has finished.\<close>

definition bought :: "contender \<Rightarrow> bool" where
  "bought c = (case c of Bought _ \<Rightarrow> True | _ \<Rightarrow> False)"

definition attempts :: "(nat \<Rightarrow> contender) \<Rightarrow> nat" where
  "attempts pc = length (filter (\<lambda>i. pc i \<noteq> Starting) [0..<concurrency])"

definition confirmed :: "(nat \<Rightarrow> contender) \<Rightarrow> nat" where
  "confirmed pc = length (filter (\<lambda>i. bought (pc i)) [0..<concurrency])"

definition rejected :: "(nat \<Rightarrow> contender) \<Rightarrow> nat" where
  "rejected pc = length (filter (\<lambda>i. pc i = Rejected) [0..<concurrency])"

definition finished :: "(nat \<Rightarrow> contender) \<Rightarrow> bool" where
  "finished pc = list_all (\<lambda>i. bought (pc i) \<or> pc i = Rejected) [0..<concurrency]"


section \<open>Sold seats stay sold\<close>

text \<open>The hold path never touches a sold booking: a third relation for the contract of its statements.\<close>

definition sold_kept :: "db \<Rightarrow> db \<Rightarrow> bool" where
  "sold_kept d d' \<longleftrightarrow> (\<forall>b \<in> set (bookings d). bk_status b = Confirmed \<longrightarrow> b \<in> set (bookings d'))"

lemma sold_kept_same: "bookings d' = bookings d \<Longrightarrow> sold_kept d d'"
  by (simp add: sold_kept_def)

lemma sold_kept_update: "(\<And>b. P b \<Longrightarrow> bk_status b \<noteq> Confirmed) \<Longrightarrow> sold_kept d (snd (update_bookings P f d))"
  by (force simp: sold_kept_def update_bookings_def write_bookings_def set_update_where split: option.splits)

interpretation sold: hold_contract sold_kept
proof unfold_locales
  show "obeys sold_kept (sql_insert_hold now m s b us)" for now m s b us
    by (auto simp: obeys_def sql_insert_hold_def write_bookings_def Let_def sold_kept_def split: option.splits)
  show "obeys sold_kept (sql_release_previous now m s b)" for now m s b
    by (auto simp: obeys_def sql_release_previous_def previous_hold_def intro!: sold_kept_update)
  show "obeys sold_kept (sql_expire_stale now m s)" for now m s
    by (auto simp: obeys_def sql_expire_stale_def stale_hold_def intro!: sold_kept_update)
  show "obeys sold_kept (sql_confirm_hold now i b)" for now i b
    by (auto simp: obeys_def sql_confirm_hold_def confirmable_def intro!: sold_kept_update)
  show "obeys sold_kept (sql_release_hold now i b)" for now i b
    by (auto simp: obeys_def sql_release_hold_def releasable_def intro!: sold_kept_update)
qed (auto simp: obeys_def sold_kept_def sql_clear_stale_key_def sql_record_key_def rollback_def)


section \<open>What a call of a goroutine leaves behind\<close>

lemma PlaceHold_row:
  assumes "schema_inv d" and "env_obeys schema_step env" and "PlaceHold env m s b ttl d = (Inr row, d')"
  shows "\<exists>r \<in> set (bookings d'). bk_id r = br_ID row \<and> same_request m s b r"
proof -
  let ?d1 = "he_before_tx env d"
  have tx: "hold_tx env m s b ttl '''' 0 ?d1 = (Inr row, d')"
    using assms(3)
    by (auto simp: PlaceHold_def placeHold_def hold_attempt_def replayHold_def Let_def
        split: prod.splits sum.splits hold_failure.splits)
  have "row = booking_row_of (placed_row env m s b ttl ?d1)" "d' = placed_db env m s b ttl '''' 0 ?d1"
    using hold_tx_Inr [OF env_schema(1) [OF assms(2,1)] tx] by simp_all
  then show ?thesis by (simp add: placed_db_def placed_row_def booking_row_of_def same_request_def)
qed

lemma withRetry_success:
  assumes "step_contract R" and "\<And>k. obeys R (fn k)" and "withRetry ctx m zero fn s = (Inr x, s')"
  shows "\<exists>k s0. R s s0 \<and> fn k s0 = (Inr x, s')"
proof -
  have "0 \<le> (if m < 0 then 0 else m)" by simp
  from step_contract.retry_loop_success [OF assms(1) this _ assms(3) [unfolded withRetry_def]]
  show ?thesis using obeys_eqD [OF assms(2)] by blast
qed

lemma service_PlaceHold_row:
  assumes "schema_inv (fst st)" and "\<And>n. env_obeys schema_step (envs n)"
    and "service_PlaceHold svc sv envs m s b st = (Inr h, st')"
  shows "\<exists>r \<in> set (bookings (fst st')). bk_id r = ho_ID h \<and> same_request m s b r"
proof -
  obtain d' c' where st': "st' = (d', c')" by (cases st')
  have w: "withRetry (sv_ctx sv) (svc_maxRetries svc) zero_hold (store_hold svc envs m s b '''') (fst st) = (Inr h, d')"
    using assms(3) by (simp add: service_PlaceHold_def st' service_Inr)
  have o: "obeys schema_step (store_hold svc envs m s b '''' k)" for k
    unfolding store_hold_def PlaceHoldWithKey_def
    by (intro schema.obeys_intros hold_schema.obeys_placeHold assms(2))
  obtain k d0 where "schema_step (fst st) d0" and h: "store_hold svc envs m s b '''' k d0 = (Inr h, d')"
    using withRetry_success [OF schema.step_contract_axioms o w] by blast
  then have inv: "schema_inv d0" using assms(1) by (simp add: schema_step_def)
  from h obtain row where "PlaceHold (envs k) m s b (svc_holdTTL svc) d0 = (Inr row, d')" "h = hold_of_row row"
    by (auto simp: store_hold_def PlaceHoldWithKey_def PlaceHold_def bindA_Inr_iff)
  then show ?thesis using PlaceHold_row [OF inv assms(2)] by (simp add: st' hold_of_row_def)
qed

lemma service_ConfirmHold_row:
  assumes "schema_inv (fst st)" and "service_ConfirmHold svc sv envs i buyer st = (Inr bk, st')"
  shows "\<exists>r \<in> set (bookings (fst st')). bk_id r = i \<and> bk_status r = Confirmed \<and> bk_buyer_id r = buyer"
proof -
  obtain d' c' where st': "st' = (d', c')" by (cases st')
  have w: "withRetry (sv_ctx sv) (svc_maxRetries svc) zero_booking (store_confirm envs i buyer) (fst st) = (Inr bk, d')"
    using assms(2) by (simp add: st' service_Inr)
  have o: "obeys schema_step (store_confirm envs i buyer k)" for k
    unfolding store_confirm_def by (intro schema.obeys_intros hold_schema.obeys_ConfirmHold)
  obtain k d0 where "schema_step (fst st) d0" and c: "store_confirm envs i buyer k d0 = (Inr bk, d')"
    using withRetry_success [OF schema.step_contract_axioms o w] by blast
  then have inv: "schema_inv d0" using assms(1) by (simp add: schema_step_def)
  from c obtain row where "ConfirmHold (fst (envs k)) (snd (envs k)) i buyer d0 = (Inr row, d')"
    by (auto simp: store_confirm_def bindA_Inr_iff)
  from ConfirmHold_Inr [OF inv this] obtain b where "b \<in> set (bookings d0)" "bk_id b = i"
    "confirmable (snd (envs k)) buyer b"
    "d' = d0\<lparr>bookings := update_where (\<lambda>r. bk_id r = i \<and> confirmable (snd (envs k)) buyer r) (confirm_row (snd (envs k))) (bookings d0)\<rparr>" .
  then show ?thesis
    by (intro bexI [of _ "confirm_row (snd (envs k)) b"])
       (auto simp: st' set_update_where confirmable_def confirm_row_def)
qed


section \<open>Every buyer that was told it bought a seat owns one\<close>

definition owns :: "string \<Rightarrow> (nat \<Rightarrow> nat) \<Rightarrow> nat \<Rightarrow> int \<Rightarrow> bookings_row \<Rightarrow> bool" where
  "owns m choice i holdID b \<longleftrightarrow> bk_id b = holdID \<and> same_request m (contend_seat (choice i)) (contend_buyer i) b"

fun contender_ok :: "string \<Rightarrow> (nat \<Rightarrow> nat) \<Rightarrow> db \<Rightarrow> nat \<Rightarrow> contender \<Rightarrow> bool" where
  "contender_ok m choice d i (Confirming holdID) \<longleftrightarrow> (\<exists>b \<in> set (bookings d). owns m choice i holdID b)"
| "contender_ok m choice d i (Bought holdID) \<longleftrightarrow>
     (\<exists>b \<in> set (bookings d). owns m choice i holdID b \<and> bk_status b = Confirmed)"
| "contender_ok m choice d i _ \<longleftrightarrow> True"

definition contention_inv :: "string \<Rightarrow> (nat \<Rightarrow> nat) \<Rightarrow> svc_state \<times> (nat \<Rightarrow> contender) \<Rightarrow> bool" where
  "contention_inv m choice s \<longleftrightarrow>
     schema_inv (fst (fst s)) \<and> (\<forall>i. contender_ok m choice (fst (fst s)) i (snd s i))"

definition steady :: "hold_env \<Rightarrow> bool" where
  "steady env \<longleftrightarrow> env_obeys lifecycle env \<and> env_obeys sold_kept env"

lemma owns_evolves: "owns m choice i h b \<Longrightarrow> evolves b b' \<Longrightarrow> owns m choice i h b'"
  by (simp add: owns_def evolves_def same_request_def seat_key_def)

lemma contender_ok_step:
  assumes "schema_inv d" and "lifecycle d d'" and "sold_kept d d'" and "contender_ok m choice d i c"
  shows "contender_ok m choice d' i c"
  using assms owns_evolves unfolding lifecycle_def sold_kept_def by (cases c) (simp; meson)+

lemma steady_schema: "steady env \<Longrightarrow> env_obeys schema_step env"
  by (simp add: steady_def env_obeys_def lifecycle_def)

lemma same_id_owns:
  assumes "schema_inv d" and "r \<in> set (bookings d)" "b \<in> set (bookings d)" and "bk_id r = h" and "owns m choice i h b"
  shows "owns m choice i h r"
  using assms distinct_key_eq [OF schema_inv_bk_id [OF assms(1)] assms(2,3)] by (simp add: owns_def)

lemma contend_inv:
  assumes inv: "contention_inv m choice s" and env: "\<And>n. steady (mv_hold mv n)"
  shows "contention_inv m choice (contend svc m choice mv s)"
proof -
  obtain st pc where s: "s = (st, pc)" by (cases s)
  let ?i = "mv_who mv"
  have d: "schema_inv (fst st)" and ok: "contender_ok m choice (fst st) j (pc j)" for j
    using inv by (simp_all add: contention_inv_def s)
  have put: "contention_inv m choice (st', pc(?i := c))"
    if "lifecycle (fst st) (fst st')" "sold_kept (fst st) (fst st')" "contender_ok m choice (fst st') ?i c" for st' c
    using that d ok contender_ok_step [OF d that(1,2) ok]
    by (auto simp: contention_inv_def lifecycle_def schema_step_def)
  show ?thesis
  proof (cases "pc ?i")
    case Starting
    obtain r st' where call: "service_PlaceHold svc (mv_service mv) (mv_hold mv) m (contend_seat (choice ?i)) (contend_buyer ?i) st = (r, st')"
      by (meson surj_pair)
    have e: "env_obeys lifecycle (mv_hold mv n)" "env_obeys sold_kept (mv_hold mv n)"
      "env_obeys schema_step (mv_hold mv n)" for n
      using env steady_schema by (auto simp: steady_def)
    have R: "lifecycle (fst st) (fst st')" "sold_kept (fst st) (fst st')"
      using life.R_service_placeHold [where envs = "mv_hold mv" and st = st, OF e(1)]
        sold.R_service_placeHold [where envs = "mv_hold mv" and st = st, OF e(2)] call
      by (metis service_PlaceHold_def snd_conv)+
    have "contender_ok m choice (fst st') ?i (Confirming (ho_ID h))" if "r = Inr h" for h
      using service_PlaceHold_row [OF d e(3) call [unfolded that]] by (auto simp: owns_def)
    then show ?thesis
      using call put [OF R] Starting by (auto simp: contend_def s Let_def split: sum.split)
  next
    case (Confirming h)
    obtain r st' where call: "service_ConfirmHold svc (mv_service mv) (mv_confirm mv) h (contend_buyer ?i) st = (r, st')"
      by (meson surj_pair)
    have R: "lifecycle (fst st) (fst st')" "sold_kept (fst st) (fst st')"
      using life.R_service_ConfirmHold [where st = st] sold.R_service_ConfirmHold [where st = st] call by (metis snd_conv)+
    have own: "contender_ok m choice (fst st') ?i (Confirming h)"
      using contender_ok_step [OF d R ok [of ?i]] Confirming by simp
    have "contender_ok m choice (fst st') ?i (Bought h)" if res: "r = Inr b" for b
    proof -
      obtain x where "x \<in> set (bookings (fst st'))" "bk_id x = h" "bk_status x = Confirmed"
        using service_ConfirmHold_row [OF d call [unfolded res]] by blast
      moreover have "schema_inv (fst st')" using R(1) d by (simp add: lifecycle_def schema_step_def)
      ultimately show ?thesis
        using own same_id_owns [of "fst st'" x] by (auto intro!: bexI [of _ x])
    qed
    then show ?thesis
      using call put [OF R] Confirming by (auto simp: contend_def s Let_def split: sum.split)
  qed (use inv in \<open>simp_all add: contend_def s\<close>)
qed

lemma scenario_inv:
  assumes "schema_inv (fst st)" and "\<And>mv n. mv \<in> set moves \<Longrightarrow> steady (mv_hold mv n)"
  shows "contention_inv m choice (runContentionScenario svc m choice moves st)"
proof -
  have "contention_inv m choice (forEachA (contend svc m choice) moves s)"
    if "contention_inv m choice s" for s
    using that assms(2) contend_inv
    by (induction moves arbitrary: s) simp_all
  then show ?thesis using assms(1) by (simp add: runContentionScenario_def contention_inv_def)
qed


section \<open>No more buyers than seats\<close>

lemma contend_buyer_inj: "contend_buyer i = contend_buyer j \<Longrightarrow> i = j"
  by (simp add: contend_buyer_def)

lemma contend_seat_inj: "contend_seat i = contend_seat j \<Longrightarrow> i = j"
  by (simp add: contend_seat_def)

lemma bought_bounded:
  assumes "contention_inv m choice s" and "\<And>i. choice i < n"
  shows "length (filter (\<lambda>i. bought (snd s i)) [0..<k]) \<le> n"
proof -
  let ?d = "fst (fst s)" and ?won = "{i \<in> {0..<k}. bought (snd s i)}"
  have inv: "schema_inv ?d" and ok: "contender_ok m choice ?d i (snd s i)" for i
    using assms(1) by (simp_all add: contention_inv_def)
  have sold: "\<exists>b \<in> set (bookings ?d). bk_status b = Confirmed \<and> same_request m (contend_seat (choice i)) (contend_buyer i) b"
    if "bought (snd s i)" for i
    using that ok [of i] by (cases "snd s i") (auto simp: bought_def owns_def)
  have "inj_on choice ?won"
  proof (rule inj_onI)
    fix i j assume ij: "i \<in> ?won" "j \<in> ?won" "choice i = choice j"
    obtain a b where "a \<in> set (bookings ?d)" "bk_status a = Confirmed"
        "same_request m (contend_seat (choice i)) (contend_buyer i) a"
        "b \<in> set (bookings ?d)" "bk_status b = Confirmed"
        "same_request m (contend_seat (choice j)) (contend_buyer j) b"
      using sold [of i] sold [of j] ij by auto
    moreover from this have "a = b"
      using ij(3) by (intro active_unique [OF inv]) (auto simp: active_def seat_key_def same_request_def)
    ultimately show "i = j" by (simp add: same_request_def contend_buyer_inj)
  qed
  then have "card ?won \<le> card {0..<n}"
    using assms(2) by (intro card_inj_on_le [of choice]) auto
  moreover have "length (filter (\<lambda>i. bought (snd s i)) [0..<k]) = card ?won"
    using distinct_card [of "filter (\<lambda>i. bought (snd s i)) [0..<k]"] by (simp only: set_filter distinct_filter distinct_upt set_upt)
  ultimately show ?thesis by simp
qed

lemma counters_add_up:
  assumes "finished pc"
  shows "attempts pc = concurrency \<and> attempts pc = confirmed pc + rejected pc"
proof -
  have all: "bought (pc i) \<or> pc i = Rejected" if "i < concurrency" for i
    using assms that by (simp add: finished_def list_all_iff)
  have "filter (\<lambda>i. pc i \<noteq> Starting) [0..<concurrency] = [0..<concurrency]"
    by (rule filter_True) (use all in \<open>force simp: bought_def\<close>)
  moreover have "filter (\<lambda>i. pc i = Rejected) [0..<concurrency] = filter (\<lambda>i. \<not> bought (pc i)) [0..<concurrency]"
    by (rule filter_cong) (use all in \<open>auto simp: bought_def\<close>)
  ultimately show ?thesis
    using sum_length_filter_compl [of "\<lambda>i. bought (pc i)" "[0..<concurrency]"]
    by (simp add: attempts_def confirmed_def rejected_def)
qed

end
