(* ===== verification/Latency.thy ===== *)
theory Latency
  imports Prelude
begin

text \<open>
  The latency statistics of \<open>cmd/loadtest/main.go\<close>: \<open>latencyTracker\<close> with \<open>record\<close> and \<open>p95\<close>. The index of the
  percentile is a product of 64-bit floating-point numbers, truncated; the rounding of that product is
  modelled on integers.
\<close>

section \<open>The product with 0.95\<close>

text \<open>The number of binary digits of a positive integer.\<close>

function bit_length :: "int \<Rightarrow> nat" where
  "bit_length n = (if n \<le> 0 then 0 else Suc (bit_length (n div 2)))"
  by pat_completeness auto
termination
  by (relation "measure nat") auto

declare bit_length.simps [simp del]

text \<open>Round to 53 significant binary digits, to nearest and ties to even.\<close>

definition round53 :: "int \<Rightarrow> int" where
  "round53 p =
     (let e = bit_length p - 53; u = 2 ^ e; q = p div u; r = p mod u
      in if 2 * r < u \<or> (2 * r = u \<and> even q) then q * u else (q + 1) * u)"

text \<open>The constant 0.95 is this many units of \<open>2\<^sup>-\<^sup>5\<^sup>3\<close>, and so is the product after rounding.\<close>

definition float_095 :: int where
  "float_095 = 0x1e666666666666"

definition p95_index :: "int \<Rightarrow> int" where
  "p95_index n = round53 (n * float_095) div 2 ^ 53"


section \<open>latencyTracker\<close>

type_synonym latencyTracker = "duration list"

definition record_latency :: "duration \<Rightarrow> latencyTracker \<Rightarrow> latencyTracker" where
  "record_latency d ts = ts @ [d]"

definition p95 :: "latencyTracker \<Rightarrow> duration" where
  "p95 ts =
     (if ts = [] then 0
      else let srt = sort ts; n = int (length srt); idx = p95_index n;
               idx' = (if n \<le> idx then n - 1 else idx)
           in srt ! nat idx')"


section \<open>What the percentile is\<close>

lemma bit_length_bounds:
  "0 < n \<Longrightarrow> 2 ^ (bit_length n - 1) \<le> n \<and> n < 2 ^ bit_length n"
proof (induction n rule: bit_length.induct)
  case (1 n)
  show ?case
  proof (cases "n = 1")
    case True
    then show ?thesis by (simp add: bit_length.simps)
  next
    case False
    then have "0 < n div 2" using 1(2) by auto
    then have ih: "2 ^ (bit_length (n div 2) - 1) \<le> n div 2" "n div 2 < 2 ^ bit_length (n div 2)"
      using 1(1) 1(2) by auto
    have pos: "bit_length (n div 2) = Suc (bit_length (n div 2) - 1)"
      using \<open>0 < n div 2\<close> by (subst bit_length.simps) (simp add: bit_length.simps [of "n div 2"])
    have "bit_length n = Suc (bit_length (n div 2))" using 1(2) by (simp add: bit_length.simps [of n])
    moreover have "(2 :: int) ^ bit_length (n div 2) = 2 * 2 ^ (bit_length (n div 2) - 1)"
      using pos by (metis power_Suc)
    ultimately show ?thesis using ih by simp linarith
  qed
qed

text \<open>The unit of the rounding: the result is a multiple of it and at most half of it away.\<close>

definition unit53 :: "int \<Rightarrow> int" where
  "unit53 p = 2 ^ (bit_length p - 53)"

lemma round53_dvd: "unit53 p dvd round53 p"
  by (simp add: round53_def unit53_def Let_def)

lemma round53_near: "\<bar>2 * (round53 p - p)\<bar> \<le> unit53 p"
proof -
  let ?u = "unit53 p"
  have "0 < ?u" by (simp add: unit53_def)
  then have "p = p div ?u * ?u + p mod ?u" "0 \<le> p mod ?u" "p mod ?u < ?u" by simp_all
  moreover have "round53 p = p div ?u * ?u \<and> 2 * (p mod ?u) \<le> ?u
      \<or> round53 p = p div ?u * ?u + ?u \<and> ?u \<le> 2 * (p mod ?u)"
    by (auto simp: round53_def unit53_def Let_def algebra_simps)
  ultimately show ?thesis unfolding abs_le_iff right_diff_distrib by (elim disjE conjE) linarith+
qed

lemma unit53_bounds:
  assumes "0 < p"
  shows "0 < unit53 p" and "p < 2 ^ 53 * unit53 p" and "unit53 p = 1 \<or> 2 ^ 52 * unit53 p \<le> p"
proof -
  show "0 < unit53 p" by (simp add: unit53_def)
  note b = bit_length_bounds [OF assms]
  have "p < 2 ^ bit_length p" "bit_length p \<le> 53 + (bit_length p - 53)" using b by simp_all
  then have "p < 2 ^ (53 + (bit_length p - 53))" using power_increasing [of _ _ "2 :: int"] by (smt (verit))
  then show "p < 2 ^ 53 * unit53 p" unfolding unit53_def power_add .
  show "unit53 p = 1 \<or> 2 ^ 52 * unit53 p \<le> p"
  proof (cases "bit_length p \<le> 53")
    case False
    then have "bit_length p - 1 = 52 + (bit_length p - 53)" by simp
    then show ?thesis using b unfolding unit53_def by (metis power_add)
  qed (simp add: unit53_def)
qed

text \<open>
  The rounding errors cancel: 0.95 is below its value by 8 parts in \<open>20 * 2\<^sup>5\<^sup>3\<close>, and a product that would
  be a whole number is rounded back to it. So the index is exactly 95 percent of the samples, rounded
  down, for every number of samples a run can have.
\<close>

lemma near_multiple:
  fixes u :: int
  assumes "0 < u" and "u dvd x" and "u dvd y" and "\<bar>x - y\<bar> < u"
  shows "x = y"
proof -
  have "u dvd x - y" using assms(2,3) by simp
  then show ?thesis using assms(1,4) dvd_imp_le_int [of "x - y" u] by (cases "x - y = 0") auto
qed

lemma round53_product:
  assumes n: "0 < n" "n < 2 ^ 48" and k: "k = 19 * n div 20"
  shows "k * 2 ^ 53 \<le> round53 (n * float_095)" and "round53 (n * float_095) < (k + 1) * 2 ^ 53"
proof -
  define p where "p = n * float_095"
  define u where "u = unit53 p"
  define j where "j = 19 * n mod 20"
  have j: "19 * n = 20 * k + j" "0 \<le> j" "j < 20" by (simp_all add: j_def k)
  have p: "0 < p" "20 * p = (20 * k + j) * 2 ^ 53 - 8 * n"
    using n j(1) by (simp_all add: p_def float_095_def)
  note b = unit53_bounds [OF p(1), folded u_def] and near = round53_near [of p, folded u_def]
    and dvd = round53_dvd [of p, folded u_def]
  have un: "u \<le> 2 * n" using b(3) n by (auto simp: p_def float_095_def)
  have "bit_length p - 53 \<le> 53"
  proof (rule ccontr)
    assume "\<not> ?thesis"
    then have "(2 :: int) ^ 53 \<le> u" unfolding u_def unit53_def by (intro power_increasing) simp_all
    then show False using un n(2) by simp
  qed
  then have "u dvd 2 ^ 53" unfolding u_def unit53_def by (rule le_imp_power_dvd)
  then have dk: "u dvd k * 2 ^ 53" by (rule dvd_mult)
  show "round53 (n * float_095) < (k + 1) * 2 ^ 53"
    using near un p(2) n j unfolding p_def [symmetric] by (auto simp: algebra_simps)
  show "k * 2 ^ 53 \<le> round53 (n * float_095)"
  proof (cases "j = 0")
    case True
    then have "\<bar>round53 p - k * 2 ^ 53\<bar> < u" using near b(2) p(2) n j(1) by (auto simp: algebra_simps)
    then show ?thesis using near_multiple [OF b(1) dvd dk] by (simp add: p_def)
  next
    case False
    show ?thesis
    proof (rule ccontr)
      assume "\<not> ?thesis"
      then have lt: "round53 p < k * 2 ^ 53" by (simp add: p_def)
      have "k * 2 ^ 53 \<le> p" using p(2) False j n by (auto simp: algebra_simps)
      then have "\<bar>round53 p - k * 2 ^ 53\<bar> < u" using near lt b(1) by auto
      then show False using near_multiple [OF b(1) dvd dk] lt by simp
    qed
  qed
qed

lemma p95_index_exact:
  assumes "0 < n" and "n < 2 ^ 48"
  shows "p95_index n = 19 * n div 20"
  unfolding p95_index_def
  using round53_product [OF assms refl] by (intro int_div_pos_eq [where r = "round53 (n * float_095) - 19 * n div 20 * 2 ^ 53"]) auto

text \<open>In a sorted list at least \<open>k + 1\<close> entries are at most the \<open>k\<close>-th and at most \<open>k\<close> are below it.\<close>

lemma sorted_rank:
  assumes "sorted xs" and "k < length xs"
  shows "k < length (filter (\<lambda>x. x \<le> xs ! k) xs)" and "length (filter (\<lambda>x. x < xs ! k) xs) \<le> k"
proof -
  have split: "length (filter P xs) = length (filter P (take i xs)) + length (filter P (drop i xs))" for P i
    by (metis append_take_drop_id filter_append length_append)
  have "filter (\<lambda>x. x \<le> xs ! k) (take (Suc k) xs) = take (Suc k) xs"
    using assms by (auto simp: filter_id_conv in_set_conv_nth sorted_nth_mono)
  then show "k < length (filter (\<lambda>x. x \<le> xs ! k) xs)" using assms(2) split [of _ "Suc k"] by simp
  have "filter (\<lambda>x. x < xs ! k) (drop k xs) = []"
    using assms by (auto simp: filter_empty_conv in_set_conv_nth not_less sorted_nth_mono)
  then show "length (filter (\<lambda>x. x < xs ! k) xs) \<le> k"
    using length_filter_le [of "\<lambda>x. x < xs ! k" "take k xs"] split [of _ k] by simp
qed

text \<open>What \<open>p95\<close> returns is a sample, more than 95 percent are at most it and no more than 95 percent are below it.\<close>

lemma p95_is_percentile:
  assumes "ts \<noteq> []" and "length ts < 2 ^ 48"
  shows "p95 ts \<in> set ts" and "19 * length ts < 20 * length (filter (\<lambda>x. x \<le> p95 ts) ts)"
    and "20 * length (filter (\<lambda>x. x < p95 ts) ts) \<le> 19 * length ts"
proof -
  let ?n = "int (length ts)" and ?k = "19 * length ts div 20"
  have kn: "?k < length (sort ts)" using assms(1) by (cases ts) simp_all
  have "p95_index ?n = int ?k"
    using assms p95_index_exact [of ?n] by (simp add: zdiv_int)
  then have k: "nat (p95_index ?n) = ?k" "p95_index ?n < ?n" using kn by simp_all
  have v: "p95 ts = sort ts ! ?k" using assms(1) k by (simp add: p95_def Let_def)
  show "p95 ts \<in> set ts" using nth_mem [OF kn] v by simp
  have len: "length (filter P (sort ts)) = length (filter P ts)" for P :: "int \<Rightarrow> bool"
    by (simp add: filter_sort)
  show "19 * length ts < 20 * length (filter (\<lambda>x. x \<le> p95 ts) ts)"
    using sorted_rank(1) [OF sorted_sort kn] by (simp add: v len)
  show "20 * length (filter (\<lambda>x. x < p95 ts) ts) \<le> 19 * length ts"
    using sorted_rank(2) [OF sorted_sort kn] by (simp add: v len)
qed

end
