(* ===== verification/LoadMain.thy ===== *)
theory LoadMain
  imports Contention Latency
begin

text \<open>
  The load test as a whole, \<open>main\<close> of \<open>cmd/loadtest/main.go\<close>: the fixtures, the warm-up, the two scenarios,
  the verification queries and the verdict. \<open>None\<close> is \<open>log.Fatalf\<close>.
\<close>

section \<open>The fixtures\<close>

definition warmupIterations :: nat where
  "warmupIterations = 20"

definition warmup_seat :: "nat \<Rightarrow> string" where
  "warmup_seat i = ''WARMUP-'' @ show_nat i"

definition expiry_seat :: string where
  "expiry_seat = ''EXPIRY-BOUNDARY''"

definition fixture_seats :: "string list" where
  "fixture_seats = map warmup_seat [0..<warmupIterations] @ map contend_seat [0..<contendedSeats] @ [expiry_seat]"

text \<open>\<open>INSERT ... ON CONFLICT DO NOTHING\<close> into the two inventory tables.\<close>

definition sql_seed_match :: "time \<Rightarrow> string \<Rightarrow> (db, go_error, unit) action" where
  "sql_seed_match now matchID d =
     (Inr (), if matchID \<in> set (map ma_id (matches d)) then d
              else d\<lparr>matches := matches d @ [\<lparr>ma_id = matchID, ma_name = ''Load Test Match'',
                                              ma_start_time = now + 7 * 24 * 3600 * 1000000\<rparr>]\<rparr>)"

definition sql_seed_seat :: "string \<Rightarrow> string \<Rightarrow> (db, go_error, unit) action" where
  "sql_seed_seat matchID seatID d =
     (Inr (), if (matchID, seatID) \<in> set (map (\<lambda>s. (se_match_id s, se_seat_id s)) (seats d)) then d
              else d\<lparr>seats := seats d @ [\<lparr>se_match_id = matchID, se_seat_id = seatID, se_section = ''LOADTEST''\<rparr>]\<rparr>)"

primrec seed_seats :: "(string \<Rightarrow> fault) \<Rightarrow> string \<Rightarrow> string list \<Rightarrow> (db, go_error, unit) action" where
  "seed_seats flt matchID [] = returnA ()"
| "seed_seats flt matchID (seatID # seatIDs) =
     bindA (withFault (flt seatID) (sql_seed_seat matchID seatID)) (\<lambda>_. seed_seats flt matchID seatIDs)"

definition seedLoadTestFixtures :: "fault \<Rightarrow> (string \<Rightarrow> fault) \<Rightarrow> time \<Rightarrow> string \<Rightarrow> (db, go_error, unit) action" where
  "seedLoadTestFixtures f flt now matchID =
     bindA (withFault f (sql_seed_match now matchID)) (\<lambda>_. seed_seats flt matchID fixture_seats)"


section \<open>The run\<close>

text \<open>Every warm-up hold is the same buyer's; what it returns is ignored.\<close>

definition warmup :: "Service \<Rightarrow> string \<Rightarrow> (nat \<Rightarrow> service_env \<times> (int \<Rightarrow> hold_env)) \<Rightarrow> svc_state \<Rightarrow> svc_state" where
  "warmup svc matchID envs =
     forEachA (\<lambda>i st. snd (service_PlaceHold svc (fst (envs i)) (snd (envs i)) matchID (warmup_seat i) ''warmup'' st))
       [0..<warmupIterations]"

text \<open>
  What a run meets. \<open>le_order\<close> is the order in which the racers of the second scenario get to the database;
  what is shown below holds for any number of them.
\<close>

record load_env =
  le_seed_match :: fault
  le_seed_seat :: "string \<Rightarrow> fault"
  le_seed_now :: time
  le_warmup :: "nat \<Rightarrow> service_env \<times> (int \<Rightarrow> hold_env)"
  le_choice :: "nat \<Rightarrow> nat"
  le_moves :: "move list"
  le_first :: "service_env \<times> (int \<Rightarrow> hold_env)"
  le_first_delivered :: bool
  le_backdate :: fault
  le_backdate_now :: time
  le_racer :: "nat \<Rightarrow> service_env \<times> (int \<Rightarrow> hold_env)"
  le_racer_delivered :: "nat \<Rightarrow> bool"
  le_order :: "nat list"
  le_confirm_service :: service_env
  le_confirm :: "int \<Rightarrow> fault \<times> time"
  le_oversold :: fault
  le_stuck :: fault
  le_stuck_now :: time

definition racer_of :: "string \<Rightarrow> service_env \<times> (int \<Rightarrow> hold_env) \<Rightarrow> bool \<Rightarrow> racer" where
  "racer_of buyerID env delivered =
     \<lparr>ra_buyer = buyerID, ra_service = fst env, ra_env = snd env, ra_delivered = delivered\<rparr>"

definition racer_buyer :: "nat \<Rightarrow> string" where
  "racer_buyer i = ''racer-'' @ show_nat i @ ''@example.com''"

record load_report =
  lr_contention :: "nat \<Rightarrow> contender"
  lr_won :: nat
  lr_oversold :: nat
  lr_stuck :: nat
  lr_pass :: bool

definition loadtest_main :: "Service \<Rightarrow> string \<Rightarrow> load_env \<Rightarrow> svc_state \<Rightarrow> (load_report \<times> svc_state) option" where
  "loadtest_main svc matchID env st =
     (case seedLoadTestFixtures (le_seed_match env) (le_seed_seat env) (le_seed_now env) matchID (fst st) of
        (Inl err, _) \<Rightarrow> None
      | (Inr _, d) \<Rightarrow>
          (let st1 = warmup svc matchID (le_warmup env) (d, snd st);
               (st2, pc) = runContentionScenario svc matchID (le_choice env) (le_moves env) st1 in
           case runExpiryBoundaryScenario svc matchID expiry_seat
                  (racer_of ''expiring-buyer@example.com'' (le_first env) (le_first_delivered env)) (le_backdate env) (le_backdate_now env)
                  (map (\<lambda>i. racer_of (racer_buyer i) (le_racer env i) (le_racer_delivered env i)) (le_order env))
                  (le_confirm_service env) (le_confirm env) st2 of
             None \<Rightarrow> None
           | Some (ress, _, st3) \<Rightarrow>
               (case OversoldSeats (le_oversold env) (fst st3) of
                  Inl err \<Rightarrow> None
                | Inr oversold_seats \<Rightarrow>
                    (case StuckHolds (le_stuck env) (le_stuck_now env) (fst st3) of
                       Inl err \<Rightarrow> None
                     | Inr stuck \<Rightarrow>
                         Some (\<lparr>lr_contention = pc, lr_won = won ress, lr_oversold = oversold_seats, lr_stuck = stuck,
                                lr_pass = report_pass oversold_seats (won ress)\<rparr>, st3)))))"


section \<open>What the seeding does\<close>

text \<open>Inventory is only added, nothing else is touched, and the invariant is kept: a contract of the two inserts.\<close>

definition adds_inventory :: "db \<Rightarrow> db \<Rightarrow> bool" where
  "adds_inventory d d' \<longleftrightarrow>
     (schema_inv d \<longrightarrow> schema_inv d') \<and> set (matches d) \<subseteq> set (matches d') \<and> set (seats d) \<subseteq> set (seats d')
     \<and> d' = d\<lparr>matches := matches d', seats := seats d'\<rparr>"

lemma schema_inv_more_inventory:
  assumes "schema_inv d" and "inventory_ok (d\<lparr>matches := ms, seats := ss\<rparr>)"
    and "set (matches d) \<subseteq> set ms" and "set (seats d) \<subseteq> set ss"
  shows "schema_inv (d\<lparr>matches := ms, seats := ss\<rparr>)"
proof -
  let ?key = "\<lambda>s. (se_match_id s, se_seat_id s)"
  have ok: "bookings_ok d (bookings d)" using assms(1) by (simp add: schema_inv_def)
  have "?key ` set (seats d) \<subseteq> ?key ` set ss" "ma_id ` set (matches d) \<subseteq> ma_id ` set ms"
    using assms(3,4) by blast+
  then have "seat_key b \<in> ?key ` set ss \<and> bk_match_id b \<in> ma_id ` set ms" if "b \<in> set (bookings d)" for b
    using ok that by (auto simp: bookings_ok_def list_all_iff)
  then have "bookings_ok (d\<lparr>matches := ms, seats := ss\<rparr>) (bookings d)"
    using ok by (simp add: bookings_ok_def list_all_iff)
  then show ?thesis using assms(1,2) by (simp add: schema_inv_def)
qed

lemma adds_inventoryI:
  assumes "schema_inv d \<Longrightarrow> inventory_ok (d\<lparr>matches := ms, seats := ss\<rparr>)"
    and "set (matches d) \<subseteq> set ms" and "set (seats d) \<subseteq> set ss"
  shows "adds_inventory d (d\<lparr>matches := ms, seats := ss\<rparr>)"
  using schema_inv_more_inventory [OF _ assms(1)] assms(2,3) by (simp add: adds_inventory_def)

interpretation inventory: db_contract adds_inventory
proof unfold_locales
  show "adds_inventory d (rollback d w)" if "adds_inventory d w" for d w
  proof -
    have "rollback d w = d" using that by (cases d; cases w) (auto simp: adds_inventory_def rollback_def)
    then show ?thesis by (simp add: adds_inventory_def)
  qed
  show "adds_inventory s u" if "adds_inventory s t" "adds_inventory t u" for s t u
    using that by (cases s; cases t; cases u) (auto simp: adds_inventory_def)
qed (simp add: adds_inventory_def)

lemma obeys_seeding: "obeys adds_inventory (sql_seed_match now m)" "obeys adds_inventory (sql_seed_seat m s)"
proof -
  let ?match = "\<lparr>ma_id = m, ma_name = ''Load Test Match'', ma_start_time = now + 7 * 24 * 3600 * 1000000\<rparr>"
    and ?seat = "\<lparr>se_match_id = m, se_seat_id = s, se_section = ''LOADTEST''\<rparr>"
  have "adds_inventory d (d\<lparr>matches := matches d @ [?match], seats := seats d\<rparr>)"
    if "m \<notin> set (map ma_id (matches d))" for d
    using that by (intro adds_inventoryI) (auto simp: schema_inv_def inventory_ok_def)
  then show "obeys adds_inventory (sql_seed_match now m)"
    using inventory.R_refl by (simp add: obeys_def sql_seed_match_def)
  have "adds_inventory d (d\<lparr>matches := matches d, seats := seats d @ [?seat]\<rparr>)"
    if "(m, s) \<notin> set (map (\<lambda>s. (se_match_id s, se_seat_id s)) (seats d))" for d
    using that by (intro adds_inventoryI) (auto simp: schema_inv_def inventory_ok_def)
  then show "obeys adds_inventory (sql_seed_seat m s)"
    using inventory.R_refl by (simp add: obeys_def sql_seed_seat_def)
qed

lemma obeys_seed_seats: "obeys adds_inventory (seed_seats flt m ids)"
  by (induction ids) (simp_all only: seed_seats.simps inventory.tx_intros obeys_seeding)

lemma obeys_seedLoadTestFixtures: "obeys adds_inventory (seedLoadTestFixtures f flt now m)"
  unfolding seedLoadTestFixtures_def by (intro inventory.tx_intros obeys_seeding obeys_seed_seats)

text \<open>After a seeding that was not cut short every seat exists, and a second seeding changes nothing.\<close>

lemma seat_exists_adds: "adds_inventory d d' \<Longrightarrow> seat_exists m s d \<Longrightarrow> seat_exists m s d'"
  by (auto simp: seat_exists_def adds_inventory_def)

lemma seed_seats_exist:
  assumes "seed_seats flt m ids d = (Inr x, d')" and "m \<in> set (map ma_id (matches d))" and "s \<in> set ids"
  shows "seat_exists m s d'"
  using assms
proof (induction ids arbitrary: d)
  case (Cons i ids)
  obtain d1 where one: "withFault (flt i) (sql_seed_seat m i) d = (Inr (), d1)" and rest: "seed_seats flt m ids d1 = (Inr x, d')"
    using Cons.prems(1) by (auto simp: bindA_Inr_iff)
  have m: "m \<in> set (map ma_id (matches d1))" and i: "seat_exists m i d1"
    using one Cons.prems(2) by (auto simp: withFault_Inr sql_seed_seat_def seat_exists_def)
  then show ?case
    using Cons.IH [OF rest m] Cons.prems(3) seat_exists_adds [OF obeys_eqD [OF obeys_seed_seats rest]] by auto
qed simp

lemma seeded_seats_exist:
  assumes "seedLoadTestFixtures f flt now m d = (Inr x, d')" and "s \<in> set fixture_seats"
  shows "seat_exists m s d'"
proof -
  obtain d1 where "withFault f (sql_seed_match now m) d = (Inr (), d1)" and rest: "seed_seats flt m fixture_seats d1 = (Inr x, d')"
    using assms(1) by (auto simp: seedLoadTestFixtures_def bindA_Inr_iff)
  then have "m \<in> set (map ma_id (matches d1))"
    by (auto simp: withFault_Inr sql_seed_match_def split: if_splits)
  then show ?thesis using seed_seats_exist [OF rest _ assms(2)] by blast
qed

lemma seed_seats_again:
  "(\<And>s. s \<in> set ids \<Longrightarrow> seat_exists m s d) \<Longrightarrow> seed_seats (\<lambda>_. NoFault) m ids d = (Inr (), d)"
proof (induction ids)
  case (Cons i ids)
  then have "sql_seed_seat m i d = (Inr (), d)" by (simp add: sql_seed_seat_def seat_exists_def)
  then show ?case using Cons by (simp add: bindA_def withFault_def)
qed simp

lemma seeding_idempotent:
  assumes "seedLoadTestFixtures f flt now m d = (Inr x, d')"
  shows "seedLoadTestFixtures NoFault (\<lambda>_. NoFault) now' m d' = (Inr (), d')"
proof -
  note ex = seeded_seats_exist [OF assms]
  have "m \<in> set (map ma_id (matches d'))" using ex [of expiry_seat] by (simp add: fixture_seats_def seat_exists_def)
  then show ?thesis
    using seed_seats_again [of fixture_seats m d'] ex
    by (simp add: seedLoadTestFixtures_def bindA_def withFault_def sql_seed_match_def)
qed


section \<open>The invariant along a run\<close>

lemma R_race:
  assumes "\<And>r n. r \<in> set rs \<Longrightarrow> env_obeys schema_step (ra_env r n)"
  shows "schema_step (fst st) (fst (snd (race svc m s rs st)))"
  using assms
proof (induction rs arbitrary: st)
  case Nil
  then show ?case by (simp add: schema.R_refl)
next
  case (Cons r rs)
  let ?st = "snd (service_PlaceHold svc (ra_service r) (ra_env r) m s (ra_buyer r) st)"
  have "schema_step (fst st) (fst ?st)"
    unfolding service_PlaceHold_def using Cons.prems by (intro hold_schema.R_service_placeHold) auto
  moreover have "schema_step (fst ?st) (fst (snd (race svc m s rs ?st)))" using Cons by simp
  ultimately show ?case using schema.R_trans by (auto simp: split_beta)
qed

lemma R_warmup:
  assumes "\<And>i n. env_obeys schema_step (snd (envs i) n)"
  shows "schema_step (fst st) (fst (warmup svc m envs st))"
proof -
  have "schema_step (fst st) (fst (forEachA (\<lambda>i st. snd (service_PlaceHold svc (fst (envs i)) (snd (envs i)) m
      (warmup_seat i) ''warmup'' st)) is st))" for "is"
  proof (induction "is" arbitrary: st)
    case (Cons i "is")
    have "schema_step (fst st) (fst (snd (service_PlaceHold svc (fst (envs i)) (snd (envs i)) m (warmup_seat i) ''warmup'' st)))"
      unfolding service_PlaceHold_def by (intro hold_schema.R_service_placeHold assms)
    then show ?case unfolding forEachA.simps by (rule schema.R_trans [OF _ Cons.IH])
  qed (simp add: schema.R_refl)
  then show ?thesis by (simp add: warmup_def)
qed

lemma R_expiry_scenario:
  assumes "runExpiryBoundaryScenario svc m s first f now rs sv cenvs st = Some (ress, rc, st')"
    and "\<And>r n. r \<in> set (first # rs) \<Longrightarrow> env_obeys schema_step (ra_env r n)"
  shows "schema_step (fst st) (fst st')"
proof -
  obtain res st1 where hold: "service_PlaceHold svc (ra_service first) (ra_env first) m s (ra_buyer first) st = (res, st1)"
    by (meson surj_pair)
  obtain x d2 where back_dated: "withFault f (sql_backdate now m s) (fst st1) = (x, d2)" by (meson surj_pair)
  obtain rr st3 where race: "race svc m s rs (d2, snd st1) = (rr, st3)" by (meson surj_pair)
  have "schema_step (fst st) (fst (snd (service_PlaceHold svc (ra_service first) (ra_env first) m s (ra_buyer first) st)))"
    unfolding service_PlaceHold_def using assms(2) by (intro hold_schema.R_service_placeHold) simp
  then have 1: "schema_step (fst st) (fst st1)" by (simp add: hold)
  have "obeys schema_step (withFault f (sql_backdate now m s))"
    unfolding sql_backdate_def by (intro schema.obeys_withFault obeys_update_bookings demotes_backdated)
  then have 2: "schema_step (fst st1) d2" using back_dated by (rule obeys_eqD)
  have 3: "schema_step d2 (fst st3)"
    using R_race [of rs "(d2, snd st1)" svc m s] assms(2) by (simp add: race)
  have "st' = st3 \<or> (\<exists>h. st' = snd (service_ConfirmHold svc sv cenvs h (ra_buyer first) st3))"
    using assms(1) by (cases x; cases res) (simp_all add: runExpiryBoundaryScenario_def hold back_dated race split_beta split: if_splits, blast)
  then have 4: "schema_step (fst st3) (fst st')"
    using schema.R_refl hold_schema.R_service_ConfirmHold by blast
  show ?thesis by (rule schema.R_trans [OF 1 schema.R_trans [OF 2 schema.R_trans [OF 3 4]]])
qed

text \<open>A seeding without faults succeeds, and a backdating without a fault always finds a consistent table.\<close>

lemma seed_seats_succeeds: "\<exists>d'. seed_seats (\<lambda>_. NoFault) m ids d = (Inr (), d')"
proof (induction ids arbitrary: d)
  case (Cons i ids)
  then show ?case by (simp add: bindA_def withFault_def sql_seed_seat_def)
qed simp

lemma seeding_succeeds: "\<exists>d'. seedLoadTestFixtures NoFault (\<lambda>_. NoFault) now m d = (Inr (), d')"
  using seed_seats_succeeds by (simp add: seedLoadTestFixtures_def bindA_def withFault_def sql_seed_match_def)

lemma expiry_scenario_runs:
  assumes "schema_inv (fst st)" and "\<And>n. env_obeys schema_step (ra_env first n)" and "ra_delivered first"
  shows "\<exists>ress rc st'. runExpiryBoundaryScenario svc m s first NoFault now rs sv cenvs st = Some (ress, rc, st')"
proof -
  obtain res st1 where hold: "service_PlaceHold svc (ra_service first) (ra_env first) m s (ra_buyer first) st = (res, st1)"
    by (meson surj_pair)
  have "schema_step (fst st) (fst (snd (service_PlaceHold svc (ra_service first) (ra_env first) m s (ra_buyer first) st)))"
    unfolding service_PlaceHold_def by (intro hold_schema.R_service_placeHold assms(2))
  then have "schema_inv (fst st1)" using assms(1) by (simp add: hold schema_step_def)
  then obtain d2 where d2: "withFault NoFault (sql_backdate now m s) (fst st1) = (Inr (), d2)"
    unfolding sql_backdate_def withFault_def by (auto simp: update_bookings_demotes [OF _ demotes_backdated])
  obtain rr st3 where "race svc m s rs (d2, snd st1) = (rr, st3)" by (meson surj_pair)
  then show ?thesis
    using d2 assms(3) by (cases res) (simp_all add: runExpiryBoundaryScenario_def hold withFault_def split: prod.split)
qed

end
