(* ===== verification/Lifecycle.thy ===== *)
theory Lifecycle
  imports Startup LoadMain
begin

text \<open>
  The processes from start to exit. The server of \<open>cmd/server/main.go\<close> as a state machine: it listens, a signal
  makes it shut down within ten seconds, requests that were accepted before go on meanwhile, and the janitor of the
  rate limiter, other processes and the clock move in between. Of \<open>net/http\<close> the model has what the program uses:
  \<open>ListenAndServe\<close> returns \<open>ErrServerClosed\<close> once \<open>Shutdown\<close> was called and another error otherwise, and
  \<open>Shutdown\<close> accepts nothing new and returns when no request is active or when its context ends. Then the load
  test of \<open>cmd/loadtest/main.go\<close> with its exit status.
\<close>

section \<open>The server process\<close>

datatype phase = Listening | ShuttingDown time | Exited nat

record 'l server_proc =
  sp_phase :: phase
  sp_now :: time
  sp_active :: "request list"
  sp_answered :: "(request \<times> wire) list"
  sp_state :: "'l limiters \<times> svc_state"
  sp_workers :: "nat \<Rightarrow> worker_pc"
  sp_pool_open :: bool

definition shutdownTimeout :: duration where
  "shutdownTimeout = 10 * second"

definition exited :: "phase \<Rightarrow> bool" where
  "exited ph \<longleftrightarrow> (case ph of Exited c \<Rightarrow> True | _ \<Rightarrow> False)"

definition sp_db :: "'l server_proc \<Rightarrow> db" where
  "sp_db p = fst (snd (sp_state p))"

text \<open>What the process is when \<open>main\<close> has built its handler, on the database it finds.\<close>

definition started :: "time \<Rightarrow> db \<Rightarrow> (nat \<Rightarrow> worker_pc) \<Rightarrow> 'l server_proc" where
  "started now d ws =
     \<lparr>sp_phase = Listening, sp_now = now, sp_active = [], sp_answered = [],
      sp_state = (newIPRateLimiter, d, newSeatCache), sp_workers = ws, sp_pool_open = True\<rparr>"

text \<open>
  A request takes effect when it is answered; what other sessions do while it runs is in what it meets. A request
  that is cut off by the exit may have made some of its store calls: those are steps of \<open>elsewhere\<close>.
\<close>

inductive proc_step ::
  "(request_env \<Rightarrow> request \<Rightarrow> 'l limiters \<times> svc_state \<Rightarrow> (wire \<times> bool) \<times> 'l limiters \<times> svc_state)
     \<Rightarrow> 'l server_proc \<Rightarrow> 'l server_proc \<Rightarrow> bool"
  for handler
where
  accept: "sp_phase p = Listening \<Longrightarrow> proc_step handler p (p\<lparr>sp_active := sp_active p @ [r]\<rparr>)"
| answer: "\<not> exited (sp_phase p) \<Longrightarrow> sp_active p = rs @ r # rs' \<Longrightarrow> request_env_obeys client_run env \<Longrightarrow>
    handler env r (sp_state p) = ((w, aborted), st') \<Longrightarrow>
    proc_step handler p (p\<lparr>sp_active := rs @ rs', sp_answered := (r, w) # sp_answered p, sp_state := st'\<rparr>)"
| janitor: "\<not> exited (sp_phase p) \<Longrightarrow>
    proc_step handler p (p\<lparr>sp_state := (cleanup (sp_now p) (fst (sp_state p)), snd (sp_state p))\<rparr>)"
| elsewhere: "sys_step (sp_db p, sp_workers p) (d', ws') \<Longrightarrow>
    proc_step handler p (p\<lparr>sp_state := (fst (sp_state p), d', snd (snd (sp_state p))), sp_workers := ws'\<rparr>)"
| clock: "sp_now p \<le> t \<Longrightarrow> proc_step handler p (p\<lparr>sp_now := t\<rparr>)"
| listen_error: "sp_phase p = Listening \<Longrightarrow> proc_step handler p (p\<lparr>sp_phase := Exited 1\<rparr>)"
| signalled: "sp_phase p = Listening \<Longrightarrow>
    proc_step handler p (p\<lparr>sp_phase := ShuttingDown (sp_now p + shutdownTimeout)\<rparr>)"
| drained: "sp_phase p = ShuttingDown deadline \<Longrightarrow> sp_active p = [] \<Longrightarrow>
    proc_step handler p (p\<lparr>sp_phase := Exited 0, sp_pool_open := False\<rparr>)"
| timed_out: "sp_phase p = ShuttingDown deadline \<Longrightarrow> deadline \<le> sp_now p \<Longrightarrow>
    proc_step handler p (p\<lparr>sp_phase := Exited 0, sp_pool_open := False\<rparr>)"

inductive_cases proc_stepE: "proc_step handler p p'"


section \<open>The process keeps the database safe\<close>

definition proc_reach :: "'l server_proc \<Rightarrow> bool" where
  "proc_reach p \<longleftrightarrow> reachable sys_start sys_step (sp_db p, sp_workers p)"

lemma request_runs:
  assumes "request_env_obeys client_run env"
  shows "client_run (fst (snd st)) (fst (snd (snd (NewServer srv enabled fresh Allow split_host env r st))))"
  using snd_limited [of enabled fresh Allow split_host "re_now env" "mux srv env" r st]
    runs.R_mux [OF assms, of "snd st" srv r] client_run_intros(1)
  unfolding NewServer_state by auto

lemma proc_reach_step:
  assumes "proc_step (NewServer srv enabled fresh Allow split_host) p p'" and "proc_reach p"
  shows "proc_reach p'"
  using assms(1)
proof (cases rule: proc_step.cases)
  case (answer rs r rs' env w aborted st')
  have "client_run (sp_db p) (fst (snd st'))"
    using request_runs [OF answer(4), of "sp_state p" srv enabled fresh Allow split_host r] by (simp add: answer(5) sp_db_def)
  then have "sys_step\<^sup>*\<^sup>* (sp_db p, sp_workers p) (fst (snd st'), sp_workers p)" by (rule client_run_sys)
  then show ?thesis using assms(2) reachable_run by (auto simp: proc_reach_def sp_db_def answer(1))
next
  case (elsewhere d' ws')
  then show ?thesis using assms(2) reachable_run [OF _ r_into_rtranclp] by (fastforce simp: proc_reach_def sp_db_def)
qed (use assms(2) in \<open>simp_all add: proc_reach_def sp_db_def\<close>)

interpretation proc: invariant proc_reach "proc_step (NewServer srv enabled fresh Allow split_host)" proc_reach
  by unfold_locales (simp, rule proc_reach_step)

lemma process_never_oversells:
  assumes "server_main parseDuration getenv px readFile hexDigest libs fresh Allow split_host = Running handler"
    and "reachable sys_start sys_step (d, ws)" and "(proc_step handler)\<^sup>*\<^sup>* (started now d ws) p"
  shows "reachable sys_start sys_step (sp_db p, sp_workers p) \<and> OversoldSeats NoFault (sp_db p) = Inr 0"
proof -
  obtain srv enabled where h: "handler = NewServer srv enabled fresh Allow split_host"
    using server_main_Running [OF assms(1)] by blast
  have "proc_reach (started now d ws)" using assms(2) by (simp add: proc_reach_def started_def sp_db_def)
  then have r: "proc_reach p" by (rule proc.run_I [OF assms(3) [unfolded h]])
  then have "schema_inv (sp_db p)" using sys.reachable_I [of "(sp_db p, sp_workers p)"]
    by (simp add: proc_reach_def sys_inv_def db_inv_def)
  then show ?thesis using r oversold_empty by (simp add: proc_reach_def OversoldSeats_def query_def)
qed


section \<open>The shutdown is graceful\<close>

text \<open>Requests are conserved: whatever was accepted is active or was answered, once.\<close>

definition taken :: "'l server_proc \<Rightarrow> request multiset" where
  "taken p = mset (sp_active p) + mset (map fst (sp_answered p))"

lemma shutdown_step:
  assumes "proc_step handler p p'" and "sp_phase p = ShuttingDown deadline"
  shows "taken p' = taken p \<and> (sp_phase p' = ShuttingDown deadline
     \<or> sp_phase p' = Exited 0 \<and> \<not> sp_pool_open p' \<and> (sp_active p' = [] \<or> deadline \<le> sp_now p'))"
  using assms by (cases rule: proc_step.cases) (auto simp: taken_def)

lemma exited_step:
  assumes "proc_step handler p p'" and "sp_phase p = Exited c"
  shows "taken p' = taken p \<and> sp_phase p' = Exited c \<and> sp_pool_open p' = sp_pool_open p \<and> sp_active p' = sp_active p
     \<and> sp_now p \<le> sp_now p'"
  using assms by (cases rule: proc_step.cases) (auto simp: taken_def exited_def)

definition shutting :: "time \<Rightarrow> request multiset \<Rightarrow> 'l server_proc \<Rightarrow> bool" where
  "shutting deadline accepted p \<longleftrightarrow> taken p = accepted \<and> (sp_phase p = ShuttingDown deadline
     \<or> sp_phase p = Exited 0 \<and> \<not> sp_pool_open p \<and> (sp_active p = [] \<or> deadline \<le> sp_now p))"

interpretation shutdown: invariant "shutting deadline accepted" "proc_step handler" "shutting deadline accepted"
proof unfold_locales
  fix p p' assume "shutting deadline accepted p" and s: "proc_step handler p p'"
  then consider "taken p = accepted" "sp_phase p = ShuttingDown deadline"
    | "taken p = accepted" "sp_phase p = Exited 0" "\<not> sp_pool_open p" "sp_active p = [] \<or> deadline \<le> sp_now p"
    by (auto simp: shutting_def)
  then show "shutting deadline accepted p'"
  proof cases
    case 1
    then show ?thesis using shutdown_step [OF s] by (auto simp: shutting_def)
  next
    case 2
    then show ?thesis using exited_step [OF s] by (auto simp: shutting_def)
  qed
qed

text \<open>
  After a signal nothing more is accepted; the process ends with status 0 and a closed pool, and unless the ten seconds
  had passed every request it had accepted was answered, once. It can always end: the deadline is enough.
\<close>

lemma shutdown_graceful:
  assumes "sp_phase p = ShuttingDown deadline" and "(proc_step handler)\<^sup>*\<^sup>* p p'" and "sp_phase p' = Exited c"
  shows "c = 0 \<and> \<not> sp_pool_open p'
     \<and> (mset (map fst (sp_answered p')) = mset (sp_active p) + mset (map fst (sp_answered p)) \<or> deadline \<le> sp_now p')"
proof -
  have "shutting deadline (taken p) p" using assms(1) by (simp add: shutting_def)
  then have "shutting deadline (taken p) p'" by (rule shutdown.run_I [OF assms(2)])
  then show ?thesis using assms(3) by (auto simp: shutting_def taken_def)
qed

lemma shutdown_ends:
  assumes "sp_phase p = ShuttingDown deadline"
  shows "\<exists>p'. (proc_step handler)\<^sup>*\<^sup>* p p' \<and> sp_phase p' = Exited 0"
proof -
  let ?p = "p\<lparr>sp_now := max deadline (sp_now p)\<rparr>"
  have "proc_step handler p ?p" by (rule proc_step.clock) simp
  moreover have "proc_step handler ?p (?p\<lparr>sp_phase := Exited 0, sp_pool_open := False\<rparr>)"
    using assms by (intro proc_step.timed_out [of _ deadline]) simp_all
  ultimately show ?thesis by (intro exI conjI) (rule converse_rtranclp_into_rtranclp, assumption, erule r_into_rtranclp, simp)
qed


section \<open>The load test process\<close>

text \<open>The exit status \<open>report\<close> ends with.\<close>

definition report_status :: "load_report \<Rightarrow> nat" where
  "report_status rep = (if lr_pass rep then 0 else 1)"

text \<open>The sum check of the report.\<close>

definition report_sums :: "load_report \<Rightarrow> bool" where
  "report_sums rep \<longleftrightarrow> attempts (lr_contention rep) = confirmed (lr_contention rep) + rejected (lr_contention rep)"

text \<open>\<open>nano\<close> is the clock the run's match is named after; \<open>svc\<close> serves at the address of the requests.\<close>

definition loadtest_process ::
  "(string \<Rightarrow> duration option) \<Rightarrow> environment \<Rightarrow> ('c, 'p) pgxpool \<Rightarrow> Service \<Rightarrow> nat \<Rightarrow> load_env \<Rightarrow> svc_state
     \<Rightarrow> nat \<times> (load_report \<times> svc_state) option"
where
  "loadtest_process parseDuration getenv px svc nano env st =
     (let matchID = ''loadtest-'' @ show_nat nano in
      case Load parseDuration getenv of
        Inl err \<Rightarrow> (1, None)
      | Inr cfg \<Rightarrow>
          (case fst (NewPool px cfg) of
             Inl err \<Rightarrow> (1, None)
           | Inr pool \<Rightarrow>
               (case loadtest_main svc matchID env st of
                  None \<Rightarrow> (1, None)
                | Some (rep, st') \<Rightarrow> (report_status rep, Some (rep, st')))))"

text \<open>The script that runs it can trust the status: 0 means a report without oversold seats and with one winner.\<close>

lemma loadtest_status:
  "fst (loadtest_process parseDuration getenv px svc nano env st) = 0 \<longleftrightarrow>
     (\<exists>rep st'. loadtest_process parseDuration getenv px svc nano env st = (0, Some (rep, st'))
        \<and> lr_oversold rep = 0 \<and> lr_won rep = 1)"
proof -
  have "lr_pass rep \<longleftrightarrow> lr_oversold rep = 0 \<and> lr_won rep = 1" if "loadtest_main svc m env st = Some (rep, st')" for m rep st'
    using that unfolding loadtest_main_def Let_def
    by (auto simp: report_pass_def split: sum.splits option.splits prod.splits)
  then show ?thesis
    by (auto simp: loadtest_process_def report_status_def Let_def split: sum.splits option.splits)
qed

end
