(* ===== verification/ServerProperties.thy ===== *)
theory ServerProperties
  imports ServiceProperties Lifecycle
begin

text \<open>
  The properties of the two processes as a whole: what any sequence of requests does to the database, what
  the worker's loop achieves, what the safe methods leave alone, and what reaches the client through compression, recovery and the
  conditional serving of assets.
\<close>

section \<open>Sequences of requests\<close>

text \<open>The requests a handler serves one after the other, each with what it meets.\<close>

definition serve_all ::
  "(request_env \<Rightarrow> request \<Rightarrow> 'l limiters \<times> svc_state \<Rightarrow> (wire \<times> bool) \<times> 'l limiters \<times> svc_state)
     \<Rightarrow> (request_env \<times> request) list \<Rightarrow> 'l limiters \<times> svc_state \<Rightarrow> 'l limiters \<times> svc_state"
where
  "serve_all handler = forEachA (\<lambda>(env, r) st. snd (handler env r st))"

lemma serve_all_runs:
  assumes "\<And>env r. (env, r) \<in> set reqs \<Longrightarrow> request_env_obeys client_run env"
  shows "client_run (fst (snd st)) (fst (snd (serve_all (NewServer srv enabled fresh Allow split_host) reqs st)))"
  using assms
proof (induction reqs arbitrary: st)
  case Nil
  then show ?case by (simp add: serve_all_def client_run_intros)
next
  case (Cons x reqs)
  let ?h = "NewServer srv enabled fresh Allow split_host"
  obtain env r where x: "x = (env, r)" by (cases x)
  have "client_run (fst (snd st)) (fst (snd (snd (?h env r st))))"
    by (rule request_runs, rule Cons.prems [of env r]) (simp add: x)
  moreover have "client_run (fst (snd (snd (?h env r st)))) (fst (snd (serve_all ?h reqs (snd (?h env r st)))))"
    by (rule Cons.IH, rule Cons.prems) auto
  ultimately show ?case using client_run_intros(2) by (fastforce simp: serve_all_def x)
qed

text \<open>C2: no sequence of requests breaks the system. Whatever the environment the server process was started
  in, whatever clients then send to it (any methods, paths, headers and bodies, any faults, retries and
  refusals of the limiter, with other sessions' requests committing in between), the database it leaves is
  again a reachable one: no seat is oversold, and a processed refund event always has a settled refund.\<close>

theorem server_keeps_seats_safe:
  assumes "server_main parseDuration getenv px readFile hexDigest libs fresh Allow split_host = Running handler"
    and "reachable sys_start sys_step (fst (snd st), ws)"
    and "\<And>env r. (env, r) \<in> set reqs \<Longrightarrow> request_env_obeys client_run env"
  shows "reachable sys_start sys_step (fst (snd (serve_all handler reqs st)), ws)
    \<and> OversoldSeats NoFault (fst (snd (serve_all handler reqs st))) = Inr 0"
proof -
  let ?d = "fst (snd (serve_all handler reqs st))"
  obtain srv enabled where h: "handler = NewServer srv enabled fresh Allow split_host"
    using server_main_Running [OF assms(1)] by blast
  have "sys_step\<^sup>*\<^sup>* (fst (snd st), ws) (?d, ws)"
    unfolding h by (rule client_run_sys [OF serve_all_runs [OF assms(3)]])
  then have r: "reachable sys_start sys_step (?d, ws)" using assms(2) unfolding reachable_def by (meson rtranclp_trans)
  have "schema_inv ?d" using sys.reachable_I [OF r] by (simp add: sys_inv_def db_inv_def)
  then show ?thesis using r oversold_empty by (simp add: OversoldSeats_def query_def)
qed

text \<open>A server over the examples, without a limiter, and what a request meets at an instant.\<close>

definition demo_asset :: staticAsset where
  "demo_asset = \<lparr>sa_contentType = ''text/html; charset=utf-8'', sa_cachePolicy = ''no-cache'',
                 sa_etag = weak_tag ''sha256-00'', sa_body = ''<p>'', sa_gzipBody = ''>p<''\<rparr>"

definition demo_server :: server where
  "demo_server = \<lparr>sr_service = demo_svc, sr_index = demo_asset, sr_appjs = demo_asset,
     sr_collation = plain_collation, sr_format_seconds = demo_format, sr_parseFloat = (\<lambda>_. None),
     sr_detect = (\<lambda>_. ''text/plain''), sr_gzip = rev, sr_encode = (\<lambda>_. ''{}'')\<rparr>"

definition demo_renv :: "time \<Rightarrow> request_env" where
  "demo_renv t = \<lparr>re_service = demo_sv, re_hold = (\<lambda>_. demo_env t), re_confirm = (\<lambda>_. (NoFault, t)),
     re_release = (NoFault, t), re_cancel = (\<lambda>_. demo_cancel t), re_cache = demo_cache_env t, re_read = NoFault,
     re_db_now = t, re_ping = None, re_now = t\<rparr>"

lemma demo_renv_obeys: "request_env_obeys client_run (demo_renv t)"
  by (simp add: request_env_obeys_def demo_renv_def env_obeys_def client_run_intros)

text \<open>A process in an empty environment, with a driver that opens a pool of the size it is told.\<close>

definition demo_px :: "(int, int) pgxpool" where
  "demo_px = \<lparr>px_ParseConfig = (\<lambda>url. if url = '''' then Inl ErrNotFound else Inr 4), px_setMaxConns = (\<lambda>n _. n),
     px_NewWithConfig = Inr, px_Ping = (\<lambda>_. None)\<rparr>"

definition demo_files :: "string \<Rightarrow> string option" where
  "demo_files name = (if name \<in> set [''index.html'', ''app.js''] then Some ''<p>'' else None)"

definition demo_handler ::
  "request_env \<Rightarrow> request \<Rightarrow> unit limiters \<times> svc_state \<Rightarrow> (wire \<times> bool) \<times> unit limiters \<times> svc_state"
where
  "demo_handler = NewServer
     (demo_server\<lparr>sr_service := NewService (\<lambda>s. s) demo_format 300000000000 2000000000 3,
        sr_index := the (indexAsset demo_files rev (\<lambda>_. ''00'')), sr_appjs := the (appJSAsset demo_files rev (\<lambda>_. ''00''))\<rparr>)
     False () (\<lambda>_ _. (True, ())) (\<lambda>_. None)"

lemma demo_process:
  "server_main (\<lambda>_. None) (\<lambda>_. '''') demo_px demo_files (\<lambda>_. ''00'') demo_server () (\<lambda>_ _. (True, ())) (\<lambda>_. None) =
     Running demo_handler"
  by (simp add: demo_handler_def server_main_def indexAsset_def appJSAsset_def mustStaticAsset_def demo_files_def
      demo_px_def Load_defaults Let_def NewPool_def demo_server_def demo_svc_def second_def)

theorem server_keeps_seats_safe_witness:
  "OversoldSeats NoFault (fst (snd (serve_all demo_handler [(demo_renv 400, demo_request ''A2'' ''erin'')]
      (\<lambda>_. None, (demo_returned, newSeatCache))))) = Inr 0
   \<and> map bk_status (bookings (fst (snd (serve_all demo_handler [(demo_renv 400, demo_request ''A2'' ''erin'')]
      (\<lambda>_. None, (demo_returned, newSeatCache)))))) = [Cancelled, Held]"
  (is "?safe \<and> ?grew")
proof
  have "reachable sys_start sys_step (fst (snd ((\<lambda>_. None) :: unit limiters, (demo_returned, newSeatCache))), all_idle)"
    using demo_run(4) by simp
  then show ?safe
    by (rule conjunct2 [OF server_keeps_seats_safe [OF demo_process]])
      (simp add: demo_renv_obeys)
  show ?grew by code_simp
qed

text \<open>C11: without faults the worker drains the outbox: with every configuration it starts with, when every
  waiting event can be claimed, each tick of its loop settles a batch (whatever happens to the sweeping and
  pruning of that tick), so as many ticks as there are waiting events always leave none.\<close>

theorem worker_drains_outbox:
  assumes "db_inv d" and "Load parseDuration getenv = Inr cfg" and "fst (NewPool px cfg) = Inr pool"
    and "\<forall>env \<in> set ticks. worker_fault_free env \<and> (\<forall>i. \<not> we_locked env WPoll i)"
    and "\<forall>env \<in> set ticks. \<forall>e \<in> set (pending_events d). claimable (we_db_now env WPoll) e"
  shows "\<exists>d'. worker_main parseDuration getenv px ticks d = Running d'
    \<and> length (pending_events d') = length (pending_events d) - length ticks * nat (OutboxBatchSize cfg)
    \<and> (length (pending_events d) \<le> length ticks \<longrightarrow> pending_events d' = [])"
proof -
  let ?n = "OutboxBatchSize cfg"
  let ?d' = "forEachA (\<lambda>w. tick w ?n) ticks d"
  have n: "0 < ?n" using Load_config_ok(1) [OF assms(2)] by (simp add: config_ok_def)
  have len: "length (pending_events ?d') = length (pending_events d) - length ticks * nat ?n"
    using n assms(4,5) by (intro ticks_drain [OF assms(1)]) auto
  have "1 \<le> nat ?n" using n by simp
  then have "length ticks \<le> length ticks * nat ?n" by (metis mult.right_neutral mult_le_mono2)
  then have "length (pending_events d) \<le> length ticks \<Longrightarrow> length (pending_events ?d') = 0"
    unfolding len by linarith
  then show ?thesis using worker_main_Running [OF assms(2,3)] len by auto
qed

theorem worker_drains_outbox_witness:
  "pending_events demo_db = [demo_event]
   \<and> (\<exists>d'. worker_main (\<lambda>_. None) (\<lambda>_. '''') demo_px [demo_worker 200] demo_db = Running d' \<and> pending_events d' = [])"
proof -
  have p: "pending_events demo_db = [demo_event]"
    by (simp add: pending_events_def demo_tables unprocessed_def) (simp add: demo_event_def)
  obtain cfg where cfg: "Load (\<lambda>_. None) (\<lambda>_. '''') = Inr cfg" "DatabaseURL cfg \<noteq> ''''"
    by (simp add: Load_defaults)
  then have "fst (NewPool demo_px cfg) = Inr (PoolMaxConns cfg)" by (simp add: NewPool_def demo_px_def)
  moreover have "worker_fault_free (demo_worker 200)" "\<forall>i. \<not> we_locked (demo_worker 200) WPoll i"
    "claimable (we_db_now (demo_worker 200) WPoll) demo_event"
    by (simp_all add: worker_fault_free_def demo_worker_def claimable_def demo_event_def)
  ultimately show ?thesis
    using worker_drains_outbox [OF demo_db_inv cfg(1), of demo_px "PoolMaxConns cfg" "[demo_worker 200]"] p by auto
qed

text \<open>GET and HEAD are safe methods: whatever they ask for, with or without the limiter, the database is
  left as it was.\<close>

lemma safe_methods_read_only:
  assumes "rq_method r = ''GET'' \<or> rq_method r = ''HEAD''"
  shows "fst (snd (snd (NewServer srv enabled fresh Allow split_host env r st))) = fst (snd st)"
  using snd_limited [of enabled fresh Allow split_host "re_now env" "mux srv env" r st] mux_reads [OF assms, where st = "snd st"]
  unfolding NewServer_state by auto


section \<open>What reaches the client\<close>

text \<open>C25: compression is transparent. Behind the middlewares a response keeps its status; it is compressed
  only for a client that accepts gzip and never for HEAD, for a status without a body or when the handler
  encoded it already; then the client decodes exactly the handler's text, the encoding is declared, the
  stale Content-Length is gone and Vary names Accept-Encoding. In every other case headers and body pass
  unchanged.\<close>

theorem compression_transparent:
  assumes "\<And>x. gunzip (gzip x) = x" and "handler r st = (resp, st')"
  shows "\<exists>w h. gzipMiddleware parseFloat detect gzip (recoverMiddleware encode (respond encode handler)) r st = ((w, False), st')
    \<and> w_sent w = Some (rs_status resp, h)
    \<and> (if acceptsGzip parseFloat (header_get ''Accept-Encoding'' (rq_header r))
          \<and> compressed (rq_method r) (rs_status resp) (rs_header resp)
       then gunzip (w_body w) = body_text encode (rs_body resp)
         \<and> h ''Content-Encoding'' = [''gzip''] \<and> h ''Content-Length'' = []
         \<and> list_ex (\<lambda>token. fold_equal token ''Accept-Encoding'') (vary_tokens h)
         \<and> (\<forall>k. k \<notin> {''Content-Encoding'', ''Content-Length'', ''Vary''} \<longrightarrow> h k = rs_header resp k)
       else w_body w = body_text encode (rs_body resp) \<and> h = rs_header resp)"
proof -
  have "list_ex (\<lambda>token. fold_equal token ''Accept-Encoding'') (vary_tokens (addVary ''Accept-Encoding'' h))" for h
    by (rule addVary_present) (simp_all add: trimSpace_id is_space_def)
  then have vary: "list_ex (\<lambda>token. fold_equal token ''Accept-Encoding'') (vary_tokens (compress_header h))" for h
    by (simp add: compress_header_def vary_tokens_def header_set_def header_del_def)
  have keys: "compress_header h ''Content-Encoding'' = [''gzip'']" "compress_header h ''Content-Length'' = []"
    "k \<notin> {''Content-Encoding'', ''Content-Length'', ''Vary''} \<Longrightarrow> compress_header h k = h k" for h k
    by (auto simp: compress_header_def header_set_def header_del_def addVary_def header_add_def)
  let ?c = "acceptsGzip parseFloat (header_get ''Accept-Encoding'' (rq_header r))
    \<and> compressed (rq_method r) (rs_status resp) (rs_header resp)"
  obtain w where "gzipMiddleware parseFloat detect gzip (recoverMiddleware encode (respond encode handler)) r st = ((w, False), st')"
    "w_sent w = Some (rs_status resp, if ?c then compress_header (rs_header resp) else rs_header resp)"
    "w_body w = (if ?c then gzip (body_text encode (rs_body resp)) else body_text encode (rs_body resp))"
    using served [where handler = handler, OF assms(2) refl] by blast
  then show ?thesis
    by (intro exI [of _ w] exI [of _ "if ?c then compress_header (rs_header resp) else rs_header resp"])
       (simp add: assms(1) vary keys)
qed

theorem compression_transparent_witness:
  "\<exists>w h. gzipMiddleware (\<lambda>_. None) (\<lambda>_. ''text/plain'') rev
       (recoverMiddleware (\<lambda>_. ''{}'') (respond (\<lambda>_. ''{}'') (\<lambda>r st. (handleHealthz None, st))))
       ((demo_request ''A1'' ''erin'')\<lparr>rq_method := ''GET'', rq_header := header_set ''Accept-Encoding'' ''gzip'' no_header\<rparr>)
       (0::nat) = ((w, False), 0)
     \<and> w_sent w = Some (200, h) \<and> rev (w_body w) = ''{}'' \<and> h ''Content-Encoding'' = [''gzip'']"
proof -
  let ?r = "(demo_request ''A1'' ''erin'')\<lparr>rq_method := ''GET'', rq_header := header_set ''Accept-Encoding'' ''gzip'' no_header\<rparr>"
  have "acceptsGzip (\<lambda>_. None) (header_get ''Accept-Encoding'' (rq_header ?r))"
    "compressed (rq_method ?r) (rs_status (handleHealthz None)) (rs_header (handleHealthz None))"
    "body_text (\<lambda>_. ''{}'') (rs_body (handleHealthz None)) = ''{}''" "rs_status (handleHealthz None) = 200"
    by code_simp+
  then show ?thesis
    using compression_transparent [of rev rev "\<lambda>r st. (handleHealthz None, st)" ?r "0::nat" "handleHealthz None" 0
        "\<lambda>_. None" "\<lambda>_. ''text/plain''" "\<lambda>_. ''{}''"]
    by fastforce
qed

text \<open>A handler that panics is answered: with status 500 when it had sent nothing, and with the status it had
  already sent otherwise. No panic leaves the server.\<close>

lemma panic_answered:
  assumes "nxt r st = ((ops, True), st')"
  shows "\<exists>w. gzipMiddleware parseFloat detect gzip (recoverMiddleware encode nxt) r st = ((w, False), st')
    \<and> map_option fst (w_sent w) = Some (case first_status ops of None \<Rightarrow> 500 | Some s \<Rightarrow> s)"
proof -
  let ?ops = "ops @ writeJSON_ops encode 500 (ErrorBody ''internal_error'')"
  have rec: "recoverMiddleware encode nxt r st = ((?ops, False), st')"
    using assms by (simp add: recoverMiddleware_def)
  have st: "first_status ?ops = Some (case first_status ops of None \<Rightarrow> 500 | Some s \<Rightarrow> s)"
    by (induction ops rule: first_status.induct) (simp_all add: writeJSON_ops_def)
  have close: "w_sent w \<noteq> None \<Longrightarrow> w_sent (gw_wire (gzip_close gzip v)) = w_sent (gw_wire v)" if "w = gw_wire v" for w v
    using that by (simp add: gzip_close_def)
  show ?thesis
    using net_writer.run_status [of fresh_wire ?ops] gzip_writer.run_status [of "fresh_gzip (rq_method r)" detect ?ops]
    by (auto simp: gzipMiddleware_def rec st close)
qed

text \<open>C26: a static asset arrives as it was embedded. A client whose tag matches gets 304 and no body; the tag
  of an earlier build matches exactly when the digests agree. Any other client gets 200 and the file, for
  a GET as bytes of the declared Content-Length: in gzip exactly when it accepts gzip, compressed once and
  never again by the middleware.\<close>

theorem static_asset_served:
  assumes "mustStaticAsset readFile gzipBest digest name contentType cachePolicy = Some asset"
    and "readFile name = Some content" and "\<And>x. gunzip (gzipBest x) = x" and "\<And>x. CHR '','' \<notin> set (digest x)"
  shows "\<exists>w h. gzipMiddleware parseFloat detect gzip
        (recoverMiddleware encode (respond encode (\<lambda>r st. (serveStaticAsset parseFloat r asset, st)))) r st = ((w, False), st)
    \<and> (if etagMatches (header_get ''If-None-Match'' (rq_header r)) (sa_etag asset)
       then w_sent w = Some (304, h) \<and> w_body w = ''''
       else w_sent w = Some (200, h)
         \<and> (rq_method r \<noteq> ''HEAD'' \<longrightarrow>
              h ''Content-Length'' = [show_nat (length (w_body w))]
              \<and> (if acceptsGzip parseFloat (header_get ''Accept-Encoding'' (rq_header r))
                 then h ''Content-Encoding'' = [''gzip''] \<and> gunzip (w_body w) = content
                 else h ''Content-Encoding'' = [] \<and> w_body w = content)))
    \<and> (\<forall>old. etagMatches (weak_tag (''sha256-'' @ digest old)) (sa_etag asset) \<longleftrightarrow> digest old = digest content)"
proof -
  let ?resp = "serveStaticAsset parseFloat r asset"
  have asset: "sa_body asset = content" "sa_gzipBody asset = gzipBest content"
    "sa_etag asset = weak_tag (''sha256-'' @ digest content)" "sa_contentType asset = contentType"
    using assms(1,2) by (auto simp: mustStaticAsset_def weak_tag_def)
  have not: "False \<longleftrightarrow> acceptsGzip parseFloat (header_get ''Accept-Encoding'' (rq_header r))
      \<and> compressed (rq_method r) (rs_status ?resp) (rs_header ?resp)"
    using serveStaticAsset_not_compressed by blast
  obtain w where w: "gzipMiddleware parseFloat detect gzip
      (recoverMiddleware encode (respond encode (\<lambda>r st. (serveStaticAsset parseFloat r asset, st)))) r st = ((w, False), st)"
    "w_sent w = Some (rs_status ?resp, rs_header ?resp)" "w_body w = body_text encode (rs_body ?resp)"
    using served [where handler = "\<lambda>r st. (serveStaticAsset parseFloat r asset, st)" and r = r
        and st = st and detect = detect and gzip = gzip and encode = encode, OF refl not]
    unfolding if_False by blast
  have tags: "etagMatches (weak_tag (''sha256-'' @ digest old)) (sa_etag asset) \<longleftrightarrow> digest old = digest content" for old
    unfolding asset using assms(4) by (subst etagMatches_weak) auto
  have "if etagMatches (header_get ''If-None-Match'' (rq_header r)) (sa_etag asset)
       then w_sent w = Some (304, rs_header ?resp) \<and> w_body w = ''''
       else w_sent w = Some (200, rs_header ?resp)
         \<and> (rq_method r \<noteq> ''HEAD'' \<longrightarrow>
              rs_header ?resp ''Content-Length'' = [show_nat (length (w_body w))]
              \<and> (if acceptsGzip parseFloat (header_get ''Accept-Encoding'' (rq_header r))
                 then rs_header ?resp ''Content-Encoding'' = [''gzip''] \<and> gunzip (w_body w) = content
                 else rs_header ?resp ''Content-Encoding'' = [] \<and> w_body w = content))"
    using serveStaticAsset_match [of r asset parseFloat] serveStaticAsset_send [of r asset _ parseFloat, OF _ refl]
    by (simp add: w(2,3) asset(1,2) assms(3) body_text_def)
  with w(1) tags show ?thesis by blast
qed

theorem static_asset_served_witness:
  "\<exists>asset w h. mustStaticAsset (\<lambda>_. Some ''<p>'') rev demo_letters ''index.html'' ''text/html; charset=utf-8'' ''no-cache'' = Some asset
     \<and> gzipMiddleware (\<lambda>_. None) (\<lambda>_. ''text/plain'') rev
        (recoverMiddleware (\<lambda>_. ''{}'') (respond (\<lambda>_. ''{}'') (\<lambda>r st. (serveStaticAsset (\<lambda>_. None) r asset, st))))
        ((demo_request ''A1'' ''erin'')\<lparr>rq_method := ''GET''\<rparr>) (0::nat) = ((w, False), 0)
     \<and> w_sent w = Some (200, h) \<and> w_body w = ''<p>'' \<and> h ''Content-Length'' = [''3'']"
proof -
  let ?r = "(demo_request ''A1'' ''erin'')\<lparr>rq_method := ''GET''\<rparr>"
  obtain asset where a: "mustStaticAsset (\<lambda>_. Some ''<p>'') rev demo_letters ''index.html'' ''text/html; charset=utf-8'' ''no-cache'' = Some asset"
    "sa_etag asset = weak_tag (''sha256-'' @ demo_letters ''<p>'')"
    by (simp add: mustStaticAsset_def weak_tag_def)
  have "\<not> etagMatches (header_get ''If-None-Match'' (rq_header ?r)) (weak_tag (''sha256-'' @ demo_letters ''<p>''))"
    "\<not> acceptsGzip (\<lambda>_. None) (header_get ''Accept-Encoding'' (rq_header ?r))" "show_nat (length ''<p>'') = ''3''"
    by code_simp+
  moreover have "rq_method ?r \<noteq> ''HEAD''" by simp
  ultimately show ?thesis
    using static_asset_served [where gunzip = rev and r = ?r and st = "0::nat" and parseFloat = "\<lambda>_. None" and
        detect = "\<lambda>_. ''text/plain''" and gzip = rev and encode = "\<lambda>_. ''{}''" and content = "''<p>''",
        OF a(1) refl rev_rev_ident demo_letters_no_comma] a
    by fastforce
qed


section \<open>The load test\<close>

lemma R_contention:
  assumes "schema_inv (fst st)" and "\<And>mv n. mv \<in> set moves \<Longrightarrow> steady (mv_hold mv n)"
    and "runContentionScenario svc m choice moves st = (st', pc)"
  shows "contention_inv m choice (st', pc)"
  using scenario_inv [OF assms(1,2), where m = m and choice = choice and svc = svc and moves = moves] assms(3) by simp

text \<open>C24: the load test cannot find an oversell. Whatever the interleaving of its goroutines, whatever calls
  fail, are retried or lose their answer, and whatever other sessions commit in between within the rules of
  the store (while a contender's call is under way they do not cancel sold seats, which the load test never asks for), a run that reaches its report counts no oversold seat; no more buyers were told they bought a
  contended seat than there are such seats; once all of them have finished the counters add up to the number
  of goroutines; and the verdict is exactly whether one racer was told it won the second scenario.\<close>

theorem loadtest_never_oversells:
  assumes "schema_inv (fst st)" and "loadtest_main svc m env st = Some (rep, st')"
    and "\<And>i n. env_obeys schema_step (snd (le_warmup env i) n)"
    and "\<And>mv n. mv \<in> set (le_moves env) \<Longrightarrow> steady (mv_hold mv n)" and "\<And>i. le_choice env i < contendedSeats"
    and "\<And>n. env_obeys schema_step (snd (le_first env) n)" and "\<And>i n. env_obeys schema_step (snd (le_racer env i) n)"
  shows "lr_oversold rep = 0 \<and> confirmed (lr_contention rep) \<le> contendedSeats
    \<and> (finished (lr_contention rep) \<longrightarrow> attempts (lr_contention rep) = concurrency
         \<and> attempts (lr_contention rep) = confirmed (lr_contention rep) + rejected (lr_contention rep))
    \<and> (lr_pass rep \<longleftrightarrow> lr_won rep = 1) \<and> schema_inv (fst st')"
proof -
  obtain x d where seed: "seedLoadTestFixtures (le_seed_match env) (le_seed_seat env) (le_seed_now env) m (fst st) = (x, d)"
    by (meson surj_pair)
  define st1 where "st1 = warmup svc m (le_warmup env) (d, snd st)"
  obtain st2 pc where A: "runContentionScenario svc m (le_choice env) (le_moves env) st1 = (st2, pc)" by (meson surj_pair)
  obtain ress rc oversold_seats stuck where
    B: "runExpiryBoundaryScenario svc m expiry_seat
        (racer_of ''expiring-buyer@example.com'' (le_first env) (le_first_delivered env)) (le_backdate env) (le_backdate_now env)
        (map (\<lambda>i. racer_of (racer_buyer i) (le_racer env i) (le_racer_delivered env i)) (le_order env))
        (le_confirm_service env) (le_confirm env) st2 = Some (ress, rc, st')"
    and O: "OversoldSeats (le_oversold env) (fst st') = Inr oversold_seats"
    and rep: "rep = \<lparr>lr_contention = pc, lr_won = won ress, lr_oversold = oversold_seats, lr_stuck = stuck,
                lr_pass = report_pass oversold_seats (won ress)\<rparr>"
    using assms(2) unfolding loadtest_main_def seed
    by (simp add: st1_def [symmetric] A split: sum.splits option.splits prod.splits) blast
  have "schema_inv d" using obeys_eqD [OF obeys_seedLoadTestFixtures seed] assms(1) by (simp add: adds_inventory_def)
  then have "schema_inv (fst st1)"
    using R_warmup [OF assms(3), of "(d, snd st)" svc m] by (simp add: st1_def schema_step_def)
  then have inv2: "contention_inv m (le_choice env) (st2, pc)" using A by (intro R_contention assms(4))
  then have "schema_inv (fst st2)" by (simp add: contention_inv_def)
  then have inv3: "schema_inv (fst st')"
    using R_expiry_scenario [OF B] assms(6,7) by (fastforce simp: racer_of_def schema_step_def)
  have "oversold_seats = 0"
    using O oversold_empty [OF inv3] by (simp add: OversoldSeats_def query_def split: fault.splits)
  moreover have "confirmed pc \<le> contendedSeats"
    using bought_bounded [OF inv2 assms(5), where k = concurrency] by (simp add: confirmed_def)
  ultimately show ?thesis using inv3 counters_add_up [of pc] by (auto simp: rep report_pass_def)
qed

text \<open>The report is reached whenever the calls the load test itself makes on the database work and the answer to the
  first hold arrives.\<close>

lemma loadtest_reports:
  assumes "schema_inv (fst st)"
    and "\<And>i n. env_obeys schema_step (snd (le_warmup env i) n)"
    and "\<And>mv n. mv \<in> set (le_moves env) \<Longrightarrow> steady (mv_hold mv n)"
    and "\<And>n. env_obeys schema_step (snd (le_first env) n)"
    and "le_seed_match env = NoFault" "le_seed_seat env = (\<lambda>_. NoFault)" "le_backdate env = NoFault"
      "le_oversold env = NoFault" "le_stuck env = NoFault" "le_first_delivered env"
  shows "\<exists>rep st'. loadtest_main svc m env st = Some (rep, st')"
proof -
  obtain d where seed: "seedLoadTestFixtures NoFault (\<lambda>_. NoFault) (le_seed_now env) m (fst st) = (Inr (), d)"
    using seeding_succeeds by blast
  define st1 where "st1 = warmup svc m (le_warmup env) (d, snd st)"
  obtain st2 pc where A: "runContentionScenario svc m (le_choice env) (le_moves env) st1 = (st2, pc)" by (meson surj_pair)
  have "schema_inv d" using obeys_eqD [OF obeys_seedLoadTestFixtures seed] assms(1) by (simp add: adds_inventory_def)
  then have "schema_inv (fst st1)"
    using R_warmup [OF assms(2), of "(d, snd st)" svc m] by (simp add: st1_def schema_step_def)
  then have "schema_inv (fst st2)" using R_contention [OF _ assms(3) A] by (simp add: contention_inv_def)
  then obtain ress rc st' where
    "runExpiryBoundaryScenario svc m expiry_seat
        (racer_of ''expiring-buyer@example.com'' (le_first env) (le_first_delivered env)) NoFault (le_backdate_now env)
        (map (\<lambda>i. racer_of (racer_buyer i) (le_racer env i) (le_racer_delivered env i)) (le_order env))
        (le_confirm_service env) (le_confirm env) st2 = Some (ress, rc, st')"
    using expiry_scenario_runs [of st2 "racer_of ''expiring-buyer@example.com'' (le_first env) (le_first_delivered env)"] assms(4,10)
    by (fastforce simp: racer_of_def)
  then show ?thesis
    using assms(5-10) seed A
    by (simp add: loadtest_main_def st1_def [symmetric] OversoldSeats_def StuckHolds_def query_def)
qed

text \<open>A small run on an empty database: three calls of two contenders, then two racers.\<close>

definition demo_move :: "nat \<Rightarrow> time \<Rightarrow> move" where
  "demo_move i t = \<lparr>mv_who = i, mv_service = demo_sv, mv_hold = (\<lambda>_. demo_env t), mv_confirm = (\<lambda>_. (NoFault, t)),
                    mv_delivered = True\<rparr>"

definition demo_load :: load_env where
  "demo_load = \<lparr>le_seed_match = NoFault, le_seed_seat = (\<lambda>_. NoFault), le_seed_now = 1,
     le_warmup = (\<lambda>i. (demo_sv, \<lambda>_. demo_env 2)), le_choice = (\<lambda>_. 0),
     le_moves = [demo_move 0 10, demo_move 1 11, demo_move 0 12],
     le_first = (demo_sv, \<lambda>_. demo_env 20), le_first_delivered = True, le_backdate = NoFault, le_backdate_now = 21,
     le_racer = (\<lambda>_. (demo_sv, \<lambda>_. demo_env 30)), le_racer_delivered = (\<lambda>i. i = 0), le_order = [1, 0],
     le_confirm_service = demo_sv, le_confirm = (\<lambda>_. (NoFault, 40)),
     le_oversold = NoFault, le_stuck = NoFault, le_stuck_now = 50\<rparr>"

lemma demo_load_ok:
  "env_obeys schema_step (snd (le_warmup demo_load i) n)"
  "mv \<in> set (le_moves demo_load) \<Longrightarrow> steady (mv_hold mv n)"
  "le_choice demo_load i < contendedSeats"
  "env_obeys schema_step (snd (le_first demo_load) n)"
  "env_obeys schema_step (snd (le_racer demo_load i) n)"
  by (auto simp: demo_load_def demo_move_def contendedSeats_def steady_def env_obeys_def
      schema.R_refl life.R_refl sold.R_refl)

theorem loadtest_never_oversells_witness:
  "\<exists>rep st'. loadtest_main demo_svc ''L1'' demo_load (empty_db, newSeatCache) = Some (rep, st')
     \<and> lr_oversold rep = 0 \<and> confirmed (lr_contention rep) \<le> contendedSeats"
proof -
  have inv: "schema_inv (fst (empty_db, newSeatCache))" by code_simp
  obtain rep st' where run: "loadtest_main demo_svc ''L1'' demo_load (empty_db, newSeatCache) = Some (rep, st')"
    using loadtest_reports [where env = demo_load and svc = demo_svc and m = "''L1''", OF inv demo_load_ok(1,2,4)]
    by (auto simp: demo_load_def)
  from loadtest_never_oversells [OF inv run demo_load_ok] show ?thesis using run by blast
qed

end
