(* ===== verification/CacheSystem.thy ===== *)
theory CacheSystem
  imports Service
begin

text \<open>
  The seat-map cache under concurrency: any number of callers of \<open>load\<close> (\<open>internal/booking/seatcache.go\<close>),
  the flights they share, invalidations by writers and commits by anyone, interleaved freely. Of
  \<open>singleflight\<close> the model uses what its documentation promises: one flight per key at a time, and every
  caller that joined it gets its result. A flight is cut where the code lets others in: before the second
  look at the cache, before the query, between the snapshot of the query and the \<open>put\<close>.
\<close>

section \<open>The system\<close>

datatype flight_pc = Rechecking | Querying | Loaded time "Seat list"

record cache_sys =
  ks_now :: time
  ks_db :: db
  ks_items :: cache_items
  ks_flight :: "string \<rightharpoonup> flight_pc"

datatype cache_event = Quiet | Answer string seatCacheEntry | Read string | Failed string | Invalidated string

text \<open>
  \<open>libs\<close> are the digest and the text of a time of a version, \<open>coll\<close> the collation, \<open>dbclock\<close> the database clock
  at an instant of the process clock, and \<open>lag\<close> bounds the time from the snapshot of a query to the \<open>put\<close> of its
  result. An answer is dated by the moment the cache is hit or the flight returns.
\<close>

inductive cache_step ::
  "(string \<Rightarrow> string) \<times> (time \<Rightarrow> string) \<Rightarrow> collation \<Rightarrow> (time \<Rightarrow> time) \<Rightarrow> duration \<Rightarrow> cache_sys \<Rightarrow> cache_event \<Rightarrow> cache_sys \<Rightarrow> bool"
  for libs coll dbclock lag
where
  clock: "ks_now s \<le> t \<Longrightarrow> cache_step libs coll dbclock lag s Quiet (s\<lparr>ks_now := t\<rparr>)"
| commit: "cache_step libs coll dbclock lag s Quiet (s\<lparr>ks_db := d\<rparr>)"
| drop_entry: "cache_step libs coll dbclock lag s (Invalidated m) (s\<lparr>ks_items := invalidate m (ks_items s)\<rparr>)"
| hit: "cache_get (ks_now s) m (ks_items s) = Some e \<Longrightarrow> cache_step libs coll dbclock lag s (Answer m e) s"
| launch: "ks_flight s m = None \<Longrightarrow>
    cache_step libs coll dbclock lag s Quiet (s\<lparr>ks_flight := (ks_flight s)(m \<mapsto> Rechecking)\<rparr>)"
| recheck_hit: "ks_flight s m = Some Rechecking \<Longrightarrow> cache_get (ks_now s) m (ks_items s) = Some e \<Longrightarrow>
    cache_step libs coll dbclock lag s (Answer m e) (s\<lparr>ks_flight := (ks_flight s)(m := None)\<rparr>)"
| recheck_miss: "ks_flight s m = Some Rechecking \<Longrightarrow> cache_get (ks_now s) m (ks_items s) = None \<Longrightarrow>
    cache_step libs coll dbclock lag s Quiet (s\<lparr>ks_flight := (ks_flight s)(m \<mapsto> Querying)\<rparr>)"
| read: "ks_flight s m = Some Querying \<Longrightarrow> load_seats NoFault coll (dbclock (ks_now s)) m (ks_db s) = Inr ss \<Longrightarrow>
    cache_step libs coll dbclock lag s (Read m) (s\<lparr>ks_flight := (ks_flight s)(m \<mapsto> Loaded (ks_now s) ss)\<rparr>)"
| fail: "ks_flight s m = Some Querying \<Longrightarrow>
    cache_step libs coll dbclock lag s (Failed m) (s\<lparr>ks_flight := (ks_flight s)(m := None)\<rparr>)"
| reply_lost: "ks_flight s m = Some (Loaded r ss) \<Longrightarrow>
    cache_step libs coll dbclock lag s (Failed m) (s\<lparr>ks_flight := (ks_flight s)(m := None)\<rparr>)"
| put: "ks_flight s m = Some (Loaded r ss) \<Longrightarrow> ks_now s \<le> r + lag \<Longrightarrow>
    e = cache_entry (fst libs) (snd libs) seatCacheTTL (ks_now s) m ss \<Longrightarrow>
    cache_step libs coll dbclock lag s (Answer m e)
      (s\<lparr>ks_items := cache_put m e (ks_items s), ks_flight := (ks_flight s)(m := None)\<rparr>)"

text \<open>A run from a state, the last state first, with the events between the states.\<close>

inductive cache_run ::
  "(string \<Rightarrow> string) \<times> (time \<Rightarrow> string) \<Rightarrow> collation \<Rightarrow> (time \<Rightarrow> time) \<Rightarrow> duration \<Rightarrow> cache_sys \<Rightarrow> cache_sys list \<Rightarrow> cache_event list \<Rightarrow> bool"
  for libs coll dbclock lag s0
where
  run_start: "cache_run libs coll dbclock lag s0 [s0] []"
| run_step: "cache_run libs coll dbclock lag s0 (s # ss) evs \<Longrightarrow> cache_step libs coll dbclock lag s ev s' \<Longrightarrow>
    cache_run libs coll dbclock lag s0 (s' # s # ss) (ev # evs)"


section \<open>Bounded staleness\<close>

text \<open>The seats are what the query returned in one of the states, at most a bound before the given instant.\<close>

definition seen ::
  "collation \<Rightarrow> (time \<Rightarrow> time) \<Rightarrow> cache_sys list \<Rightarrow> string \<Rightarrow> time \<Rightarrow> duration \<Rightarrow> Seat list \<Rightarrow> bool"
where
  "seen coll dbclock states m t bound sl \<longleftrightarrow>
     (\<exists>q \<in> set states. load_seats NoFault coll (dbclock (ks_now q)) m (ks_db q) = Inr sl
        \<and> ks_now q \<le> t \<and> t \<le> ks_now q + bound)"

lemma seen_more: "seen coll dbclock states m t b sl \<Longrightarrow> seen coll dbclock (s # states) m t b sl"
  by (auto simp: seen_def)

text \<open>
  What is known about a match: the flight's snapshot was taken in the run, and a cache entry was put within the lag
  of such a snapshot, not in the future.
\<close>

definition match_ok ::
  "(string \<Rightarrow> string) \<times> (time \<Rightarrow> string) \<Rightarrow> collation \<Rightarrow> (time \<Rightarrow> time) \<Rightarrow> duration \<Rightarrow> string \<Rightarrow> cache_sys list \<Rightarrow> bool"
where
  "match_ok libs coll dbclock lag m states \<longleftrightarrow>
     (let s = hd states in
      (\<forall>r ss. ks_flight s m = Some (Loaded r ss) \<longrightarrow> r \<le> ks_now s \<and> seen coll dbclock states m r 0 ss)
      \<and> (\<forall>e. ks_items s m = Some e \<longrightarrow>
           sce_version e = seatSnapshotVersion (fst libs) (snd libs) m (sce_seats e)
           \<and> sce_expiresAt e - seatCacheTTL \<le> ks_now s
           \<and> seen coll dbclock states m (sce_expiresAt e - seatCacheTTL) lag (sce_seats e)))"

text \<open>Nothing of the past is left for a match: at start-up, and once it was invalidated with no loaded flight.\<close>

definition forgotten :: "string \<Rightarrow> cache_sys \<Rightarrow> bool" where
  "forgotten m s \<longleftrightarrow> ks_items s m = None \<and> (\<forall>r ss. ks_flight s m \<noteq> Some (Loaded r ss))"

lemma seen_within: "seen coll dbclock states m r 0 ss \<Longrightarrow> r \<le> t \<Longrightarrow> t \<le> r + lag \<Longrightarrow> seen coll dbclock states m t lag ss"
  by (auto simp: seen_def)

lemma seen_later:
  "seen coll dbclock states m r b sl \<Longrightarrow> r \<le> t \<Longrightarrow> t + b \<le> r + b' \<Longrightarrow> seen coll dbclock states m t b' sl"
  by (force simp: seen_def)

lemma match_okI:
  assumes "\<And>r sl. ks_flight s m = Some (Loaded r sl) \<Longrightarrow> r \<le> ks_now s \<and> seen coll dbclock (s # ss) m r 0 sl"
    and "\<And>e. ks_items s m = Some e \<Longrightarrow>
           sce_version e = seatSnapshotVersion (fst libs) (snd libs) m (sce_seats e)
           \<and> sce_expiresAt e - seatCacheTTL \<le> ks_now s
           \<and> seen coll dbclock (s # ss) m (sce_expiresAt e - seatCacheTTL) lag (sce_seats e)"
  shows "match_ok libs coll dbclock lag m (s # ss)"
  using assms by (simp add: match_ok_def)

lemma match_ok_flight:
  assumes "match_ok libs coll dbclock lag m (s # ss)" and "ks_flight s m = Some (Loaded r sl)"
  shows "r \<le> ks_now s" "seen coll dbclock (s # ss) m r 0 sl"
  using assms by (simp_all add: match_ok_def)

lemma match_ok_entry:
  assumes "match_ok libs coll dbclock lag m (s # ss)" and "ks_items s m = Some e"
  shows "sce_version e = seatSnapshotVersion (fst libs) (snd libs) m (sce_seats e)"
    "sce_expiresAt e - seatCacheTTL \<le> ks_now s"
    "seen coll dbclock (s # ss) m (sce_expiresAt e - seatCacheTTL) lag (sce_seats e)"
  using assms by (simp_all add: match_ok_def)

text \<open>Most steps leave the entry and the flight of a match as they are, or forget them.\<close>

lemma match_ok_keep:
  assumes ok: "match_ok libs coll dbclock lag m (s # ss)" and t: "ks_now s \<le> ks_now s'"
    and "ks_items s' m = ks_items s m \<or> ks_items s' m = None"
    and "\<And>r sl. ks_flight s' m = Some (Loaded r sl) \<Longrightarrow> ks_flight s m = Some (Loaded r sl)"
  shows "match_ok libs coll dbclock lag m (s' # s # ss)"
proof (rule match_okI)
  fix r sl assume "ks_flight s' m = Some (Loaded r sl)"
  note fl = match_ok_flight [OF ok assms(4) [OF this]]
  show "r \<le> ks_now s' \<and> seen coll dbclock (s' # s # ss) m r 0 sl"
    using fl(1) t seen_more [OF fl(2)] by simp
next
  fix e assume "ks_items s' m = Some e"
  then have "ks_items s m = Some e" using assms(3) by auto
  note en = match_ok_entry [OF ok this]
  show "sce_version e = seatSnapshotVersion (fst libs) (snd libs) m (sce_seats e)
      \<and> sce_expiresAt e - seatCacheTTL \<le> ks_now s'
      \<and> seen coll dbclock (s' # s # ss) m (sce_expiresAt e - seatCacheTTL) lag (sce_seats e)"
    using en(1,2) t seen_more [OF en(3)] by simp
qed

lemma match_ok_step:
  assumes "cache_step libs coll dbclock lag s ev s'" and ok: "match_ok libs coll dbclock lag m (s # ss)"
  shows "match_ok libs coll dbclock lag m (s' # s # ss)"
  using assms(1)
proof (cases rule: cache_step.cases)
  case (read m' sl)
  show ?thesis
  proof (cases "m' = m")
    case True
    have now: "seen coll dbclock (s' # s # ss) m (ks_now s) 0 sl" using True read by (auto simp: seen_def)
    show ?thesis
    proof (rule match_okI)
      fix e assume "ks_items s' m = Some e"
      then have "ks_items s m = Some e" by (simp add: read)
      note en = match_ok_entry [OF ok this]
      show "sce_version e = seatSnapshotVersion (fst libs) (snd libs) m (sce_seats e)
          \<and> sce_expiresAt e - seatCacheTTL \<le> ks_now s'
          \<and> seen coll dbclock (s' # s # ss) m (sce_expiresAt e - seatCacheTTL) lag (sce_seats e)"
        using en(1,2) seen_more [OF en(3)] by (simp add: read)
    qed (use True now in \<open>simp add: read\<close>)
  qed (rule match_ok_keep [OF ok]; simp add: read)
next
  case (put m' r sl e)
  show ?thesis
  proof (cases "m' = m")
    case True
    with put have "ks_flight s m = Some (Loaded r sl)" by simp
    note fl = match_ok_flight [OF ok this]
    have "seen coll dbclock (s' # s # ss) m (ks_now s) lag sl"
      using fl(1) put(4) by (intro seen_more seen_within [OF fl(2)])
    then show ?thesis using True put by (intro match_okI) (auto simp: cache_put_def cache_entry_def)
  qed (rule match_ok_keep [OF ok]; simp add: put cache_put_def)
qed (rule match_ok_keep [OF ok]; simp add: invalidate_def split: if_splits)+

lemma run_match_ok:
  assumes "cache_run libs coll dbclock lag s0 states evs" and "forgotten m s0"
  shows "states \<noteq> [] \<and> match_ok libs coll dbclock lag m states"
  using assms(1)
proof induction
  case run_start
  then show ?case using assms(2) by (simp add: match_ok_def forgotten_def)
next
  case (run_step s ss evs ev s')
  then show ?case using match_ok_step by blast
qed

lemma answer_seen:
  assumes "cache_step libs coll dbclock lag s (Answer m e) s'" and "match_ok libs coll dbclock lag m (s # ss)"
  shows "seen coll dbclock (s # ss) m (ks_now s) (lag + seatCacheTTL) (sce_seats e)
     \<and> sce_version e = seatSnapshotVersion (fst libs) (snd libs) m (sce_seats e)"
proof -
  have get: ?thesis if "cache_get (ks_now s) m (ks_items s) = Some e"
  proof -
    have e: "ks_items s m = Some e" and t: "ks_now s \<le> sce_expiresAt e"
      using that by (auto simp: cache_get_def split: option.splits if_splits)
    note en = match_ok_entry [OF assms(2) e]
    have "seen coll dbclock (s # ss) m (ks_now s) (lag + seatCacheTTL) (sce_seats e)"
      using t by (intro seen_later [OF en(3) en(2)]) simp
    then show ?thesis using en(1) by simp
  qed
  from assms(1) show ?thesis
  proof (cases rule: cache_step.cases)
    case (put r sl)
    note fl = match_ok_flight [OF assms(2) put(2)]
    have "seen coll dbclock (s # ss) m (ks_now s) (lag + seatCacheTTL) sl"
      using put(3) by (intro seen_later [OF fl(2) fl(1)]) (simp add: seatCacheTTL_def)
    then show ?thesis using put by (simp add: cache_entry_def)
  qed (use get in auto)
qed


section \<open>One query per TTL\<close>

text \<open>The instants at which the query of a match ran, the last first.\<close>

fun reads :: "string \<Rightarrow> cache_sys list \<Rightarrow> cache_event list \<Rightarrow> time list" where
  "reads m (s # states) (ev # evs) = (if ev = Read m then [ks_now s] else []) @ reads m states evs"
| "reads m states evs = []"

text \<open>
  Where a match is after its last query: the result is on its way, or it is in the cache, or a later flight saw
  it expired.
\<close>

definition after_read :: "string \<Rightarrow> time \<Rightarrow> cache_sys \<Rightarrow> bool" where
  "after_read m r s \<longleftrightarrow> r \<le> ks_now s \<and>
     ((\<exists>sl. ks_flight s m = Some (Loaded r sl))
      \<or> (\<exists>e. ks_items s m = Some e \<and> r + seatCacheTTL \<le> sce_expiresAt e)
          \<and> (ks_flight s m = None \<or> ks_flight s m = Some Rechecking)
      \<or> ks_flight s m = Some Querying \<and> r + seatCacheTTL < ks_now s)"

lemma after_read_step:
  assumes "cache_step libs coll dbclock lag s ev s'" and "after_read m r s"
    and "ev \<noteq> Invalidated m" "ev \<noteq> Failed m" "ev \<noteq> Read m"
  shows "after_read m r s'"
  using assms(1)
proof (cases rule: cache_step.cases)
  case (put m' r' sl e)
  then show ?thesis
    using assms(2) by (cases "m' = m") (auto simp: after_read_def cache_put_def cache_entry_def)
next
  case (recheck_miss m')
  then show ?thesis
    using assms(2) by (cases "m' = m") (auto simp: after_read_def cache_get_def split: if_splits)
qed (use assms(2-5) in \<open>auto simp: after_read_def invalidate_def\<close>)

lemma read_spaced:
  assumes "cache_step libs coll dbclock lag s (Read m) s'" and "after_read m r s"
  shows "r + seatCacheTTL < ks_now s"
  using assms(1)
proof (cases rule: cache_step.cases)
  case (read sl)
  then show ?thesis using assms(2) by (auto simp: after_read_def)
qed

lemma read_time:
  assumes "cache_step libs coll dbclock lag s (Read m) s'"
  shows "ks_now s' = ks_now s" "after_read m (ks_now s) s'"
  using assms by (cases rule: cache_step.cases; simp add: after_read_def)+

lemma run_reads:
  assumes "cache_run libs coll dbclock lag s0 states evs" and "Invalidated m \<notin> set evs" and "Failed m \<notin> set evs"
  shows "sorted_wrt (\<lambda>r2 r1. r1 + seatCacheTTL < r2) (reads m states evs)
     \<and> (\<forall>r rs. reads m states evs = r # rs \<longrightarrow> after_read m r (hd states))"
  using assms
proof induction
  case (run_step s ss evs ev s')
  then have ih: "sorted_wrt (\<lambda>r2 r1. r1 + seatCacheTTL < r2) (reads m (s # ss) evs)"
      "\<And>r rs. reads m (s # ss) evs = r # rs \<Longrightarrow> after_read m r s"
    by auto
  show ?case
  proof (cases "ev = Read m")
    case True
    note rd = run_step.hyps(2) [unfolded True]
    have "r + seatCacheTTL < ks_now s" if r: "r \<in> set (reads m (s # ss) evs)" for r
    proof -
      obtain r' rs where eq: "reads m (s # ss) evs = r' # rs" using r by (cases "reads m (s # ss) evs") auto
      then have "r \<le> r'" using ih(1) r by (auto simp: seatCacheTTL_def)
      then show ?thesis using read_spaced [OF rd ih(2) [OF eq]] by simp
    qed
    then show ?thesis using True ih(1) read_time [OF rd] by simp
  next
    case False
    then have "after_read m r s'" if "reads m (s # ss) evs = r # rs" for r rs
      using run_step.prems by (intro after_read_step [OF run_step.hyps(2) ih(2) [OF that]]) auto
    then show ?thesis using False ih(1) by simp
  qed
qed simp


section \<open>The sequential code runs these steps\<close>

lemma cache_get_later: "cache_get t m c = None \<Longrightarrow> t \<le> t' \<Longrightarrow> cache_get t' m c = None"
  by (auto simp: cache_get_def split: option.splits if_splits)

text \<open>
  A call of \<open>load\<close> that flies alone is a run of the system: it ends in a state from which the system gives the
  answer the call returns, with the cache the call leaves. \<open>tq\<close> is the instant of the query's snapshot.
\<close>

lemma load_runs:
  assumes call: "load dg fm seatCacheTTL env m (load_seats NoFault coll (dbclock tq) m (ks_db s)) (ks_items s) = (Inr e, c')"
    and alone: "ks_flight s m = None" "ce_joined env = None" "ce_between env = (\<lambda>c. c)" "ce_ctx env = None"
    and clocks: "ks_now s = ce_get env" "ce_get env \<le> ce_recheck env" "ce_recheck env \<le> tq" "tq \<le> ce_put env" "ce_put env \<le> tq + lag"
  shows "\<exists>s1 states evs s2. cache_run (dg, fm) coll dbclock lag s (s1 # states) evs
     \<and> cache_step (dg, fm) coll dbclock lag s1 (Answer m e) s2 \<and> ks_items s2 = c' \<and> ks_flight s2 = ks_flight s"
proof (cases "cache_get (ce_get env) m (ks_items s)")
  case (Some e')
  then have e: "e' = e" "c' = ks_items s" using call by (auto simp: load_def)
  have "cache_step (dg, fm) coll dbclock lag s (Answer m e) s"
    using Some clocks(1) e(1) by (intro cache_step.hit) simp
  then show ?thesis using e(2) run_start by blast
next
  case None
  then have miss: "cache_get (ce_recheck env) m (ks_items s) = None" using clocks(2) by (rule cache_get_later)
  obtain sl where q: "load_seats NoFault coll (dbclock tq) m (ks_db s) = Inr sl"
    and e: "e = cache_entry dg fm seatCacheTTL (ce_put env) m sl" and c': "c' = cache_put m e (ks_items s)"
    using call load_miss [OF None alone(2,4)] miss alone(3) by (auto simp: Let_def split: sum.splits)
  define fl where "fl pc = (ks_flight s)(m \<mapsto> pc)" for pc
  let ?a = "s\<lparr>ks_flight := fl Rechecking\<rparr>"
  let ?b = "?a\<lparr>ks_now := ce_recheck env\<rparr>"
  let ?c = "?b\<lparr>ks_flight := fl Querying\<rparr>"
  let ?d = "?c\<lparr>ks_now := tq\<rparr>"
  let ?e = "?d\<lparr>ks_flight := fl (Loaded tq sl)\<rparr>"
  let ?f = "?e\<lparr>ks_now := ce_put env\<rparr>"
  let ?g = "?f\<lparr>ks_items := c', ks_flight := ks_flight s\<rparr>"
  let ?step = "cache_step (dg, fm) coll dbclock lag"
  have upd: "(fl pc)(m := x) = (ks_flight s)(m := x)" "fl pc m = Some pc" for pc x by (simp_all add: fl_def)
  have 1: "?step s Quiet ?a" using cache_step.launch [of s m] alone(1) by (simp add: fl_def)
  have 2: "?step ?a Quiet ?b" using cache_step.clock [of ?a "ce_recheck env"] clocks by simp
  have 3: "?step ?b Quiet ?c" using cache_step.recheck_miss [of ?b m] miss by (simp add: upd) (simp add: fl_def)
  have 4: "?step ?c Quiet ?d" using cache_step.clock [of ?c tq] clocks by simp
  have 5: "?step ?d (Read m) ?e" using cache_step.read [of ?d m coll dbclock sl] q by (simp add: upd) (simp add: fl_def)
  have 6: "?step ?e Quiet ?f" using cache_step.clock [of ?e "ce_put env"] clocks by simp
  have keep: "(ks_flight s)(m := None) = ks_flight s" using alone(1) by auto
  have 7: "?step ?f (Answer m e) ?g"
    using cache_step.put [of ?f m tq sl lag e "(dg, fm)"] clocks(5) e c' by (simp add: upd keep)
  have "cache_run (dg, fm) coll dbclock lag s [?f, ?e, ?d, ?c, ?b, ?a, s] [Quiet, Read m, Quiet, Quiet, Quiet, Quiet]"
    by (rule run_step [OF run_step [OF run_step [OF run_step [OF run_step [OF run_step [OF run_start 1] 2] 3] 4] 5] 6])
  moreover have "ks_items ?g = c' \<and> ks_flight ?g = ks_flight s" by simp
  ultimately show ?thesis using 7 by blast
qed

end
