(* ===== verification/Migrations.thy ===== *)
theory Migrations
  imports StoreSystem
begin

text \<open>
  The migrations as programs: a fresh installation (\<open>migrations/0001\<close> to \<open>0007\<close>, with the fixtures of \<open>0002\<close>),
  whose database is a start of the system, and \<open>migrations/0008\<close>, which brings a database in use under the index
  that allows a buyer one held seat per match.
\<close>

section \<open>A fresh installation\<close>

definition created_tables :: db where
  "created_tables = \<lparr>seats = [], matches = [], bookings = [], refunds = [], outbox_events = [], idempotency_keys = [],
     bookings_id_seq = 1, refunds_id_seq = 1, outbox_events_id_seq = 1\<rparr>"

text \<open>The name of the match holds an em dash, three bytes in UTF-8.\<close>

definition seed_match :: "time \<Rightarrow> matches_row" where
  "seed_match now =
     \<lparr>ma_id = ''m1'', ma_name = ''India vs Australia '' @ [CHR 0xE2, CHR 0x80, CHR 0x94] @ '' Final'',
      ma_start_time = now + 7 * 24 * 3600 * 1000000\<rparr>"

definition seed_seats_0002 :: "seats_row list" where
  "seed_seats_0002 =
     map (\<lambda>(section, row_num). \<lparr>se_match_id = ''m1'', se_seat_id = section @ ''-'' @ show_nat row_num, se_section = section\<rparr>)
       (List.product [''NORTH'', ''SOUTH'', ''EAST'', ''WEST''] [1..<101])"

definition migration_0002 :: "time \<Rightarrow> db \<Rightarrow> db" where
  "migration_0002 now d = d\<lparr>matches := matches d @ [seed_match now], seats := seats d @ seed_seats_0002\<rparr>"


section \<open>Migration 0008\<close>

definition logically_expired :: "time \<Rightarrow> bookings_row \<Rightarrow> bool" where
  "logically_expired now b \<longleftrightarrow>
     bk_status b = Held \<and> (case bk_hold_expires_at b of None \<Rightarrow> False | Some e \<Rightarrow> e \<le> now)"

text \<open>\<open>row_number() OVER (PARTITION BY match_id, buyer_id ORDER BY created_at DESC, id DESC)\<close> among the held rows.\<close>

definition newer :: "bookings_row \<Rightarrow> bookings_row \<Rightarrow> bool" where
  "newer x b \<longleftrightarrow> bk_created_at b < bk_created_at x \<or> bk_created_at b = bk_created_at x \<and> bk_id b < bk_id x"

definition hold_position :: "bookings_row list \<Rightarrow> bookings_row \<Rightarrow> nat" where
  "hold_position rows b = 1 + length (filter (\<lambda>x. is_held x \<and> buyer_key x = buyer_key b \<and> newer x b) rows)"

definition normalize_expired :: "time \<Rightarrow> bookings_row list \<Rightarrow> bookings_row list" where
  "normalize_expired now rows = update_where (logically_expired now) expire_row rows"

definition cancel_duplicates :: "time \<Rightarrow> bookings_row list \<Rightarrow> bookings_row list" where
  "cancel_duplicates now rows = update_where (\<lambda>b. is_held b \<and> 1 < hold_position rows b) (cancel_row now) rows"

text \<open>Each statement of the file has its own \<open>now()\<close>: \<open>psql -f\<close> commits them one by one.\<close>

definition migration_0008 :: "time \<Rightarrow> time \<Rightarrow> (db, go_error, unit) action" where
  "migration_0008 now later d =
     (let rows = cancel_duplicates later (normalize_expired now (bookings d)); d' = d\<lparr>bookings := rows\<rparr>
      in if distinct (map buyer_key (filter is_held rows)) then (Inr (), d')
         else (Inl (PgError uniqueViolationCode), d'))"


section \<open>The fresh database is a start of the system\<close>

lemma seed_seat_ids: "distinct (map (\<lambda>s. (se_match_id s, se_seat_id s)) seed_seats_0002)"
proof -
  let ?id = "\<lambda>x. (''m1'', fst x @ ''-'' @ show_nat (snd x))"
  have "inj_on ?id (set (List.product [''NORTH'', ''SOUTH'', ''EAST'', ''WEST''] [1..<101]))"
    by (rule inj_onI) auto
  moreover have "distinct (List.product [''NORTH'', ''SOUTH'', ''EAST'', ''WEST''] [1..<101])"
    by (intro distinct_product) simp_all
  ultimately have "distinct (map ?id (List.product [''NORTH'', ''SOUTH'', ''EAST'', ''WEST''] [1..<101]))"
    unfolding distinct_map by blast
  then show ?thesis by (simp only: seed_seats_0002_def map_map comp_def split_beta seats_row.simps)
qed

lemma fresh_installation_starts: "sys_start (migration_0002 now created_tables, \<lambda>_. Idle)"
  using seed_seat_ids
  by (simp add: sys_start_def empty_tables_def migration_0002_def created_tables_def inventory_ok_def)


section \<open>Migration 0008 establishes the invariant\<close>

text \<open>The invariant of the schema before it: all of it but the index the migration adds.\<close>

definition schema_0007 :: "db \<Rightarrow> bool" where
  "schema_0007 d \<longleftrightarrow>
     inventory_ok d
     \<and> list_all (\<lambda>b. is_held b \<longrightarrow> bk_hold_expires_at b \<noteq> None) (bookings d)
     \<and> distinct (map bk_id (bookings d))
     \<and> distinct (map seat_key (filter active (bookings d)))
     \<and> list_all (\<lambda>b. seat_key b \<in> set (map (\<lambda>s. (se_match_id s, se_seat_id s)) (seats d))
                    \<and> bk_match_id b \<in> set (map ma_id (matches d))) (bookings d)
     \<and> distinct (map rf_id (refunds d))
     \<and> distinct (map ob_id (outbox_events d))
     \<and> distinct (map ik_key (idempotency_keys d))
     \<and> list_all (\<lambda>r. rf_booking_id r \<in> set (map bk_id (bookings d))) (refunds d)
     \<and> list_all (\<lambda>e. ob_booking_id e \<in> set (map bk_id (bookings d))) (outbox_events d)
     \<and> list_all (\<lambda>k. ik_booking_id k \<in> set (map bk_id (bookings d))) (idempotency_keys d)
     \<and> in_sequence (bookings_id_seq d) (map bk_id (bookings d))
     \<and> in_sequence (refunds_id_seq d) (map rf_id (refunds d))
     \<and> in_sequence (outbox_events_id_seq d) (map ob_id (outbox_events d))"

lemma schema_inv_0007: "schema_inv d \<longleftrightarrow> schema_0007 d \<and> distinct (map buyer_key (filter is_held (bookings d)))"
  by (auto simp: schema_inv_def schema_0007_def bookings_ok_def)

lemma schema_0007_demotes:
  assumes "schema_0007 d" and "demotes P f"
  shows "schema_0007 (d\<lparr>bookings := update_where P f (bookings d)\<rparr>)"
proof -
  note dm = assms(2) [unfolded demotes_def, rule_format]
  have ids: "map bk_id (update_where P f (bookings d)) = map bk_id (bookings d)"
    by (rule map_update_where) (use dm in blast)
  have match: "bk_match_id (f r) = bk_match_id r" if "P r" for r
    using dm [OF that] by (simp add: seat_key_def)
  have "distinct (map seat_key (filter active (update_where P f (bookings d))))"
    by (rule distinct_index_update_where) (use assms(1) dm in \<open>auto simp: schema_0007_def\<close>)
  moreover have "bk_hold_expires_at (f r) \<noteq> None" if "r \<in> set (bookings d)" "P r" "is_held (f r)" for r
    using dm [OF that(2)] that assms(1) by (auto simp: schema_0007_def list_all_iff)
  ultimately show ?thesis
    using assms(1) dm match ids
    by (auto simp: schema_0007_def list_all_iff set_update_where inventory_ok_def simp del: list.set_map split: if_splits)
qed

text \<open>What the two updates come to: the newest live hold of a buyer in a match stays, older live ones are cancelled.\<close>

definition live_hold :: "time \<Rightarrow> bookings_row \<Rightarrow> bool" where
  "live_hold now b \<longleftrightarrow> is_held b \<and> \<not> logically_expired now b"

definition superseded :: "time \<Rightarrow> bookings_row list \<Rightarrow> bookings_row \<Rightarrow> bool" where
  "superseded now rows b \<longleftrightarrow> list_ex (\<lambda>x. live_hold now x \<and> buyer_key x = buyer_key b \<and> newer x b) rows"

definition migrated_row :: "time \<Rightarrow> time \<Rightarrow> bookings_row list \<Rightarrow> bookings_row \<Rightarrow> bookings_row" where
  "migrated_row now later rows b =
     (if logically_expired now b then expire_row b
      else if live_hold now b \<and> superseded now rows b then cancel_row later b
      else b)"

lemma normalized_held:
  "filter is_held (normalize_expired now rows) = filter (live_hold now) rows"
  by (induction rows) (auto simp: normalize_expired_def live_hold_def)

lemma hold_position_normalized:
  "1 < hold_position (normalize_expired now rows) b \<longleftrightarrow> superseded now rows b"
proof -
  have "filter (\<lambda>x. is_held x \<and> buyer_key x = buyer_key b \<and> newer x b) (normalize_expired now rows) =
      filter (\<lambda>x. buyer_key x = buyer_key b \<and> newer x b) (filter is_held (normalize_expired now rows))"
    by (simp add: conj_commute)
  then show ?thesis
    by (auto simp: hold_position_def superseded_def list_ex_iff normalized_held filter_empty_conv)
qed

lemma migrated_rows:
  "cancel_duplicates later (normalize_expired now rows) = map (migrated_row now later rows) rows"
proof -
  have "cancel_duplicates later (normalize_expired now rows) =
      update_where (\<lambda>b. is_held b \<and> superseded now rows b) (cancel_row later) (normalize_expired now rows)"
    unfolding cancel_duplicates_def hold_position_normalized ..
  moreover have "superseded now rows (expire_row b) = superseded now rows b" for b
    by (simp add: superseded_def newer_def expire_row_def buyer_key_def)
  ultimately show ?thesis
    by (auto simp: normalize_expired_def update_where_def migrated_row_def live_hold_def)
qed

lemma newer_total: "bk_id x \<noteq> bk_id y \<Longrightarrow> newer x y \<or> newer y x"
  by (auto simp: newer_def)

lemma newer_trans: "newer x y \<Longrightarrow> newer y z \<Longrightarrow> newer x z"
  by (auto simp: newer_def)

text \<open>One held row per buyer and match is left: of two live holds, one supersedes the other.\<close>

lemma migrated_distinct:
  assumes "distinct (map bk_id rows)"
  shows "distinct (map buyer_key (filter is_held (map (migrated_row now later rows) rows)))"
proof -
  have held: "filter is_held (map (migrated_row now later rows) rows) =
      filter (\<lambda>b. live_hold now b \<and> \<not> superseded now rows b) rows" (is "_ = filter ?keep rows")
  proof -
    have "is_held (migrated_row now later rows b) \<longleftrightarrow> ?keep b" "?keep b \<Longrightarrow> migrated_row now later rows b = b" for b
      by (auto simp: migrated_row_def live_hold_def logically_expired_def is_held_def cancel_row_def expire_row_def)
    then show ?thesis unfolding filter_map comp_def by (simp, intro map_idI) auto
  qed
  have "inj_on buyer_key (set (filter ?keep rows))"
  proof (rule inj_onI)
    fix x y assume xy: "x \<in> set (filter ?keep rows)" "y \<in> set (filter ?keep rows)" "buyer_key x = buyer_key y"
    then have "\<not> newer x y" "\<not> newer y x" by (auto simp: superseded_def list_ex_iff)
    then have "bk_id x = bk_id y" using newer_total by blast
    then show "x = y" using xy distinct_key_eq [OF assms] by auto
  qed
  moreover have "distinct (filter ?keep rows)" using assms by (simp add: distinct_map)
  ultimately show ?thesis unfolding held by (simp add: distinct_map)
qed

lemma migration_0008_outcome:
  assumes "schema_0007 d" and "refund_inv d"
  shows "migration_0008 now later d = (Inr (), d\<lparr>bookings := map (migrated_row now later (bookings d)) (bookings d)\<rparr>)"
    and "db_inv (d\<lparr>bookings := map (migrated_row now later (bookings d)) (bookings d)\<rparr>)"
proof -
  let ?rows = "map (migrated_row now later (bookings d)) (bookings d)"
  have ids: "distinct (map bk_id (bookings d))" using assms(1) by (simp add: schema_0007_def)
  note dist = migrated_distinct [OF ids]
  show "migration_0008 now later d = (Inr (), d\<lparr>bookings := ?rows\<rparr>)"
    using dist by (simp add: migration_0008_def Let_def migrated_rows)
  let ?d1 = "d\<lparr>bookings := normalize_expired now (bookings d)\<rparr>"
  let ?P = "\<lambda>b. is_held b \<and> 1 < hold_position (normalize_expired now (bookings d)) b"
  have eq: "d\<lparr>bookings := ?rows\<rparr> = ?d1\<lparr>bookings := update_where ?P (cancel_row later) (bookings ?d1)\<rparr>"
    by (simp add: migrated_rows [symmetric] cancel_duplicates_def)
  have "schema_0007 ?d1"
    unfolding normalize_expired_def by (rule schema_0007_demotes [OF assms(1)]) simp
  then have "schema_0007 (d\<lparr>bookings := ?rows\<rparr>)"
    unfolding eq by (rule schema_0007_demotes) simp
  moreover have "refund_inv ?d1"
    unfolding normalize_expired_def
    by (rule refund_inv_update_where [OF assms(2)]) (simp add: booking_wf_expire_held logically_expired_def)
  then have "refund_inv (d\<lparr>bookings := ?rows\<rparr>)"
    unfolding eq by (rule refund_inv_update_where) (simp add: booking_wf_cancel_held is_held_def)
  ultimately show "db_inv (d\<lparr>bookings := ?rows\<rparr>)"
    using dist by (simp add: db_inv_def schema_inv_0007)
qed

text \<open>A buyer who had live holds keeps exactly one, the newest.\<close>

lemma newest_exists:
  assumes "x \<in> set rows" and "Q x"
  shows "\<exists>y \<in> set rows. Q y \<and> (\<forall>z \<in> set rows. Q z \<longrightarrow> \<not> newer z y)"
  using assms
proof (induction rows arbitrary: x)
  case (Cons a rows)
  have irrefl: "\<not> newer b b" for b by (simp add: newer_def)
  show ?case
  proof (cases "\<exists>b \<in> set rows. Q b")
    case True
    then obtain y where y: "y \<in> set rows" "Q y" "\<forall>z \<in> set rows. Q z \<longrightarrow> \<not> newer z y" using Cons.IH by blast
    show ?thesis
    proof (cases "Q a \<and> newer a y")
      case True
      then show ?thesis using y(3) irrefl newer_trans by (intro bexI [of _ a]) auto
    next
      case False
      then show ?thesis using y by (intro bexI [of _ y]) auto
    qed
  next
    case False
    then show ?thesis using Cons.prems irrefl by (intro bexI [of _ a]) auto
  qed
qed simp

lemma newest_hold_kept:
  assumes "b \<in> set rows" and "live_hold now b"
  shows "\<exists>y \<in> set rows. buyer_key y = buyer_key b \<and> is_held y \<and> migrated_row now later rows y = y"
proof -
  obtain y where y: "y \<in> set rows" "live_hold now y" "buyer_key y = buyer_key b"
      "\<And>z. z \<in> set rows \<Longrightarrow> live_hold now z \<Longrightarrow> buyer_key z = buyer_key b \<Longrightarrow> \<not> newer z y"
    using newest_exists [of b rows "\<lambda>z. live_hold now z \<and> buyer_key z = buyer_key b"] assms by blast
  then have "\<not> superseded now rows y" by (auto simp: superseded_def list_ex_iff)
  then show ?thesis using y by (intro bexI [of _ y]) (auto simp: migrated_row_def live_hold_def)
qed

end
