(* ===== verification/Observability.thy ===== *)
theory Observability
  imports HttpApi
begin

text \<open>
  The structured log of \<open>internal/observability/log.go\<close>, and what the two handlers of
  \<open>internal/httpapi/holds.go\<close> that use it write. \<open>error_text\<close> is \<open>err.Error()\<close>; a line is a value here, its
  JSON on the standard output is left out.
\<close>

section \<open>LogTransition\<close>

datatype log_level = LevelInfo | LevelWarn

record log_line =
  ll_level :: log_level
  ll_message :: string
  ll_op :: string
  ll_match_id :: string
  ll_seat_id :: string
  ll_duration_ms :: int
  ll_error :: "string option"

definition LogTransition ::
  "(go_error \<Rightarrow> string) \<Rightarrow> time \<Rightarrow> string \<Rightarrow> string \<Rightarrow> string \<Rightarrow> time \<Rightarrow> go_error option \<Rightarrow> log_line"
where
  "LogTransition error_text now op matchID seatID start err =
     (let ms = go_div (now - start) 1000000 in
      case err of
        Some e \<Rightarrow> \<lparr>ll_level = LevelWarn, ll_message = ''booking_transition_failed'', ll_op = op, ll_match_id = matchID,
                   ll_seat_id = seatID, ll_duration_ms = ms, ll_error = Some (error_text e)\<rparr>
      | None \<Rightarrow> \<lparr>ll_level = LevelInfo, ll_message = ''booking_transition_ok'', ll_op = op, ll_match_id = matchID,
                 ll_seat_id = seatID, ll_duration_ms = ms, ll_error = None\<rparr>)"


section \<open>What the handlers log\<close>

text \<open>The lines of one request: none when it is answered before the service is called.\<close>

definition handleHold_log ::
  "(go_error \<Rightarrow> string) \<Rightarrow> time \<Rightarrow> time \<Rightarrow> Service \<Rightarrow> service_env \<Rightarrow> (int \<Rightarrow> hold_env) \<Rightarrow> request \<Rightarrow> svc_state \<Rightarrow> log_line list"
where
  "handleHold_log error_text start now svc sv envs r st =
     (let matchID = rq_path r ''matchId''; seatID = rq_path r ''seatId'' in
      case decodeJSON (rq_body r) of
        None \<Rightarrow> []
      | Some buyer \<Rightarrow>
          if \<not> validBuyerID buyer then []
          else let key = header_get ''Idempotency-Key'' (rq_header r) in
            if \<not> validIdempotencyKey key then []
            else (case fst (service_PlaceHoldWithKey svc sv envs matchID seatID buyer key st) of
                    Inl err \<Rightarrow> [LogTransition error_text now ''hold'' matchID seatID start (Some err)]
                  | Inr hold \<Rightarrow> [LogTransition error_text now ''hold'' matchID seatID start None]))"

text \<open>A failed confirmation returns the zero booking, so its line has neither match nor seat.\<close>

definition handleConfirm_log ::
  "(go_error \<Rightarrow> string) \<Rightarrow> time \<Rightarrow> time \<Rightarrow> Service \<Rightarrow> service_env \<Rightarrow> (int \<Rightarrow> fault \<times> time) \<Rightarrow> request \<Rightarrow> svc_state \<Rightarrow> log_line list"
where
  "handleConfirm_log error_text start now svc sv envs r st =
     (case parseIDAndBuyer r ''holdId'' of
        Inl resp \<Rightarrow> []
      | Inr (holdID, buyer) \<Rightarrow>
          (case fst (service_ConfirmHold svc sv envs holdID buyer st) of
             Inl err \<Rightarrow> [LogTransition error_text now ''confirm'' (bo_MatchID zero_booking) (bo_SeatID zero_booking) start (Some err)]
           | Inr b \<Rightarrow> [LogTransition error_text now ''confirm'' (bo_MatchID b) (bo_SeatID b) start None]))"


section \<open>The log tells the outcome\<close>

lemma writeError_fails: "400 \<le> rs_status (writeError err h)"
  by (simp add: writeError_def)

text \<open>
  A request that reached the service leaves exactly one line, a success exactly when the client is told of one;
  a request without a line was refused as malformed.
\<close>

lemma hold_log_tells_outcome:
  assumes "handleHold svc sv envs r st = (resp, st')" and "lines = handleHold_log error_text start now svc sv envs r st"
  shows "lines = [] \<and> rs_status resp = 400
     \<or> (\<exists>l. lines = [l] \<and> ll_match_id l = rq_path r ''matchId'' \<and> ll_seat_id l = rq_path r ''seatId''
           \<and> (ll_level l = LevelInfo \<longleftrightarrow> rs_status resp = 201) \<and> (ll_level l = LevelWarn \<longleftrightarrow> 400 \<le> rs_status resp))"
proof -
  have "rs_status (writeError err h) \<noteq> 201" for err h using writeError_fails [of err h] by auto
  then show ?thesis
    using assms writeError_fails
    by (auto simp: handleHold_def handleHold_log_def LogTransition_def Let_def
        split: option.splits if_splits sum.splits prod.splits)
qed

text \<open>The line of a failed confirmation names no seat.\<close>

lemma failed_confirm_logs_no_seat:
  assumes "l \<in> set (handleConfirm_log error_text start now svc sv envs r st)" and "ll_level l = LevelWarn"
  shows "ll_match_id l = '''' \<and> ll_seat_id l = ''''"
proof (cases "parseIDAndBuyer r ''holdId''")
  case (Inr p)
  then show ?thesis
    using assms by (cases p; cases "fst (service_ConfirmHold svc sv envs (fst p) (snd p) st)")
      (auto simp: handleConfirm_log_def LogTransition_def Let_def zero_booking_def)
qed (use assms in \<open>simp add: handleConfirm_log_def\<close>)

end
