(* ===== verification/SystemProperties.thy ===== *)
theory SystemProperties
  imports ServiceProperties CacheSystem Migrations Observability
begin

text \<open>
  The properties of the concurrent seat-map cache and of the migration that adds the index on held seats.
\<close>

section \<open>The cache under concurrency\<close>

text \<open>C31: the cache bounds staleness, however callers, flights, writers and invalidations interleave. From any
  moment at which nothing is remembered of a match (start-up, or an invalidation that meets no flight with its
  snapshot already taken), every answer for the match is the seat map the database had at some moment since
  then, at most one TTL and the delay of one load ago, and carries the version of that map.\<close>

theorem cache_answers_recent:
  assumes "cache_run libs coll dbclock lag s0 (s # ss) evs" and "forgotten m s0"
    and "cache_step libs coll dbclock lag s (Answer m e) s'"
  shows "(\<exists>q \<in> set (s # ss). load_seats NoFault coll (dbclock (ks_now q)) m (ks_db q) = Inr (sce_seats e)
       \<and> ks_now q \<le> ks_now s \<and> ks_now s \<le> ks_now q + (lag + seatCacheTTL))
     \<and> sce_version e = seatSnapshotVersion (fst libs) (snd libs) m (sce_seats e)"
  using answer_seen [OF assms(3)] run_match_ok [OF assms(1,2)] unfolding seen_def by blast

text \<open>A process that just started, and a writer's commit between two answers.\<close>

definition cold_cache :: "db \<Rightarrow> cache_sys" where
  "cold_cache d = \<lparr>ks_now = 0, ks_db = d, ks_items = newSeatCache, ks_flight = (\<lambda>_. None)\<rparr>"

lemma cold_cache_simps [simp]:
  "ks_now (cold_cache d) = 0" "ks_db (cold_cache d) = d" "ks_flight (cold_cache d) = (\<lambda>_. None)"
  "ks_items (cold_cache d) m = None" "forgotten m (cold_cache d)"
  by (simp_all add: cold_cache_def newSeatCache_def forgotten_def)

lemma demo_seats: "\<exists>sl. load_seats NoFault plain_collation 200 ''M1'' demo_db = Inr sl"
  by (auto simp: load_seats_def ListSeats_def query_def split: sum.splits)

lemma demo_load_answers:
  "\<exists>e c'. load (\<lambda>s. s) demo_format seatCacheTTL (demo_cache_env 0) ''M1''
     (load_seats NoFault plain_collation 200 ''M1'' demo_db) (ks_items (cold_cache demo_db)) = (Inr e, c')"
  using demo_seats by (auto simp: load_def flight_def cache_get_def demo_cache_env_def Let_def)

theorem cache_answers_recent_witness:
  "\<exists>s ss evs e s'. cache_run (\<lambda>s. s, demo_format) plain_collation (\<lambda>_. 200) 50 (cold_cache demo_db) (s # ss) evs
     \<and> cache_step (\<lambda>s. s, demo_format) plain_collation (\<lambda>_. 200) 50 s (Answer ''M1'' e) s'
     \<and> (\<exists>q \<in> set (s # ss). load_seats NoFault plain_collation 200 ''M1'' (ks_db q) = Inr (sce_seats e)
          \<and> ks_now s \<le> ks_now q + 1000000050)"
proof -
  obtain e c' where l: "load (\<lambda>s. s) demo_format seatCacheTTL (demo_cache_env 0) ''M1''
     (load_seats NoFault plain_collation 200 ''M1'' demo_db) (ks_items (cold_cache demo_db)) = (Inr e, c')"
    using demo_load_answers by blast
  obtain s ss evs s' where run: "cache_run (\<lambda>s. s, demo_format) plain_collation (\<lambda>_. 200) 50 (cold_cache demo_db) (s # ss) evs"
    and ans: "cache_step (\<lambda>s. s, demo_format) plain_collation (\<lambda>_. 200) 50 s (Answer ''M1'' e) s'"
    using load_runs [where s = "cold_cache demo_db" and dbclock = "\<lambda>_. 200" and tq = 0 and lag = 50 and env = "demo_cache_env 0"] l
    by (fastforce simp: demo_cache_env_def)
  then show ?thesis using cache_answers_recent [OF run _ ans] by (auto simp: seatCacheTTL_def)
qed

text \<open>C32: the database sees at most one query per match and TTL, however many clients poll: in a run in which the
  match is not invalidated and no load of it fails, any two of its queries are more than one TTL apart.\<close>

theorem one_query_per_ttl:
  assumes "cache_run libs coll dbclock lag s0 states evs" and "Invalidated m \<notin> set evs" and "Failed m \<notin> set evs"
  shows "sorted_wrt (\<lambda>later earlier. earlier + seatCacheTTL < later) (reads m states evs)"
  using run_reads [OF assms] by simp

text \<open>Two loads of one match, the second when the entry of the first has expired.\<close>

theorem one_query_per_ttl_witness:
  "\<exists>states evs. cache_run (\<lambda>s. s, demo_format) plain_collation (\<lambda>_. 200) 50 (cold_cache demo_db) states evs
     \<and> reads ''M1'' states evs = [1000000001, 0]
     \<and> sorted_wrt (\<lambda>later earlier. earlier + seatCacheTTL < later) (reads ''M1'' states evs)"
proof -
  let ?step = "cache_step (\<lambda>s. s, demo_format) plain_collation (\<lambda>_. 200) 50"
  let ?run = "cache_run (\<lambda>s. s, demo_format) plain_collation (\<lambda>_. 200) 50 (cold_cache demo_db)"
  obtain sl where sl: "load_seats NoFault plain_collation 200 ''M1'' demo_db = Inr sl" using demo_seats by blast
  define e where "e = cache_entry (\<lambda>s. s) demo_format seatCacheTTL 0 ''M1'' sl"
  define st where "st t c f = \<lparr>ks_now = t, ks_db = demo_db, ks_items = c, ks_flight = f\<rparr>" for t c f
  let ?none = "\<lambda>_. None" and ?fl = "\<lambda>pc. [''M1'' \<mapsto> pc]" and ?c = "cache_put ''M1'' e newSeatCache"
  let ?t = "1000000001"
  have 0: "cold_cache demo_db = st 0 newSeatCache ?none" by (simp add: cold_cache_def st_def)
  have 1: "?step (st t c ?none) Quiet (st t c (?fl Rechecking))" for t c
    using cache_step.launch [of "st t c ?none" "''M1''"] by (simp add: st_def)
  have 2: "?step (st t c (?fl Rechecking)) Quiet (st t c (?fl Querying))" if "cache_get t ''M1'' c = None" for t c
    using cache_step.recheck_miss [of "st t c (?fl Rechecking)" "''M1''"] that by (simp add: st_def)
  have 3: "?step (st t c (?fl Querying)) (Read ''M1'') (st t c (?fl (Loaded t sl)))" for t c
    using cache_step.read [of "st t c (?fl Querying)" "''M1''" plain_collation "\<lambda>_. 200" sl] sl by (simp add: st_def)
  have 4: "?step (st 0 newSeatCache (?fl (Loaded 0 sl))) (Answer ''M1'' e) (st 0 ?c ?none)"
    using cache_step.put [of "st 0 newSeatCache (?fl (Loaded 0 sl))" "''M1''" 0 sl 50 e "(\<lambda>s. s, demo_format)"]
    by (simp add: st_def e_def)
  have 5: "?step (st 0 ?c ?none) Quiet (st ?t ?c ?none)"
    using cache_step.clock [of "st 0 ?c ?none" ?t] by (simp add: st_def)
  have misses: "cache_get 0 ''M1'' newSeatCache = None" "cache_get ?t ''M1'' ?c = None"
    by (simp_all add: cache_get_def newSeatCache_def cache_put_def e_def cache_entry_def seatCacheTTL_def)
  note first = run_step [OF run_step [OF run_step [OF run_step [OF run_start 1] 2 [OF misses(1)]] 3] 4]
  note both = run_step [OF run_step [OF run_step [OF run_step [OF first 5] 1] 2 [OF misses(2)]] 3]
  have "\<exists>states evs. ?run states evs \<and> reads ''M1'' states evs = [?t, 0]
      \<and> Invalidated ''M1'' \<notin> set evs \<and> Failed ''M1'' \<notin> set evs"
    unfolding 0 using both by (intro exI conjI) (assumption, simp_all add: st_def)
  then show ?thesis using one_query_per_ttl by blast
qed


section \<open>The index on held seats\<close>

text \<open>C33: migration 0008 succeeds on every database that satisfies the schema before it and the correspondence of
  refunds and cancelled sales (\<open>refund_inv\<close>, which the program keeps), and leaves one that satisfies the whole invariant,
  the new unique index included. It gives each row of \<open>bookings\<close> its migrated form and touches no other table: an
  expired hold becomes expired, a live hold with a newer live hold of the same buyer in the match becomes cancelled,
  every other row stays; and a buyer with a live hold is left with exactly one.\<close>

theorem migration_0008_correct:
  assumes "schema_0007 d" and "refund_inv d"
  shows "\<exists>d'. migration_0008 now later d = (Inr (), d') \<and> db_inv d'
     \<and> d' = d\<lparr>bookings := map (migrated_row now later (bookings d)) (bookings d)\<rparr>
     \<and> (\<forall>b \<in> set (bookings d). live_hold now b \<longrightarrow>
          (\<exists>!y. y \<in> set (bookings d') \<and> is_held y \<and> buyer_key y = buyer_key b))"
proof -
  let ?d = "d\<lparr>bookings := map (migrated_row now later (bookings d)) (bookings d)\<rparr>"
  note out = migration_0008_outcome [OF assms, of now later]
  have dist: "distinct (map buyer_key (filter is_held (bookings ?d)))"
    using out(2) by (simp add: db_inv_def schema_inv_0007)
  have "\<exists>!y. y \<in> set (bookings ?d) \<and> is_held y \<and> buyer_key y = buyer_key b"
    if b: "b \<in> set (bookings d)" "live_hold now b" for b
  proof -
    obtain y where "y \<in> set (bookings d)" "buyer_key y = buyer_key b" "is_held y" "migrated_row now later (bookings d) y = y"
      using newest_hold_kept [OF b] by blast
    then have "y \<in> set (bookings ?d)" by (auto simp: image_iff intro: bexI [of _ y])
    moreover have "x = y" if "x \<in> set (bookings ?d)" "is_held x" "buyer_key x = buyer_key b" for x
      using distinct_key_eq [OF dist, of x y] that \<open>y \<in> set (bookings ?d)\<close> \<open>is_held y\<close> \<open>buyer_key y = buyer_key b\<close>
      by (simp del: set_map)
    ultimately show ?thesis using \<open>is_held y\<close> \<open>buyer_key y = buyer_key b\<close> by blast
  qed
  then show ?thesis using out by (intro exI [of _ ?d]) blast
qed

text \<open>Alice holds two seats of the match, as versions before the index allowed; carol's hold has expired.\<close>

definition hoarding_db :: db where
  "hoarding_db = demo_db\<lparr>bookings := bookings demo_db @ [demo_booking 5 ''A4'' ''alice'' Held (Some 600) None None],
     bookings_id_seq := 6\<rparr>"

theorem migration_0008_correct_witness:
  "schema_0007 hoarding_db \<and> refund_inv hoarding_db
   \<and> (\<exists>d'. migration_0008 200 201 hoarding_db = (Inr (), d') \<and> db_inv d'
        \<and> map bk_status (bookings d') = [Cancelled, Confirmed, Expired, Cancelled, Held])"
proof -
  have s: "schema_0007 hoarding_db"
    by (simp add: schema_0007_def hoarding_db_def demo_defs inventory_ok_def seat_key_def in_sequence_def is_held_def active_def max_int64_def)
  have r: "refund_inv hoarding_db"
    using demo_refund_inv by (simp add: refund_inv_def hoarding_db_def demo_booking_def booking_wf_def sold_cancelled_def)
  have "map bk_status (map (migrated_row 200 201 (bookings hoarding_db)) (bookings hoarding_db)) =
      [Cancelled, Confirmed, Expired, Cancelled, Held]"
    by (simp add: hoarding_db_def demo_defs migrated_row_def live_hold_def logically_expired_def superseded_def newer_def
        is_held_def buyer_key_def cancel_row_def expire_row_def)
  then show ?thesis using s r migration_0008_correct [OF s r, of 200 201] by auto
qed

end
