(* ===== verification/ReadCommitted.thy ===== *)
theory ReadCommitted
  imports StoreSystem
begin

text \<open>
  The transactions of the store as PostgreSQL runs them at its default isolation level \<open>READ COMMITTED\<close>, one
  statement and one row at a time: each statement sees what is committed when it starts and what its own
  transaction wrote; an \<open>UPDATE\<close> takes the row locks one by one, waits for the rows other transactions have
  written, and looks at the new version of a row before it writes it; an \<open>INSERT\<close> waits for every uncommitted row
  that clashes with it in a unique index; a \<open>DELETE\<close> waits for a key another transaction is deleting;
  \<open>pg_advisory_xact_lock\<close> waits for the other holder; a commit publishes everything at once. The rest of the development runs a transaction as one step. This theory proves
  that this is what the locks and the indexes achieve: a commit has the effect of the serial transaction run
  at the moment of the commit.
\<close>

section \<open>The calls and their statements\<close>

text \<open>
  The calls of the store that write \<open>bookings\<close> or \<open>idempotency_keys\<close>, each with \<open>now()\<close> of its transaction. A hold
  has its key and the booking a stale key points at, as \<open>placeHold\<close> found it before the transaction.
\<close>

datatype booking_call =
    HoldCall time string string string duration string int
  | ConfirmCall time int string
  | ReleaseCall time int string
  | CancelCall time int string
  | SweepCall time int
  | PruneCall time duration int

type_synonym row_update = "(bookings_row \<Rightarrow> bool) \<times> (bookings_row \<Rightarrow> bookings_row)"

text \<open>The \<open>UPDATE\<close>s of a call in the order of the code, as the rows they match and what they set.\<close>

fun updates :: "matches_row list \<Rightarrow> booking_call \<Rightarrow> row_update list" where
  "updates ms (HoldCall now m s b ttl key stale) = [(previous_hold m s b, cancel_row now), (stale_hold now m s, expire_row)]"
| "updates ms (ConfirmCall now i b) = [(\<lambda>r. bk_id r = i \<and> confirmable now b r, confirm_row now)]"
| "updates ms (ReleaseCall now i b) = [(\<lambda>r. bk_id r = i \<and> releasable b r, cancel_row now)]"
| "updates ms (CancelCall now i b) = [(\<lambda>r. bk_id r = i \<and> cancellable now b ms r, cancel_row now)]"
| "updates ms (SweepCall now limit) = [(expired_hold now, expire_row)]"
| "updates ms (PruneCall now old limit) = []"

text \<open>The advisory lock of a hold. Two keys with one hash only wait more.\<close>

fun lock_of :: "booking_call \<Rightarrow> (string \<times> string) option" where
  "lock_of (HoldCall now m s b ttl key stale) = Some (m, b)"
| "lock_of call = None"

text \<open>An \<open>UPDATE\<close> finds every matching row; the sweep takes up to \<open>LIMIT\<close> of those nobody has locked.\<close>

fun takes :: "booking_call \<Rightarrow> int set \<Rightarrow> int set \<Rightarrow> bool" where
  "takes (SweepCall now limit) found ids \<longleftrightarrow> ids \<subseteq> found \<and> 0 \<le> limit \<and> int (card ids) \<le> limit"
| "takes call found ids \<longleftrightarrow> ids = found"

text \<open>The calls that report \<open>ErrNoRows\<close> when their \<open>UPDATE\<close> wrote nothing.\<close>

fun needs_row :: "booking_call \<Rightarrow> bool" where
  "needs_row (HoldCall now m s b ttl key stale) = False"
| "needs_row (SweepCall now limit) = False"
| "needs_row (PruneCall now old limit) = False"
| "needs_row call = True"

text \<open>The keys a call deletes: the stale key of a hold, the old keys of the pruning.\<close>

fun deletes :: "booking_call \<Rightarrow> idempotency_keys_row \<Rightarrow> bool" where
  "deletes (HoldCall now m s b ttl key stale) k \<longleftrightarrow> stale \<noteq> 0 \<and> ik_key k = key \<and> ik_booking_id k = stale"
| "deletes (PruneCall now old limit) k \<longleftrightarrow> ik_created_at k < now - microseconds old"
| "deletes call k \<longleftrightarrow> False"


section \<open>Transactions\<close>

datatype tx_pc =
    Locking | Clearing | Scan nat | Rows nat "int set" | Inserting | Recording
  | Refunding | Notifying | KeyScan | KeyRows "idempotency_keys_row set" | Ready

record rc_tx =
  tx_call :: booking_call
  tx_pc :: tx_pc
  tx_pend :: "int \<rightharpoonup> bookings_row"
  tx_new :: "bookings_row list"
  tx_refund :: "refunds_row list"
  tx_event :: "outbox_events_row list"
  tx_kdel :: "idempotency_keys_row set"
  tx_knew :: "idempotency_keys_row list"

record rc_sys =
  rc_db :: db
  rc_txs :: "nat \<rightharpoonup> rc_tx"

fun first_pc :: "booking_call \<Rightarrow> tx_pc" where
  "first_pc (HoldCall now m s b ttl key stale) = Locking"
| "first_pc (PruneCall now old limit) = KeyScan"
| "first_pc call = Scan 0"

text \<open>Where a transaction goes on after its lock, its \<open>UPDATE\<close>s and its \<open>INSERT\<close>.\<close>

fun after_lock :: "booking_call \<Rightarrow> tx_pc" where
  "after_lock (HoldCall now m s b ttl key stale) = (if stale \<noteq> 0 then Clearing else Scan 0)"
| "after_lock call = Scan 0"

fun after_insert :: "booking_call \<Rightarrow> tx_pc" where
  "after_insert (HoldCall now m s b ttl key stale) = (if key \<noteq> '''' then Recording else Ready)"
| "after_insert call = Ready"

fun after_updates :: "booking_call \<Rightarrow> tx_pc" where
  "after_updates (HoldCall now m s b ttl key stale) = Inserting"
| "after_updates (CancelCall now i b) = Refunding"
| "after_updates call = Ready"

definition begin_tx :: "booking_call \<Rightarrow> rc_tx" where
  "begin_tx call = \<lparr>tx_call = call, tx_pc = first_pc call, tx_pend = Map.empty, tx_new = [], tx_refund = [], tx_event = [],
                    tx_kdel = {}, tx_knew = []\<rparr>"

definition merge_rows :: "(int \<rightharpoonup> bookings_row) \<Rightarrow> bookings_row list \<Rightarrow> bookings_row list" where
  "merge_rows pend rows = map (\<lambda>r. case pend (bk_id r) of None \<Rightarrow> r | Some r' \<Rightarrow> r') rows"

text \<open>What a statement of a transaction sees, and what the transaction has written.\<close>

definition tx_rows :: "db \<Rightarrow> rc_tx \<Rightarrow> bookings_row list" where
  "tx_rows d x = merge_rows (tx_pend x) (bookings d) @ tx_new x"

definition written :: "rc_tx \<Rightarrow> bookings_row set" where
  "written x = ran (tx_pend x) \<union> set (tx_new x)"

definition commit_db :: "rc_tx \<Rightarrow> db \<Rightarrow> db" where
  "commit_db x d =
     d\<lparr>bookings := tx_rows d x, refunds := refunds d @ tx_refund x, outbox_events := outbox_events d @ tx_event x,
      idempotency_keys := filter (\<lambda>k. k \<notin> tx_kdel x) (idempotency_keys d) @ tx_knew x\<rparr>"

definition holds_lock :: "rc_tx \<Rightarrow> string \<times> string \<Rightarrow> bool" where
  "holds_lock x k \<longleftrightarrow> lock_of (tx_call x) = Some k \<and> tx_pc x \<noteq> Locking"

text \<open>Another transaction wrote the row and has not ended.\<close>

definition row_locked :: "rc_sys \<Rightarrow> nat \<Rightarrow> int \<Rightarrow> bool" where
  "row_locked c u i \<longleftrightarrow> (\<exists>v y. v \<noteq> u \<and> rc_txs c v = Some y \<and> tx_pend y i \<noteq> None)"

text \<open>Another transaction deleted the key, or recorded it, and has not ended.\<close>

definition key_locked :: "rc_sys \<Rightarrow> nat \<Rightarrow> idempotency_keys_row \<Rightarrow> bool" where
  "key_locked c u k \<longleftrightarrow> (\<exists>v y. v \<noteq> u \<and> rc_txs c v = Some y \<and> k \<in> tx_kdel y)"

definition key_pending :: "rc_sys \<Rightarrow> nat \<Rightarrow> string \<Rightarrow> bool" where
  "key_pending c u k \<longleftrightarrow> (\<exists>v y. v \<noteq> u \<and> rc_txs c v = Some y \<and> k \<in> ik_key ` set (tx_knew y))"

text \<open>Two rows that cannot both be in one of the two partial unique indexes.\<close>

definition clash :: "bookings_row \<Rightarrow> bookings_row \<Rightarrow> bool" where
  "clash r r' \<longleftrightarrow>
     active r \<and> active r' \<and> seat_key r = seat_key r' \<or> is_held r \<and> is_held r' \<and> buyer_key r = buyer_key r'"

definition set_tx :: "nat \<Rightarrow> rc_tx \<Rightarrow> rc_sys \<Rightarrow> rc_sys" where
  "set_tx u x c = c\<lparr>rc_txs := (rc_txs c)(u \<mapsto> x)\<rparr>"

definition end_tx :: "nat \<Rightarrow> rc_sys \<Rightarrow> rc_sys" where
  "end_tx u c = c\<lparr>rc_txs := (rc_txs c)(u := None)\<rparr>"

definition set_db :: "db \<Rightarrow> rc_sys \<Rightarrow> rc_sys" where
  "set_db d c = c\<lparr>rc_db := d\<rparr>"

datatype rc_event = Internal | Refused booking_call | KeyTaken booking_call | NoRow booking_call | Committed booking_call


section \<open>The steps\<close>

inductive rc_step :: "rc_sys \<Rightarrow> rc_event \<Rightarrow> rc_sys \<Rightarrow> bool" where
  begin_call: "rc_txs c u = None \<Longrightarrow> (\<forall>now m s b ttl stale. call = HoldCall now m s b ttl '''' stale \<longrightarrow> stale = 0) \<Longrightarrow>
    rc_step c Internal (set_tx u (begin_tx call) c)"
| take_lock: "rc_txs c u = Some x \<Longrightarrow> tx_pc x = Locking \<Longrightarrow> lock_of (tx_call x) = Some k \<Longrightarrow>
    (\<forall>v y. rc_txs c v = Some y \<longrightarrow> \<not> holds_lock y k) \<Longrightarrow>
    rc_step c Internal (set_tx u (x\<lparr>tx_pc := after_lock (tx_call x)\<rparr>) c)"
| no_stale_key: "rc_txs c u = Some x \<Longrightarrow> tx_pc x = Clearing \<Longrightarrow>
    (\<forall>k \<in> set (idempotency_keys (rc_db c)). \<not> deletes (tx_call x) k) \<Longrightarrow>
    rc_step c Internal (set_tx u (x\<lparr>tx_pc := Scan 0\<rparr>) c)"
| clear_key: "rc_txs c u = Some x \<Longrightarrow> tx_pc x = Clearing \<Longrightarrow>
    k \<in> set (idempotency_keys (rc_db c)) \<Longrightarrow> deletes (tx_call x) k \<Longrightarrow> \<not> key_locked c u k \<Longrightarrow>
    rc_step c Internal (set_tx u (x\<lparr>tx_pc := Scan 0, tx_kdel := {k}\<rparr>) c)"
| scan: "rc_txs c u = Some x \<Longrightarrow> tx_pc x = Scan n \<Longrightarrow> us = updates (matches (rc_db c)) (tx_call x) \<Longrightarrow> n < length us \<Longrightarrow>
    takes (tx_call x) (bk_id ` {r \<in> set (tx_rows (rc_db c) x). fst (us ! n) r}) ids \<Longrightarrow>
    rc_step c Internal (set_tx u (x\<lparr>tx_pc := Rows n ids\<rparr>) c)"
| write_row: "rc_txs c u = Some x \<Longrightarrow> tx_pc x = Rows n ids \<Longrightarrow> n < length (updates (matches (rc_db c)) (tx_call x)) \<Longrightarrow>
    updates (matches (rc_db c)) (tx_call x) ! n = (P, f) \<Longrightarrow> r \<in> set (tx_rows (rc_db c) x) \<Longrightarrow> bk_id r \<in> ids \<Longrightarrow> \<not> row_locked c u (bk_id r) \<Longrightarrow>
    rc_step c Internal (set_tx u (x\<lparr>tx_pc := Rows n (ids - {bk_id r}),
      tx_pend := if P r then (tx_pend x)(bk_id r \<mapsto> f r) else tx_pend x\<rparr>) c)"
| next_update: "rc_txs c u = Some x \<Longrightarrow> tx_pc x = Rows n {} \<Longrightarrow> rc_step c Internal (set_tx u (x\<lparr>tx_pc := Scan (Suc n)\<rparr>) c)"
| updated: "rc_txs c u = Some x \<Longrightarrow> tx_pc x = Scan (length (updates (matches (rc_db c)) (tx_call x))) \<Longrightarrow>
    (needs_row (tx_call x) \<longrightarrow> tx_pend x \<noteq> Map.empty) \<Longrightarrow>
    rc_step c Internal (set_tx u (x\<lparr>tx_pc := after_updates (tx_call x)\<rparr>) c)"
| no_row: "rc_txs c u = Some x \<Longrightarrow> tx_pc x = Scan (length (updates (matches (rc_db c)) (tx_call x))) \<Longrightarrow>
    needs_row (tx_call x) \<Longrightarrow> tx_pend x = Map.empty \<Longrightarrow> rc_step c (NoRow (tx_call x)) (end_tx u c)"
| insert_hold: "rc_txs c u = Some x \<Longrightarrow> tx_pc x = Inserting \<Longrightarrow> tx_call x = HoldCall now m s b ttl key stale \<Longrightarrow>
    i = bookings_id_seq (rc_db c) \<Longrightarrow> i \<le> max_int64 \<Longrightarrow> seat_exists m s (rc_db c) \<Longrightarrow>
    row = new_hold i m s b (now + microseconds ttl) now \<Longrightarrow>
    (\<forall>r \<in> set (tx_rows (rc_db c) x). \<not> clash row r) \<Longrightarrow>
    (\<forall>v y. v \<noteq> u \<longrightarrow> rc_txs c v = Some y \<longrightarrow> (\<forall>r \<in> written y. \<not> clash row r)) \<Longrightarrow>
    rc_step c Internal (set_tx u (x\<lparr>tx_pc := after_insert (tx_call x), tx_new := [row]\<rparr>) (set_db ((rc_db c)\<lparr>bookings_id_seq := i + 1\<rparr>) c))"
| refuse_hold: "rc_txs c u = Some x \<Longrightarrow> tx_pc x = Inserting \<Longrightarrow> tx_call x = HoldCall now m s b ttl key stale \<Longrightarrow>
    i = bookings_id_seq (rc_db c) \<Longrightarrow> i \<le> max_int64 \<Longrightarrow>
    row = new_hold i m s b (now + microseconds ttl) now \<Longrightarrow>
    r \<in> set (tx_rows (rc_db c) x) \<Longrightarrow> clash row r \<Longrightarrow> \<not> row_locked c u (bk_id r) \<Longrightarrow>
    rc_step c (Refused (tx_call x)) (end_tx u (set_db ((rc_db c)\<lparr>bookings_id_seq := i + 1\<rparr>) c))"
| record_key: "rc_txs c u = Some x \<Longrightarrow> tx_pc x = Recording \<Longrightarrow> tx_call x = HoldCall now m s b ttl key stale \<Longrightarrow>
    (\<forall>k \<in> set (idempotency_keys (rc_db c)). ik_key k = key \<longrightarrow> k \<in> tx_kdel x) \<Longrightarrow> \<not> key_pending c u key \<Longrightarrow>
    rc_step c Internal (set_tx u (x\<lparr>tx_pc := Ready,
      tx_knew := [\<lparr>ik_key = key, ik_booking_id = bk_id (hd (tx_new x)), ik_created_at = now\<rparr>]\<rparr>) c)"
| refuse_key: "rc_txs c u = Some x \<Longrightarrow> tx_pc x = Recording \<Longrightarrow> tx_call x = HoldCall now m s b ttl key stale \<Longrightarrow>
    k \<in> set (idempotency_keys (rc_db c)) \<Longrightarrow> ik_key k = key \<Longrightarrow> k \<notin> tx_kdel x \<Longrightarrow> \<not> key_locked c u k \<Longrightarrow>
    rc_step c (KeyTaken (tx_call x)) (end_tx u c)"
| scan_keys: "rc_txs c u = Some x \<Longrightarrow> tx_pc x = KeyScan \<Longrightarrow> tx_call x = PruneCall now old limit \<Longrightarrow>
    ks \<subseteq> {k \<in> set (idempotency_keys (rc_db c)). deletes (tx_call x) k} \<Longrightarrow> 0 \<le> limit \<Longrightarrow> int (card ks) \<le> limit \<Longrightarrow>
    rc_step c Internal (set_tx u (x\<lparr>tx_pc := KeyRows ks\<rparr>) c)"
| drop_key: "rc_txs c u = Some x \<Longrightarrow> tx_pc x = KeyRows ks \<Longrightarrow> k \<in> ks \<Longrightarrow> \<not> key_locked c u k \<Longrightarrow>
    rc_step c Internal (set_tx u (x\<lparr>tx_pc := KeyRows (ks - {k}),
      tx_kdel := if k \<in> set (idempotency_keys (rc_db c)) \<and> deletes (tx_call x) k then insert k (tx_kdel x) else tx_kdel x\<rparr>) c)"
| pruned: "rc_txs c u = Some x \<Longrightarrow> tx_pc x = KeyRows {} \<Longrightarrow> tx_call x = PruneCall now old limit \<Longrightarrow>
    rc_step c Internal (set_tx u (x\<lparr>tx_pc := Ready\<rparr>) c)"
| insert_refund: "rc_txs c u = Some x \<Longrightarrow> tx_pc x = Refunding \<Longrightarrow> tx_call x = CancelCall now i b \<Longrightarrow>
    j = refunds_id_seq (rc_db c) \<Longrightarrow> j \<le> max_int64 \<Longrightarrow>
    rc_step c Internal (set_tx u (x\<lparr>tx_pc := Notifying,
        tx_refund := [\<lparr>rf_id = j, rf_booking_id = i, rf_status = Pending, rf_requested_at = now,
                       rf_completed_at = None, rf_external_ref = None\<rparr>]\<rparr>)
      (set_db ((rc_db c)\<lparr>refunds_id_seq := j + 1\<rparr>) c))"
| insert_event: "rc_txs c u = Some x \<Longrightarrow> tx_pc x = Notifying \<Longrightarrow> tx_call x = CancelCall now i b \<Longrightarrow>
    k = outbox_events_id_seq (rc_db c) \<Longrightarrow> k \<le> max_int64 \<Longrightarrow>
    rc_step c Internal (set_tx u (x\<lparr>tx_pc := Ready,
        tx_event := [\<lparr>ob_id = k, ob_event_type = ''refund_requested'', ob_booking_id = i,
                      ob_payload = refund_payload (rf_id (hd (tx_refund x))), ob_created_at = now,
                      ob_processed_at = None, ob_claimed_at = None\<rparr>]\<rparr>)
      (set_db ((rc_db c)\<lparr>outbox_events_id_seq := k + 1\<rparr>) c))"
| commit_call: "rc_txs c u = Some x \<Longrightarrow> tx_pc x = Ready \<Longrightarrow>
    rc_step c (Committed (tx_call x)) (end_tx u (set_db (commit_db x (rc_db c)) c))"
| abort_call: "rc_txs c u = Some x \<Longrightarrow> rc_step c Internal (end_tx u c)"

definition rc_next :: "rc_sys \<Rightarrow> rc_sys \<Rightarrow> bool" where
  "rc_next c c' \<longleftrightarrow> (\<exists>ev. rc_step c ev c')"

text \<open>Any consistent database without open transactions.\<close>

definition rc_start :: "rc_sys \<Rightarrow> bool" where
  "rc_start c \<longleftrightarrow> schema_inv (rc_db c) \<and> rc_txs c = Map.empty"

lemma rc_simps [simp]:
  "rc_db (set_tx u x c) = rc_db c" "rc_txs (set_tx u x c) = (rc_txs c)(u \<mapsto> x)"
  "rc_db (end_tx u c) = rc_db c" "rc_txs (end_tx u c) = (rc_txs c)(u := None)"
  "rc_db (set_db d c) = d" "rc_txs (set_db d c) = rc_txs c"
  by (simp_all add: set_tx_def end_tx_def set_db_def)


section \<open>The invariant\<close>

text \<open>Every version a transaction wrote comes from one committed row, by one of its \<open>UPDATE\<close>s.\<close>

definition writes_ok :: "db \<Rightarrow> rc_tx \<Rightarrow> bool" where
  "writes_ok d x \<longleftrightarrow>
     (\<forall>i r'. tx_pend x i = Some r' \<longrightarrow>
        (\<exists>r \<in> set (bookings d). bk_id r = i
           \<and> (\<exists>P f. (P, f) \<in> set (updates (matches d) (tx_call x)) \<and> P r \<and> r' = f r)))"

text \<open>The row of a hold, and that it clashes with nothing its transaction sees.\<close>

fun is_new :: "db \<Rightarrow> booking_call \<Rightarrow> bookings_row \<Rightarrow> bool" where
  "is_new d (HoldCall now m s b ttl key stale) r \<longleftrightarrow>
     r = new_hold (bk_id r) m s b (now + microseconds ttl) now \<and> seat_exists m s d
     \<and> 1 \<le> bk_id r \<and> bk_id r < bookings_id_seq d \<and> bk_id r \<notin> bk_id ` set (bookings d)"
| "is_new d call r \<longleftrightarrow> False"

definition new_ok :: "db \<Rightarrow> rc_tx \<Rightarrow> bool" where
  "new_ok d x \<longleftrightarrow> length (tx_new x) \<le> 1 \<and>
     (\<forall>r \<in> set (tx_new x). (tx_pc x = Recording \<or> tx_pc x = Ready) \<and> is_new d (tx_call x) r
        \<and> (\<forall>r' \<in> set (merge_rows (tx_pend x) (bookings d)). \<not> clash r r'))"

text \<open>A hold that is past the release of the buyer's other hold has released all of them.\<close>

fun before :: "tx_pc \<Rightarrow> int \<Rightarrow> bool" where
  "before Locking i = True"
| "before Clearing i = True"
| "before (Scan n) i = (n = 0)"
| "before (Rows n ids) i = (n = 0 \<and> i \<in> ids)"
| "before pc i = False"

definition released_ok :: "db \<Rightarrow> rc_tx \<Rightarrow> bool" where
  "released_ok d x \<longleftrightarrow>
     (\<forall>now m s b ttl key stale. tx_call x = HoldCall now m s b ttl key stale \<longrightarrow>
        (\<forall>r \<in> set (bookings d). previous_hold m s b r \<longrightarrow> tx_pend x (bk_id r) = None \<longrightarrow> before (tx_pc x) (bk_id r)))"

text \<open>What a transaction that may commit has done.\<close>

definition refund_of :: "time \<Rightarrow> int \<Rightarrow> int \<Rightarrow> refunds_row" where
  "refund_of now i j = \<lparr>rf_id = j, rf_booking_id = i, rf_status = Pending, rf_requested_at = now,
                        rf_completed_at = None, rf_external_ref = None\<rparr>"

definition event_for :: "time \<Rightarrow> int \<Rightarrow> int \<Rightarrow> int \<Rightarrow> outbox_events_row" where
  "event_for now i j k = \<lparr>ob_id = k, ob_event_type = ''refund_requested'', ob_booking_id = i,
                          ob_payload = refund_payload j, ob_created_at = now, ob_processed_at = None, ob_claimed_at = None\<rparr>"

fun stage_ok :: "booking_call \<Rightarrow> rc_tx \<Rightarrow> bool" where
  "stage_ok (HoldCall now m s b ttl key stale) x \<longleftrightarrow>
     (tx_pc x = Recording \<or> tx_pc x = Ready \<longrightarrow> tx_new x \<noteq> [])
     \<and> (tx_pc x = Recording \<longrightarrow> key \<noteq> '''') \<and> (tx_pc x = Ready \<longrightarrow> key \<noteq> '''' \<longrightarrow> tx_knew x \<noteq> [])
     \<and> (key = '''' \<longrightarrow> stale = 0) \<and> tx_refund x = [] \<and> tx_event x = []"
| "stage_ok (CancelCall now i b) x \<longleftrightarrow>
     (if tx_pc x = Notifying
      then tx_pend x \<noteq> Map.empty \<and> tx_event x = [] \<and> (\<exists>j \<le> max_int64. tx_refund x = [refund_of now i j])
      else if tx_pc x = Ready
      then tx_pend x \<noteq> Map.empty \<and> (\<exists>j \<le> max_int64. \<exists>k \<le> max_int64. tx_refund x = [refund_of now i j] \<and> tx_event x = [event_for now i j k])
      else tx_refund x = [] \<and> tx_event x = [] \<and> (tx_pc x = Refunding \<longrightarrow> tx_pend x \<noteq> Map.empty))"
| "stage_ok (SweepCall now limit) x \<longleftrightarrow> tx_refund x = [] \<and> tx_event x = []"
| "stage_ok (PruneCall now old limit) x \<longleftrightarrow> tx_refund x = [] \<and> tx_event x = []"
| "stage_ok call x \<longleftrightarrow> tx_refund x = [] \<and> tx_event x = [] \<and> (tx_pc x = Ready \<longrightarrow> tx_pend x \<noteq> Map.empty)"

text \<open>The sweep and the pruning stay within their limits: what they still have to look at and what they wrote.\<close>

definition sweep_ok :: "rc_tx \<Rightarrow> bool" where
  "sweep_ok x \<longleftrightarrow>
     (\<forall>now limit. tx_call x = SweepCall now limit \<longrightarrow>
        (case tx_pc x of
           Rows n ids \<Rightarrow> finite ids \<and> 0 \<le> limit \<and> int (card (ids \<union> dom (tx_pend x))) \<le> limit
         | Scan n \<Rightarrow> (if n = 0 then tx_pend x = Map.empty else 0 \<le> limit \<and> int (card (dom (tx_pend x))) \<le> limit)
         | Ready \<Rightarrow> 0 \<le> limit \<and> int (card (dom (tx_pend x))) \<le> limit
         | _ \<Rightarrow> False))
     \<and> (\<forall>now old limit. tx_call x = PruneCall now old limit \<longrightarrow>
        (case tx_pc x of
           KeyScan \<Rightarrow> tx_kdel x = {}
         | KeyRows ks \<Rightarrow> finite ks \<and> 0 \<le> limit \<and> int (card (ks \<union> tx_kdel x)) \<le> limit
         | Ready \<Rightarrow> 0 \<le> limit \<and> int (card (tx_kdel x)) \<le> limit
         | _ \<Rightarrow> False))"

text \<open>A transaction deletes committed keys only, and records a key nobody else has.\<close>

fun records :: "booking_call \<Rightarrow> bookings_row list \<Rightarrow> idempotency_keys_row \<Rightarrow> bool" where
  "records (HoldCall now m s b ttl key stale) new k \<longleftrightarrow>
     key \<noteq> '''' \<and> k = \<lparr>ik_key = key, ik_booking_id = bk_id (hd new), ik_created_at = now\<rparr>"
| "records call new k \<longleftrightarrow> False"

definition keys_ok :: "db \<Rightarrow> rc_tx \<Rightarrow> bool" where
  "keys_ok d x \<longleftrightarrow>
     tx_kdel x \<subseteq> {k \<in> set (idempotency_keys d). deletes (tx_call x) k}
     \<and> length (tx_knew x) \<le> 1
     \<and> (\<forall>k \<in> set (tx_knew x). tx_pc x = Ready \<and> records (tx_call x) (tx_new x) k
          \<and> (\<forall>row \<in> set (idempotency_keys d). ik_key row = ik_key k \<longrightarrow> row \<in> tx_kdel x))"

definition tx_ok :: "db \<Rightarrow> rc_tx \<Rightarrow> bool" where
  "tx_ok d x \<longleftrightarrow> writes_ok d x \<and> new_ok d x \<and> released_ok d x \<and> stage_ok (tx_call x) x \<and> sweep_ok x
     \<and> keys_ok d x"

text \<open>Two transactions that run at the same time.\<close>

definition apart :: "rc_tx \<Rightarrow> rc_tx \<Rightarrow> bool" where
  "apart x y \<longleftrightarrow>
     dom (tx_pend x) \<inter> dom (tx_pend y) = {}
     \<and> (\<forall>r \<in> set (tx_new x). \<forall>r' \<in> written y. \<not> clash r r')
     \<and> (\<forall>r \<in> set (tx_new y). \<forall>r' \<in> written x. \<not> clash r r')
     \<and> (\<forall>r \<in> set (tx_new x). \<forall>r' \<in> set (tx_new y). bk_id r \<noteq> bk_id r')
     \<and> tx_kdel x \<inter> tx_kdel y = {}
     \<and> (\<forall>k \<in> set (tx_knew x). \<forall>k' \<in> set (tx_knew y). ik_key k \<noteq> ik_key k')
     \<and> (\<forall>k. \<not> (holds_lock x k \<and> holds_lock y k))"

definition rc_inv :: "rc_sys \<Rightarrow> bool" where
  "rc_inv c \<longleftrightarrow>
     bookings_ok (rc_db c) (bookings (rc_db c))
     \<and> in_sequence (bookings_id_seq (rc_db c)) (map bk_id (bookings (rc_db c)))
     \<and> distinct (map ik_key (idempotency_keys (rc_db c)))
     \<and> (\<forall>u x. rc_txs c u = Some x \<longrightarrow> tx_ok (rc_db c) x)
     \<and> (\<forall>u v x y. u \<noteq> v \<longrightarrow> rc_txs c u = Some x \<longrightarrow> rc_txs c v = Some y \<longrightarrow> apart x y)"


section \<open>Written rows\<close>

lemma clash_sym: "clash r r' \<longleftrightarrow> clash r' r"
  by (auto simp: clash_def)

lemma updates_demote: "(P, f) \<in> set (updates ms call) \<Longrightarrow> demotes P f"
  by (cases call) auto

text \<open>No \<open>UPDATE\<close> of a call matches a row that one of them has written.\<close>

lemma updates_once:
  assumes "(P, f) \<in> set (updates ms call)" and "(Q, g) \<in> set (updates ms call)" and "P r"
  shows "\<not> Q (f r)"
  using assms
  by (cases call) (auto simp: previous_hold_def stale_hold_def confirmable_def releasable_def cancellable_def expired_hold_def)

lemma demoted:
  assumes "demotes P f" and "P r"
  shows "bk_id (f r) = bk_id r" "seat_key (f r) = seat_key r" "buyer_key (f r) = buyer_key r"
    "active (f r) \<Longrightarrow> active r" "is_held (f r) \<Longrightarrow> is_held r" "clash r0 (f r) \<Longrightarrow> clash r0 r"
  using assms unfolding demotes_def clash_def by metis+

lemma writes_okD:
  assumes "writes_ok d x" and "tx_pend x i = Some r'"
  obtains r P f where "r \<in> set (bookings d)" "bk_id r = i" "(P, f) \<in> set (updates (matches d) (tx_call x))" "P r" "r' = f r"
  using assms unfolding writes_ok_def by blast

lemma set_merge_rows:
  "set (merge_rows pend rows) = (\<lambda>r. case pend (bk_id r) of None \<Rightarrow> r | Some r' \<Rightarrow> r') ` set rows"
  by (simp add: merge_rows_def)

lemma unwritten_in_merge: "r \<in> set rows \<Longrightarrow> pend (bk_id r) = None \<Longrightarrow> r \<in> set (merge_rows pend rows)"
  by (force simp: set_merge_rows)

lemma in_merge_cases:
  assumes "r \<in> set (merge_rows pend rows)"
  obtains "r \<in> set rows" "pend (bk_id r) = None" | r0 where "r0 \<in> set rows" "pend (bk_id r0) = Some r"
  using assms by (auto simp: set_merge_rows split: option.splits)

text \<open>For a transaction whose writes are in order the merged table is the result of an \<open>UPDATE\<close> that demotes.\<close>

lemma merge_update:
  "merge_rows pend rows =
     update_where (\<lambda>r. r \<in> set rows \<and> pend (bk_id r) \<noteq> None) (\<lambda>r. the (pend (bk_id r))) rows"
  by (auto simp: merge_rows_def update_where_def)

lemma merge_demotes:
  assumes "writes_ok d x" and "distinct (map bk_id (bookings d))"
  shows "demotes (\<lambda>r. r \<in> set (bookings d) \<and> tx_pend x (bk_id r) \<noteq> None) (\<lambda>r. the (tx_pend x (bk_id r)))"
  unfolding demotes_def
proof (intro allI impI)
  fix r assume r: "r \<in> set (bookings d) \<and> tx_pend x (bk_id r) \<noteq> None"
  then obtain r' where r': "tx_pend x (bk_id r) = Some r'" by auto
  from writes_okD [OF assms(1) r'] obtain r1 P f where
    "r1 \<in> set (bookings d)" "bk_id r1 = bk_id r" and f: "(P, f) \<in> set (updates (matches d) (tx_call x))" "P r1" "r' = f r1" .
  then have "r1 = r" using distinct_key_eq [OF assms(2)] r by blast
  with f r' show "bk_id (the (tx_pend x (bk_id r))) = bk_id r \<and> seat_key (the (tx_pend x (bk_id r))) = seat_key r \<and>
      buyer_key (the (tx_pend x (bk_id r))) = buyer_key r \<and> (active (the (tx_pend x (bk_id r))) \<longrightarrow> active r) \<and>
      (is_held (the (tx_pend x (bk_id r))) \<longrightarrow> is_held r \<and>
        (bk_hold_expires_at (the (tx_pend x (bk_id r))) = None \<longrightarrow> bk_hold_expires_at r = None))"
    using updates_demote [OF f(1)] unfolding demotes_def by simp
qed

lemma merge_ok:
  assumes "bookings_ok d (bookings d)" and "writes_ok d x"
  shows "bookings_ok d (merge_rows (tx_pend x) (bookings d))" "map bk_id (merge_rows (tx_pend x) (bookings d)) = map bk_id (bookings d)"
proof -
  have dist: "distinct (map bk_id (bookings d))" using assms(1) by (simp add: bookings_ok_def)
  note dm = merge_demotes [OF assms(2) dist]
  show "bookings_ok d (merge_rows (tx_pend x) (bookings d))"
    unfolding merge_update by (rule bookings_ok_demotes [OF assms(1) dm])
  show "map bk_id (merge_rows (tx_pend x) (bookings d)) = map bk_id (bookings d)"
    unfolding merge_update by (rule map_update_where) (use dm in \<open>simp add: demotes_def\<close>)
qed

lemma bookings_ok_snoc:
  assumes "bookings_ok d rows" and "bk_id r \<notin> bk_id ` set rows" and "\<forall>r' \<in> set rows. \<not> clash r r'"
    and "bk_hold_expires_at r \<noteq> None" and "seat_exists (bk_match_id r) (bk_seat_id r) d"
  shows "bookings_ok d (rows @ [r])"
  using assms by (auto simp: bookings_ok_def clash_def seat_exists_def seat_key_def)

lemma commit_rows_ok:
  assumes "bookings_ok d (bookings d)" and "in_sequence (bookings_id_seq d) (map bk_id (bookings d))" and "tx_ok d x"
  shows "bookings_ok d (tx_rows d x)" "in_sequence (bookings_id_seq d) (map bk_id (tx_rows d x))"
proof -
  have w: "writes_ok d x" and n: "new_ok d x" using assms(3) by (simp_all add: tx_ok_def)
  note m = merge_ok [OF assms(1) w]
  have ids: "bk_id ` set (merge_rows (tx_pend x) (bookings d)) = bk_id ` set (bookings d)"
    using m(2) by (metis list.set_map)
  consider "tx_new x = []" | r where "tx_new x = [r]" using n by (cases "tx_new x") (auto simp: new_ok_def)
  then have "bookings_ok d (tx_rows d x) \<and> in_sequence (bookings_id_seq d) (map bk_id (tx_rows d x))"
  proof cases
    case 1
    then show ?thesis using m assms(2) by (simp add: tx_rows_def)
  next
    case (2 r)
    then have new: "is_new d (tx_call x) r" "\<forall>r' \<in> set (merge_rows (tx_pend x) (bookings d)). \<not> clash r r'"
      using n by (auto simp: new_ok_def)
    then obtain now m s b ttl key stale where "tx_call x = HoldCall now m s b ttl key stale" by (cases "tx_call x") auto
    with new(1) have r: "r = new_hold (bk_id r) m s b (now + microseconds ttl) now" "seat_exists m s d"
        "1 \<le> bk_id r" "bk_id r < bookings_id_seq d" "bk_id r \<notin> bk_id ` set (bookings d)"
      by auto
    have "bk_match_id r = m" "bk_seat_id r = s" "bk_hold_expires_at r \<noteq> None"
      by (subst r(1), simp add: new_hold_def)+
    then have "bookings_ok d (merge_rows (tx_pend x) (bookings d) @ [r])"
      using r ids new(2) by (intro bookings_ok_snoc [OF m(1)]) auto
    moreover have "in_sequence (bookings_id_seq d) (map bk_id (bookings d) @ [bk_id r])"
      using assms(2) r by (simp add: in_sequence_def)
    ultimately show ?thesis using 2 m(2) by (simp add: tx_rows_def)
  qed
  then show "bookings_ok d (tx_rows d x)" "in_sequence (bookings_id_seq d) (map bk_id (tx_rows d x))" by blast+
qed


section \<open>The invariant is kept\<close>

text \<open>Only the sequences of the database changed, upwards.\<close>

definition drew :: "db \<Rightarrow> db \<Rightarrow> bool" where
  "drew d d' \<longleftrightarrow> same_tables d d' \<and> bookings_id_seq d \<le> bookings_id_seq d'"

lemma drew_simps [simp]:
  "drew d d" "n \<ge> bookings_id_seq d \<Longrightarrow> drew d (d\<lparr>bookings_id_seq := n\<rparr>)"
  "drew d (d\<lparr>refunds_id_seq := n\<rparr>)" "drew d (d\<lparr>outbox_events_id_seq := n\<rparr>)"
  by (simp_all add: drew_def same_tables_def)

lemma tx_ok_drew:
  assumes "drew d d'" and "tx_ok d x"
  shows "tx_ok d' x"
proof -
  have eq: "bookings d' = bookings d" "matches d' = matches d" "\<And>m s. seat_exists m s d' = seat_exists m s d"
      "idempotency_keys d' = idempotency_keys d" "bookings_id_seq d \<le> bookings_id_seq d'"
    using assms(1) by (auto simp: drew_def same_tables_def seat_exists_def)
  have "is_new d call r \<Longrightarrow> is_new d' call r" for call r
    using eq by (cases call) auto
  then show ?thesis
    using assms(2) unfolding tx_ok_def writes_ok_def new_ok_def released_ok_def keys_ok_def eq by blast
qed

lemma apart_commute: "apart x y \<Longrightarrow> apart y x"
  unfolding apart_def by (elim conjE, intro conjI) (blast | metis)+

text \<open>A step of one transaction that publishes nothing.\<close>

lemma rc_inv_set_tx:
  assumes inv: "rc_inv c" and drew: "drew (rc_db c) d" and seq: "in_sequence (bookings_id_seq d) (map bk_id (bookings d))"
    and ok: "tx_ok d x" and ap: "\<And>v y. v \<noteq> u \<Longrightarrow> rc_txs c v = Some y \<Longrightarrow> apart x y"
  shows "rc_inv (set_tx u x (set_db d c))"
proof -
  have "bookings_ok d (bookings d)"
    using inv drew by (auto simp: rc_inv_def drew_def same_tables_def bookings_ok_def)
  moreover have "apart xa ya"
    if "p \<noteq> q" "((rc_txs c)(u \<mapsto> x)) p = Some xa" "((rc_txs c)(u \<mapsto> x)) q = Some ya" for p q xa ya
    using that ap [of q ya] ap [of p xa] apart_commute inv by (cases "p = u"; cases "q = u") (auto simp: rc_inv_def)
  moreover have "tx_ok d xa" if "((rc_txs c)(u \<mapsto> x)) p = Some xa" for p xa
    using that ok inv tx_ok_drew [OF drew] by (auto simp: rc_inv_def split: if_splits)
  moreover have "distinct (map ik_key (idempotency_keys d))"
    using inv drew by (auto simp: rc_inv_def drew_def same_tables_def)
  ultimately show ?thesis using seq unfolding rc_inv_def rc_simps by blast
qed

lemma rc_inv_end_tx:
  assumes inv: "rc_inv c" and drew: "drew (rc_db c) d" and seq: "in_sequence (bookings_id_seq d) (map bk_id (bookings d))"
  shows "rc_inv (end_tx u (set_db d c))"
proof -
  have "bookings_ok d (bookings d)"
    using inv drew by (auto simp: rc_inv_def drew_def same_tables_def bookings_ok_def)
  moreover have "idempotency_keys d = idempotency_keys (rc_db c)" using drew by (simp add: drew_def same_tables_def)
  ultimately show ?thesis using inv seq tx_ok_drew [OF drew] by (auto simp: rc_inv_def)
qed

lemma set_db_self [simp]: "set_db (rc_db c) c = c"
  by (simp add: set_db_def)

lemma rc_inv_move:
  assumes "rc_inv c" and "tx_ok (rc_db c) x" and "\<And>v y. v \<noteq> u \<Longrightarrow> rc_txs c v = Some y \<Longrightarrow> apart x y"
  shows "rc_inv (set_tx u x c)"
  using rc_inv_set_tx [OF assms(1), of "rc_db c" x u] assms by (simp add: rc_inv_def)

lemma rc_invD:
  assumes "rc_inv c"
  shows "bookings_ok (rc_db c) (bookings (rc_db c))" "distinct (map bk_id (bookings (rc_db c)))"
    "in_sequence (bookings_id_seq (rc_db c)) (map bk_id (bookings (rc_db c)))"
    "rc_txs c u = Some x \<Longrightarrow> tx_ok (rc_db c) x"
    "u \<noteq> v \<Longrightarrow> rc_txs c u = Some x \<Longrightarrow> rc_txs c v = Some y \<Longrightarrow> apart x y"
  using assms by (auto simp: rc_inv_def bookings_ok_def)

lemma tx_okD:
  assumes "tx_ok d x"
  shows "writes_ok d x" "new_ok d x" "released_ok d x" "stage_ok (tx_call x) x" "sweep_ok x" "keys_ok d x"
  using assms by (simp_all add: tx_ok_def)

lemma no_new: "new_ok d x \<Longrightarrow> tx_pc x \<noteq> Recording \<Longrightarrow> tx_pc x \<noteq> Ready \<Longrightarrow> tx_new x = []"
  by (cases "tx_new x") (auto simp: new_ok_def)

lemma no_knew: "keys_ok d x \<Longrightarrow> tx_pc x \<noteq> Ready \<Longrightarrow> tx_knew x = []"
  by (cases "tx_knew x") (auto simp: keys_ok_def)

text \<open>The program counter alone: what has been written stays as it is.\<close>

lemma writes_ok_pc [simp]: "writes_ok d (x\<lparr>tx_pc := pc\<rparr>) = writes_ok d x"
  by (simp add: writes_ok_def)

lemma new_ok_Nil: "tx_new x = [] \<Longrightarrow> new_ok d x"
  by (simp add: new_ok_def)

lemma new_ok_pc: "new_ok d x \<Longrightarrow> tx_pc x \<noteq> Recording \<Longrightarrow> tx_pc x \<noteq> Ready \<Longrightarrow> new_ok d (x\<lparr>tx_pc := pc\<rparr>)"
  by (drule (2) no_new) (rule new_ok_Nil, simp)

text \<open>The keys are judged by the deletions, what is recorded, and whether the transaction may commit.\<close>

lemma keys_ok_same:
  assumes "keys_ok d x" and "tx_pc x \<noteq> Ready" and "idempotency_keys d' = idempotency_keys d"
    and "tx_call x' = tx_call x" "tx_kdel x' = tx_kdel x" "tx_knew x' = tx_knew x"
  shows "keys_ok d' x'"
  using assms no_knew [OF assms(1,2)] by (simp add: keys_ok_def)

lemma written_pc [simp]: "written (x\<lparr>tx_pc := pc\<rparr>) = written x"
  by (simp add: written_def)

lemma apart_pc:
  assumes "apart x y" and "tx_pc x \<noteq> Locking"
  shows "apart (x\<lparr>tx_pc := pc\<rparr>) y"
  using assms by (auto simp: apart_def holds_lock_def)

lemma inv_begin:
  assumes "rc_inv c" and "\<forall>now m s b ttl stale. call = HoldCall now m s b ttl '''' stale \<longrightarrow> stale = 0"
  shows "rc_inv (set_tx u (begin_tx call) c)"
proof -
  have "tx_ok (rc_db c) (begin_tx call)"
    using assms(2) by (cases call) (auto simp: tx_ok_def begin_tx_def writes_ok_def new_ok_def released_ok_def sweep_ok_def keys_ok_def)
  moreover have "\<not> holds_lock (begin_tx call) k" for k
    by (cases call) (simp_all add: holds_lock_def begin_tx_def)
  then have "apart (begin_tx call) y" for y
    by (simp add: apart_def) (simp add: begin_tx_def written_def)
  ultimately show ?thesis by (rule rc_inv_move [OF assms(1)])
qed

lemma inv_lock:
  assumes inv: "rc_inv c" and x: "rc_txs c u = Some x" "tx_pc x = Locking" "lock_of (tx_call x) = Some k"
    and free: "\<forall>v y. rc_txs c v = Some y \<longrightarrow> \<not> holds_lock y k"
  shows "rc_inv (set_tx u (x\<lparr>tx_pc := after_lock (tx_call x)\<rparr>) c)"
    (is "rc_inv (set_tx u ?x c)")
proof -
  note ok = tx_okD [OF rc_invD(4) [OF inv x(1)]]
  obtain now m s b ttl key stale where call: "tx_call x = HoldCall now m s b ttl key stale" using x(3) by (cases "tx_call x") auto
  have "keys_ok (rc_db c) ?x" by (rule keys_ok_same [OF ok(6)]) (simp_all add: x(2))
  then have "tx_ok (rc_db c) ?x"
    using ok new_ok_pc x(2) call by (auto simp: tx_ok_def released_ok_def sweep_ok_def)
  moreover have "apart ?x y" if "v \<noteq> u" "rc_txs c v = Some y" for v y
  proof -
    have "apart x y" using rc_invD(5) [OF inv that(1) that(2) x(1)] by (rule apart_commute)
    then show ?thesis using free that(2) x(3) by (auto simp: apart_def holds_lock_def)
  qed
  ultimately show ?thesis by (rule rc_inv_move [OF inv])
qed

text \<open>A transaction that holds its lock moves on without writing.\<close>

lemma inv_pc:
  assumes inv: "rc_inv c" and x: "rc_txs c u = Some x" "tx_pc x \<noteq> Locking" "tx_pc x \<noteq> Recording" "tx_pc x \<noteq> Ready"
    and rel: "released_ok (rc_db c) (x\<lparr>tx_pc := pc\<rparr>)" and stage: "stage_ok (tx_call x) (x\<lparr>tx_pc := pc\<rparr>)"
    and sweep: "sweep_ok (x\<lparr>tx_pc := pc\<rparr>)"
  shows "rc_inv (set_tx u (x\<lparr>tx_pc := pc\<rparr>) c)"
proof -
  note ok = tx_okD [OF rc_invD(4) [OF inv x(1)]]
  have "keys_ok (rc_db c) (x\<lparr>tx_pc := pc\<rparr>)" by (rule keys_ok_same [OF ok(6) x(4)]) simp_all
  then have "tx_ok (rc_db c) (x\<lparr>tx_pc := pc\<rparr>)" using ok new_ok_pc x(3,4) rel stage sweep by (simp add: tx_ok_def)
  moreover have "apart (x\<lparr>tx_pc := pc\<rparr>) y" if "v \<noteq> u" "rc_txs c v = Some y" for v y
    using apart_pc [OF apart_commute [OF rc_invD(5) [OF inv that x(1)]] x(2)] .
  ultimately show ?thesis by (rule rc_inv_move [OF inv])
qed

lemma stage_ok_working:
  assumes "stage_ok call x" and "tx_pc x = Scan n \<or> tx_pc x = Rows n ids" and "pc = Scan n' \<or> pc = Rows n' ids'"
  shows "stage_ok call (x\<lparr>tx_pc := pc\<rparr>)" "stage_ok call (x\<lparr>tx_pc := pc, tx_pend := pend\<rparr>)"
  using assms by (cases call; auto)+

lemma inv_scan:
  assumes inv: "rc_inv c" and x: "rc_txs c u = Some x" "tx_pc x = Scan n" and us: "us = updates (matches (rc_db c)) (tx_call x)"
    and n: "n < length us" and ids: "takes (tx_call x) (bk_id ` {r \<in> set (tx_rows (rc_db c) x). fst (us ! n) r}) ids"
  shows "rc_inv (set_tx u (x\<lparr>tx_pc := Rows n ids\<rparr>) c)"
proof (rule inv_pc [OF inv x(1)])
  note ok = tx_okD [OF rc_invD(4) [OF inv x(1)]]
  show "released_ok (rc_db c) (x\<lparr>tx_pc := Rows n ids\<rparr>)"
    unfolding released_ok_def
  proof (intro allI ballI impI)
    fix now m s b ttl key stale r
    assume call: "tx_call (x\<lparr>tx_pc := Rows n ids\<rparr>) = HoldCall now m s b ttl key stale"
      and r: "r \<in> set (bookings (rc_db c))" "previous_hold m s b r" "tx_pend (x\<lparr>tx_pc := Rows n ids\<rparr>) (bk_id r) = None"
    have "before (tx_pc x) (bk_id r)" using ok(3) call r by (auto simp: released_ok_def)
    then have "n = 0" by (simp add: x(2))
    moreover have "r \<in> set (tx_rows (rc_db c) x)" using unwritten_in_merge r by (auto simp: tx_rows_def)
    ultimately show "before (tx_pc (x\<lparr>tx_pc := Rows n ids\<rparr>)) (bk_id r)" using ids us call r(2) by auto
  qed
  show "stage_ok (tx_call x) (x\<lparr>tx_pc := Rows n ids\<rparr>)" using stage_ok_working(1) [OF ok(4)] x(2) by blast
  show "sweep_ok (x\<lparr>tx_pc := Rows n ids\<rparr>)"
  proof -
    have "finite ids \<and> 0 \<le> limit \<and> int (card (ids \<union> dom (tx_pend x))) \<le> limit" if call: "tx_call x = SweepCall now limit" for now limit
    proof -
      have "n = 0" using n us call by simp
      then have "tx_pend x = Map.empty" using ok(5) call x(2) by (simp add: sweep_ok_def)
      moreover have "finite ids" using ids call by (auto intro: finite_subset)
      ultimately show ?thesis using ids call by simp
    qed
    moreover have "tx_call x \<noteq> PruneCall now old limit" for now old limit using n us by auto
    ultimately show ?thesis by (simp add: sweep_ok_def)
  qed
qed (simp_all add: x(2))


text \<open>A row a transaction may still write has no uncommitted version.\<close>

lemma matched_unwritten:
  assumes ok: "writes_ok d x" and new: "tx_new x = []" and P: "(P, f) \<in> set (updates (matches d) (tx_call x))"
    and r: "r \<in> set (tx_rows d x)" "P r"
  shows "r \<in> set (bookings d)" "tx_pend x (bk_id r) = None"
proof -
  have "r \<in> set (merge_rows (tx_pend x) (bookings d))" using r(1) new by (simp add: tx_rows_def)
  then have "r \<in> set (bookings d) \<and> tx_pend x (bk_id r) = None"
  proof (cases rule: in_merge_cases)
    case (2 r0)
    from writes_okD [OF ok this(2)] obtain r1 Q g where "(Q, g) \<in> set (updates (matches d) (tx_call x))" "Q r1" "r = g r1" .
    then show ?thesis using updates_once [OF _ P] r(2) by blast
  qed simp
  then show "r \<in> set (bookings d)" "tx_pend x (bk_id r) = None" by simp_all
qed

lemma apart_write:
  assumes ap: "apart x y" and ok: "new_ok d y" and r: "r \<in> set (bookings d)" "tx_pend y (bk_id r) = None"
    and f: "demotes P f" "P r" and pc: "tx_pc x \<noteq> Locking"
  shows "apart (x\<lparr>tx_pc := Rows n ids, tx_pend := (tx_pend x)(bk_id r \<mapsto> f r)\<rparr>) y" (is "apart ?x y")
proof -
  have w: "written ?x \<subseteq> insert (f r) (written x)" by (auto simp: written_def ran_def split: if_splits)
  have "\<not> clash q (f r)" if "q \<in> set (tx_new y)" for q
  proof -
    have "\<not> clash q r" using that ok unwritten_in_merge [of r "bookings d" "tx_pend y"] r by (simp add: new_ok_def)
    then show ?thesis using demoted(6) [OF f] by blast
  qed
  then have "\<forall>q \<in> set (tx_new y). \<forall>r' \<in> written ?x. \<not> clash q r'"
    using w ap unfolding apart_def by blast
  then show ?thesis
    using ap r(2) pc unfolding apart_def by (auto simp: holds_lock_def)
qed

lemma inv_write:
  assumes inv: "rc_inv c" and x: "rc_txs c u = Some x" "tx_pc x = Rows n ids" and us: "updates (matches (rc_db c)) (tx_call x) ! n = (P, f)"
    and n: "n < length (updates (matches (rc_db c)) (tx_call x))"
    and r: "r \<in> set (tx_rows (rc_db c) x)" "bk_id r \<in> ids" "\<not> row_locked c u (bk_id r)" "P r"
  shows "rc_inv (set_tx u (x\<lparr>tx_pc := Rows n (ids - {bk_id r}), tx_pend := (tx_pend x)(bk_id r \<mapsto> f r)\<rparr>) c)"
    (is "rc_inv (set_tx u ?x c)")
proof (rule rc_inv_move [OF inv])
  let ?d = "rc_db c"
  note ok = tx_okD [OF rc_invD(4) [OF inv x(1)]]
  have P: "(P, f) \<in> set (updates (matches ?d) (tx_call x))" using us n by (metis nth_mem)
  have new: "tx_new x = []" using no_new [OF ok(2)] x(2) by simp
  note un = matched_unwritten [OF ok(1) new P r(1,4)]
  show "tx_ok ?d ?x"
    unfolding tx_ok_def
  proof (intro conjI)
    show "writes_ok ?d ?x"
      using ok(1) un(1) P r(4) unfolding writes_ok_def by (auto split: if_splits)
    show "new_ok ?d ?x" using new by (simp add: new_ok_def)
    show "released_ok ?d ?x" using ok(3) x(2) by (auto simp: released_ok_def split: if_splits)
    show "stage_ok (tx_call ?x) ?x" using stage_ok_working(2) [OF ok(4)] x(2) by simp
    have "ids - {bk_id r} \<union> dom ((tx_pend x)(bk_id r \<mapsto> f r)) = ids \<union> dom (tx_pend x)" using r(2) by auto
    then show "sweep_ok ?x" using ok(5) x(2) by (auto simp: sweep_ok_def)
    show "keys_ok ?d ?x" by (rule keys_ok_same [OF ok(6)]) (simp_all add: x(2))
  qed
  fix v y assume v: "v \<noteq> u" "rc_txs c v = Some y"
  have "tx_pend y (bk_id r) = None" using r(3) v by (auto simp: row_locked_def)
  moreover have "new_ok ?d y" using tx_okD(2) [OF rc_invD(4) [OF inv v(2)]] .
  ultimately show "apart ?x y"
    using x(2) by (intro apart_write [OF apart_commute [OF rc_invD(5) [OF inv v x(1)]] _ un(1) _ updates_demote [OF P] r(4)]) simp_all
qed

lemma inv_skip:
  assumes inv: "rc_inv c" and x: "rc_txs c u = Some x" "tx_pc x = Rows n ids" and us: "updates (matches (rc_db c)) (tx_call x) ! n = (P, f)"
    and r: "r \<in> set (tx_rows (rc_db c) x)" "\<not> P r"
  shows "rc_inv (set_tx u (x\<lparr>tx_pc := Rows n (ids - {bk_id r})\<rparr>) c)"
proof (rule inv_pc [OF inv x(1)])
  let ?d = "rc_db c"
  note ok = tx_okD [OF rc_invD(4) [OF inv x(1)]]
  have new: "tx_new x = []" using no_new [OF ok(2)] x(2) by simp
  show "released_ok ?d (x\<lparr>tx_pc := Rows n (ids - {bk_id r})\<rparr>)"
    unfolding released_ok_def
  proof (intro allI ballI impI)
    fix now m s b ttl key stale q
    assume call: "tx_call (x\<lparr>tx_pc := Rows n (ids - {bk_id r})\<rparr>) = HoldCall now m s b ttl key stale"
      and q: "q \<in> set (bookings ?d)" "previous_hold m s b q" "tx_pend (x\<lparr>tx_pc := Rows n (ids - {bk_id r})\<rparr>) (bk_id q) = None"
    have b: "n = 0" "bk_id q \<in> ids" using ok(3) call q x(2) by (auto simp: released_ok_def)
    have "bk_id q \<noteq> bk_id r"
    proof
      assume eq: "bk_id q = bk_id r"
      have "r \<in> set (merge_rows (tx_pend x) (bookings ?d))" using r(1) new by (simp add: tx_rows_def)
      moreover have "map bk_id (merge_rows (tx_pend x) (bookings ?d)) = map bk_id (bookings ?d)"
        using merge_ok(2) [OF rc_invD(1) [OF inv] ok(1)] .
      ultimately have "q = r"
        using distinct_key_eq [of bk_id "merge_rows (tx_pend x) (bookings ?d)" q r] eq q rc_invD(2) [OF inv]
          unwritten_in_merge [OF q(1), of "tx_pend x"] by simp
      then show False using r(2) q(2) us call b(1) by simp
    qed
    then show "before (tx_pc (x\<lparr>tx_pc := Rows n (ids - {bk_id r})\<rparr>)) (bk_id q)" using b by simp
  qed
  show "stage_ok (tx_call x) (x\<lparr>tx_pc := Rows n (ids - {bk_id r})\<rparr>)" using stage_ok_working(1) [OF ok(4)] x(2) by blast
  have "card (ids - {bk_id r} \<union> dom (tx_pend x)) \<le> card (ids \<union> dom (tx_pend x))" if "finite ids" "finite (dom (tx_pend x))"
    using that by (intro card_mono) auto
  moreover have "finite (dom (tx_pend x))"
  proof (rule finite_subset)
    show "dom (tx_pend x) \<subseteq> bk_id ` set (bookings ?d)" using ok(1) by (auto simp: writes_ok_def)
  qed simp
  ultimately show "sweep_ok (x\<lparr>tx_pc := Rows n (ids - {bk_id r})\<rparr>)" using ok(5) x(2) by (fastforce simp: sweep_ok_def)
qed (simp_all add: x(2))

lemma inv_next:
  assumes inv: "rc_inv c" and x: "rc_txs c u = Some x" "tx_pc x = Rows n {}"
  shows "rc_inv (set_tx u (x\<lparr>tx_pc := Scan (Suc n)\<rparr>) c)"
proof (rule inv_pc [OF inv x(1)])
  note ok = tx_okD [OF rc_invD(4) [OF inv x(1)]]
  show "released_ok (rc_db c) (x\<lparr>tx_pc := Scan (Suc n)\<rparr>)" using ok(3) x(2) by (fastforce simp: released_ok_def)
  show "stage_ok (tx_call x) (x\<lparr>tx_pc := Scan (Suc n)\<rparr>)" using stage_ok_working(1) [OF ok(4)] x(2) by blast
  show "sweep_ok (x\<lparr>tx_pc := Scan (Suc n)\<rparr>)" using ok(5) x(2) by (simp add: sweep_ok_def)
qed (simp_all add: x(2))

lemma inv_updated:
  assumes inv: "rc_inv c" and x: "rc_txs c u = Some x" "tx_pc x = Scan (length (updates (matches (rc_db c)) (tx_call x)))"
    and row: "needs_row (tx_call x) \<longrightarrow> tx_pend x \<noteq> Map.empty"
  shows "rc_inv (set_tx u (x\<lparr>tx_pc := after_updates (tx_call x)\<rparr>) c)"
proof (rule inv_pc [OF inv x(1)])
  note ok = tx_okD [OF rc_invD(4) [OF inv x(1)]]
  show "released_ok (rc_db c) (x\<lparr>tx_pc := after_updates (tx_call x)\<rparr>)" using ok(3) x(2) by (fastforce simp: released_ok_def)
  show "stage_ok (tx_call x) (x\<lparr>tx_pc := after_updates (tx_call x)\<rparr>)" using ok(4) x(2) row by (cases "tx_call x") auto
  show "sweep_ok (x\<lparr>tx_pc := after_updates (tx_call x)\<rparr>)" using ok(5) x(2) by (cases "tx_call x") (auto simp: sweep_ok_def)
qed (simp_all add: x(2))


lemma inv_insert:
  assumes inv: "rc_inv c" and x: "rc_txs c u = Some x" "tx_pc x = Inserting" "tx_call x = HoldCall now m s b ttl key stale"
    and i: "i = bookings_id_seq (rc_db c)" "i \<le> max_int64" and seat: "seat_exists m s (rc_db c)"
    and row: "row = new_hold i m s b (now + microseconds ttl) now"
    and mine: "\<forall>r \<in> set (tx_rows (rc_db c) x). \<not> clash row r"
    and others: "\<forall>v y. v \<noteq> u \<longrightarrow> rc_txs c v = Some y \<longrightarrow> (\<forall>r \<in> written y. \<not> clash row r)"
  shows "rc_inv (set_tx u (x\<lparr>tx_pc := after_insert (tx_call x), tx_new := [row]\<rparr>) (set_db ((rc_db c)\<lparr>bookings_id_seq := i + 1\<rparr>) c))"
    (is "rc_inv (set_tx u ?x (set_db ?d c))")
proof (rule rc_inv_set_tx [OF inv])
  note ok = tx_okD [OF rc_invD(4) [OF inv x(1)]]
  have seq: "in_sequence i (map bk_id (bookings (rc_db c)))" using rc_invD(3) [OF inv] by (simp add: i)
  have new: "tx_new x = []" using no_new [OF ok(2)] x(2) by simp
  have id: "bk_id row = i" by (simp add: row new_hold_def)
  show "drew (rc_db c) ?d" by (simp add: i)
  show "in_sequence (bookings_id_seq ?d) (map bk_id (bookings ?d))"
    using seq i(2) by (auto simp: in_sequence_def list_all_iff)
  show "tx_ok ?d ?x"
    unfolding tx_ok_def
  proof (intro conjI)
    show "writes_ok ?d ?x" using ok(1) by (simp add: writes_ok_def)
    have "seat_exists m s ?d" using seat by (simp add: seat_exists_def)
    then have "is_new ?d (tx_call ?x) row"
      using x(3) seq row id by (auto simp: in_sequence_def list_all_iff i(1))
    then show "new_ok ?d ?x" using mine x(3) by (simp add: new_ok_def tx_rows_def)
    show "released_ok ?d ?x" using ok(3) x(2) by (fastforce simp: released_ok_def)
    show "keys_ok ?d ?x" using ok(6) no_knew [OF ok(6)] x(2) by (simp add: keys_ok_def)
  qed (use ok(4) x(3) in \<open>auto simp: sweep_ok_def\<close>)
  fix v y assume v: "v \<noteq> u" "rc_txs c v = Some y"
  have ap: "apart x y" by (rule apart_commute [OF rc_invD(5) [OF inv v x(1)]])
  have w: "written ?x = insert row (written x)" using new by (auto simp: written_def)
  have "\<not> clash row r" if "r \<in> written y" for r using others v that by blast
  moreover have "\<not> clash r row" if "r \<in> set (tx_new y)" for r
    using others v that clash_sym [of r row] by (auto simp: written_def)
  moreover have "bk_id r < i" if "r \<in> set (tx_new y)" for r
  proof -
    have "is_new (rc_db c) (tx_call y) r"
      using tx_okD(2) [OF rc_invD(4) [OF inv v(2)]] that by (simp add: new_ok_def)
    then show ?thesis by (cases "tx_call y") (auto simp: i(1))
  qed
  ultimately show "apart ?x y"
    using ap x(2,3) unfolding apart_def w by (auto simp: holds_lock_def id)
qed

text \<open>The statements on \<open>idempotency_keys\<close> touch no booking.\<close>

lemma inv_keys:
  assumes inv: "rc_inv c" and x: "rc_txs c u = Some x" "tx_pc x \<noteq> Locking"
    and x': "tx_call x' = tx_call x" "tx_pend x' = tx_pend x" "tx_new x' = tx_new x"
    and new: "tx_new x = [] \<or> tx_pc x' = Ready"
    and rel: "released_ok (rc_db c) x'" and stage: "stage_ok (tx_call x) x'" and sweep: "sweep_ok x'" and keys: "keys_ok (rc_db c) x'"
    and others: "\<And>v y. v \<noteq> u \<Longrightarrow> rc_txs c v = Some y \<Longrightarrow>
      tx_kdel x' \<inter> tx_kdel y = {} \<and> (\<forall>k \<in> set (tx_knew x'). \<forall>k' \<in> set (tx_knew y). ik_key k \<noteq> ik_key k')"
  shows "rc_inv (set_tx u x' c)"
proof (rule rc_inv_move [OF inv])
  note ok = tx_okD [OF rc_invD(4) [OF inv x(1)]]
  have "new_ok (rc_db c) x'" using ok(2) new x' by (auto simp: new_ok_def)
  moreover have "writes_ok (rc_db c) x'" using ok(1) x' by (simp add: writes_ok_def)
  ultimately show "tx_ok (rc_db c) x'" using rel stage sweep keys x' by (simp add: tx_ok_def)
  fix v y assume v: "v \<noteq> u" "rc_txs c v = Some y"
  have "written x' = written x" using x' by (simp add: written_def)
  then show "apart x' y"
    using apart_commute [OF rc_invD(5) [OF inv v x(1)]] others [OF v] x' x(2) unfolding apart_def by (auto simp: holds_lock_def)
qed

lemma inv_clear:
  assumes inv: "rc_inv c" and x: "rc_txs c u = Some x" "tx_pc x = Clearing"
    and k: "k \<in> set (idempotency_keys (rc_db c))" "deletes (tx_call x) k" "\<not> key_locked c u k"
  shows "rc_inv (set_tx u (x\<lparr>tx_pc := Scan 0, tx_kdel := {k}\<rparr>) c)"
proof (rule inv_keys [OF inv x(1)])
  note ok = tx_okD [OF rc_invD(4) [OF inv x(1)]]
  have new: "tx_new x = []" "tx_knew x = []" using no_new [OF ok(2)] no_knew [OF ok(6)] x(2) by simp_all
  show "tx_new x = [] \<or> tx_pc (x\<lparr>tx_pc := Scan 0, tx_kdel := {k}\<rparr>) = Ready" by (simp add: new)
  show "released_ok (rc_db c) (x\<lparr>tx_pc := Scan 0, tx_kdel := {k}\<rparr>)" by (simp add: released_ok_def)
  show "stage_ok (tx_call x) (x\<lparr>tx_pc := Scan 0, tx_kdel := {k}\<rparr>)" using ok(4) x(2) by (cases "tx_call x") auto
  show "sweep_ok (x\<lparr>tx_pc := Scan 0, tx_kdel := {k}\<rparr>)" using ok(5) x(2) by (auto simp: sweep_ok_def)
  show "keys_ok (rc_db c) (x\<lparr>tx_pc := Scan 0, tx_kdel := {k}\<rparr>)" using k new by (simp add: keys_ok_def)
qed (use x(2) k(3) no_knew [OF tx_okD(6) [OF rc_invD(4) [OF inv x(1)]]] in \<open>auto simp: key_locked_def\<close>)

lemma inv_record:
  assumes inv: "rc_inv c" and x: "rc_txs c u = Some x" "tx_pc x = Recording" "tx_call x = HoldCall now m s b ttl key stale"
    and k: "\<forall>k \<in> set (idempotency_keys (rc_db c)). ik_key k = key \<longrightarrow> k \<in> tx_kdel x" "\<not> key_pending c u key"
  shows "rc_inv (set_tx u (x\<lparr>tx_pc := Ready,
    tx_knew := [\<lparr>ik_key = key, ik_booking_id = bk_id (hd (tx_new x)), ik_created_at = now\<rparr>]\<rparr>) c)" (is "rc_inv (set_tx u ?x c)")
proof (rule inv_keys [OF inv x(1)])
  note ok = tx_okD [OF rc_invD(4) [OF inv x(1)]]
  show "released_ok (rc_db c) ?x" using ok(3) x(2) by (auto simp: released_ok_def)
  show "stage_ok (tx_call x) ?x" using ok(4) x(2,3) by simp
  show "sweep_ok ?x" using x(3) by (simp add: sweep_ok_def)
  show "keys_ok (rc_db c) ?x" using ok(4,6) k(1) x(2,3) by (simp add: keys_ok_def)
  fix v y assume v: "v \<noteq> u" "rc_txs c v = Some y"
  then show "tx_kdel ?x \<inter> tx_kdel y = {} \<and> (\<forall>k \<in> set (tx_knew ?x). \<forall>k' \<in> set (tx_knew y). ik_key k \<noteq> ik_key k')"
    using rc_invD(5) [OF inv v x(1)] k(2) by (auto simp: key_pending_def apart_def)
qed (simp_all add: x(2))

lemma inv_scan_keys:
  assumes inv: "rc_inv c" and x: "rc_txs c u = Some x" "tx_pc x = KeyScan" "tx_call x = PruneCall now old limit"
    and ks: "ks \<subseteq> {k \<in> set (idempotency_keys (rc_db c)). deletes (tx_call x) k}" "0 \<le> limit" "int (card ks) \<le> limit"
  shows "rc_inv (set_tx u (x\<lparr>tx_pc := KeyRows ks\<rparr>) c)"
proof (rule inv_pc [OF inv x(1)])
  note ok = tx_okD [OF rc_invD(4) [OF inv x(1)]]
  have "finite ks" using ks(1) by (rule finite_subset) simp
  then show "sweep_ok (x\<lparr>tx_pc := KeyRows ks\<rparr>)" using ok(5) x(2,3) ks(2,3) by (simp add: sweep_ok_def)
  show "stage_ok (tx_call x) (x\<lparr>tx_pc := KeyRows ks\<rparr>)" using ok(4) x(3) by simp
qed (simp_all add: x(2,3) released_ok_def)

lemma inv_drop:
  assumes inv: "rc_inv c" and x: "rc_txs c u = Some x" "tx_pc x = KeyRows ks" and k: "k \<in> ks" "\<not> key_locked c u k"
  shows "rc_inv (set_tx u (x\<lparr>tx_pc := KeyRows (ks - {k}),
    tx_kdel := if k \<in> set (idempotency_keys (rc_db c)) \<and> deletes (tx_call x) k then insert k (tx_kdel x) else tx_kdel x\<rparr>) c)"
    (is "rc_inv (set_tx u ?x c)")
proof (rule inv_keys [OF inv x(1)])
  note ok = tx_okD [OF rc_invD(4) [OF inv x(1)]]
  have new: "tx_new x = []" "tx_knew x = []" using no_new [OF ok(2)] no_knew [OF ok(6)] x(2) by simp_all
  show "tx_new x = [] \<or> tx_pc ?x = Ready" by (simp add: new)
  show "released_ok (rc_db c) ?x" using ok(3) x(2) by (auto simp: released_ok_def)
  show "stage_ok (tx_call x) ?x" using ok(4) x(2) by (cases "tx_call x") auto
  have "ks - {k} \<union> tx_kdel ?x \<subseteq> ks \<union> tx_kdel x" using k(1) by auto
  moreover have "finite (tx_kdel x)"
    by (rule finite_subset [of _ "set (idempotency_keys (rc_db c))"]) (use ok(6) in \<open>auto simp: keys_ok_def\<close>)
  ultimately have "card (ks - {k} \<union> tx_kdel ?x) \<le> card (ks \<union> tx_kdel x)" if "finite ks"
    using that by (intro card_mono) auto
  then show "sweep_ok ?x" using ok(5) x(2) by (fastforce simp: sweep_ok_def)
  show "keys_ok (rc_db c) ?x" using ok(6) new by (auto simp: keys_ok_def)
  fix v y assume v: "v \<noteq> u" "rc_txs c v = Some y"
  then have "tx_kdel x \<inter> tx_kdel y = {}" "k \<notin> tx_kdel y"
    using rc_invD(5) [OF inv v x(1)] k(2) by (auto simp: key_locked_def apart_def)
  then show "tx_kdel ?x \<inter> tx_kdel y = {} \<and> (\<forall>k \<in> set (tx_knew ?x). \<forall>k' \<in> set (tx_knew y). ik_key k \<noteq> ik_key k')"
    by (simp add: new)
qed (simp_all add: x(2))

lemma inv_pruned:
  assumes inv: "rc_inv c" and x: "rc_txs c u = Some x" "tx_pc x = KeyRows {}" "tx_call x = PruneCall now old limit"
  shows "rc_inv (set_tx u (x\<lparr>tx_pc := Ready\<rparr>) c)"
proof (rule inv_pc [OF inv x(1)])
  note ok = tx_okD [OF rc_invD(4) [OF inv x(1)]]
  show "stage_ok (tx_call x) (x\<lparr>tx_pc := Ready\<rparr>)" using ok(4) x(3) by simp
  show "released_ok (rc_db c) (x\<lparr>tx_pc := Ready\<rparr>)" using x(3) by (simp add: released_ok_def)
  show "sweep_ok (x\<lparr>tx_pc := Ready\<rparr>)" using ok(5) x(2) by (simp add: sweep_ok_def)
qed (simp_all add: x(2))

text \<open>The inserts of a cancellation touch no booking.\<close>

lemma inv_side:
  assumes inv: "rc_inv c" and x: "rc_txs c u = Some x" "tx_pc x = Refunding \<or> tx_pc x = Notifying" "tx_call x = CancelCall now i b"
    and drew: "drew (rc_db c) d" "bookings_id_seq d = bookings_id_seq (rc_db c)"
    and x': "tx_call x' = tx_call x" "tx_pend x' = tx_pend x" "tx_new x' = tx_new x"
      "tx_kdel x' = tx_kdel x" "tx_knew x' = tx_knew x" and stage: "stage_ok (tx_call x) x'"
  shows "rc_inv (set_tx u x' (set_db d c))"
proof (rule rc_inv_set_tx [OF inv drew(1)])
  note ok = tx_okD [OF rc_invD(4) [OF inv x(1)]]
  have new: "tx_new x = []" using no_new [OF ok(2)] x(2) by auto
  have same: "bookings d = bookings (rc_db c)" "matches d = matches (rc_db c)" "idempotency_keys d = idempotency_keys (rc_db c)"
    using drew(1) by (simp_all add: drew_def same_tables_def)
  show "in_sequence (bookings_id_seq d) (map bk_id (bookings d))" using rc_invD(3) [OF inv] by (simp add: drew(2) same)
  have "keys_ok d x'" using keys_ok_same [OF ok(6) _ same(3) x'(1,4,5)] x(2) by auto
  then show "tx_ok d x'"
    using ok(1) new x(3) x' stage by (auto simp: tx_ok_def writes_ok_def new_ok_def released_ok_def sweep_ok_def same)
  fix v y assume v: "v \<noteq> u" "rc_txs c v = Some y"
  show "apart x' y"
    using apart_commute [OF rc_invD(5) [OF inv v x(1)]] x(3) x' by (auto simp: apart_def written_def holds_lock_def)
qed

text \<open>A commit: the others find their rows unchanged, and what is new clashes with nothing of theirs.\<close>

lemma committed_for_others:
  assumes ok: "bookings_ok d (bookings d)" and x: "tx_ok d x" "tx_pc x \<noteq> Locking" and y: "tx_ok d y" and ap: "apart x y"
  shows "tx_ok (commit_db x d) y"
proof -
  let ?d = "commit_db x d"
  note xo = tx_okD [OF x(1)] and yo = tx_okD [OF y]
  have rows: "bookings ?d = tx_rows d x" "matches ?d = matches d" "bookings_id_seq ?d = bookings_id_seq d"
      "\<And>m s. seat_exists m s ?d = seat_exists m s d"
    by (simp_all add: commit_db_def seat_exists_def)
  have ids: "bk_id ` set (merge_rows (tx_pend x) (bookings d)) = bk_id ` set (bookings d)"
    using merge_ok(2) [OF ok xo(1)] by (metis list.set_map)
  have keep: "r \<in> set (tx_rows d x)" if "r \<in> set (bookings d)" "bk_id r \<in> dom (tx_pend y)" for r
    using that ap unwritten_in_merge [of r "bookings d" "tx_pend x"] by (auto simp: apart_def tx_rows_def)
  have "writes_ok ?d y"
    using yo(1) keep unfolding writes_ok_def rows by blast
  moreover have "new_ok ?d y"
    unfolding new_ok_def
  proof (intro conjI ballI)
    fix r assume r: "r \<in> set (tx_new y)"
    note old = yo(2) [unfolded new_ok_def, THEN conjunct2, rule_format, OF r]
    show "tx_pc y = Recording \<or> tx_pc y = Ready" using old by simp
    have "bk_id r \<notin> bk_id ` set (bookings d)" using old by (cases "tx_call y") simp_all
    moreover have "\<forall>q \<in> set (tx_new x). bk_id q \<noteq> bk_id r" using ap r unfolding apart_def by blast
    ultimately have "bk_id r \<notin> bk_id ` set (tx_rows d x)" using ids by (auto simp: tx_rows_def image_Un)
    then show "is_new ?d (tx_call y) r" using old rows by (cases "tx_call y") simp_all
    fix q assume "q \<in> set (merge_rows (tx_pend y) (bookings ?d))"
    then show "\<not> clash r q"
    proof (cases rule: in_merge_cases)
      case 1
      then have "q \<in> set (merge_rows (tx_pend x) (bookings d)) \<or> q \<in> set (tx_new x)" by (simp add: rows tx_rows_def)
      then consider "q \<in> written x" | "q \<in> set (bookings d)"
        by (auto simp: written_def ran_def elim!: in_merge_cases)
      then show ?thesis
      proof cases
        case 2
        then show ?thesis using old unwritten_in_merge [of q "bookings d" "tx_pend y"] 1(2) by blast
      qed (use ap r in \<open>auto simp: apart_def\<close>)
    next
      case (2 q0)
      from writes_okD [OF yo(1) 2(2)] obtain q1 P f where "q1 \<in> set (bookings d)" "bk_id q1 = bk_id q0" .
      then have "q \<in> set (merge_rows (tx_pend y) (bookings d))" using 2(2) by (force simp: set_merge_rows)
      then show ?thesis using old by blast
    qed
  qed (use yo(2) in \<open>simp add: new_ok_def\<close>)
  moreover have "released_ok ?d y"
    unfolding released_ok_def
  proof (intro allI ballI impI)
    fix now m s b ttl key stale r
    assume call: "tx_call y = HoldCall now m s b ttl key stale" and r: "r \<in> set (bookings ?d)" "previous_hold m s b r" "tx_pend y (bk_id r) = None"
    have old: "before (tx_pc y) (bk_id q)" if "q \<in> set (bookings d)" "previous_hold m s b q" "tx_pend y (bk_id q) = None" for q
      using yo(3) call that by (simp add: released_ok_def)
    from r(1) consider "r \<in> set (merge_rows (tx_pend x) (bookings d))" | "r \<in> set (tx_new x)" by (auto simp: rows tx_rows_def)
    then show "before (tx_pc y) (bk_id r)"
    proof cases
      case 1
      then show ?thesis
      proof (cases rule: in_merge_cases)
        case (2 q)
        from writes_okD [OF xo(1) 2(2)] obtain q1 P f where q: "q1 \<in> set (bookings d)" "bk_id q1 = bk_id q"
            "(P, f) \<in> set (updates (matches d) (tx_call x))" "P q1" "r = f q1" .
        note dm = demoted [OF updates_demote [OF q(3)] q(4)]
        have "previous_hold m s b q1" using r(2) dm q(5) by (auto simp: previous_hold_def row_defs)
        then show ?thesis using old [OF q(1)] r(3) dm(1) q(5) by simp
      qed (use old r in blast)
    next
      case 2
      then have "is_new d (tx_call x) r" using xo(2) by (simp add: new_ok_def)
      then have "lock_of (tx_call x) = Some (bk_match_id r, bk_buyer_id r)"
        by (cases "tx_call x") (auto dest!: arg_cong [of r _ "\<lambda>r. (bk_match_id r, bk_buyer_id r)"] simp: new_hold_def)
      then have "holds_lock x (m, b)" using r(2) x(2) by (simp add: holds_lock_def previous_hold_def)
      then have "tx_pc y = Locking" using ap call unfolding apart_def holds_lock_def by fastforce
      then show ?thesis by simp
    qed
  qed
  moreover have "keys_ok ?d y"
  proof -
    have "\<forall>k \<in> set (tx_knew y). \<forall>k' \<in> set (tx_knew x). ik_key k' \<noteq> ik_key k" and "tx_kdel x \<inter> tx_kdel y = {}"
      using ap unfolding apart_def by blast+
    then show ?thesis using yo(6) unfolding keys_ok_def by (auto simp: commit_db_def)
  qed
  ultimately show ?thesis using yo by (simp add: tx_ok_def)
qed

lemma commit_keys_distinct:
  assumes "distinct (map ik_key (idempotency_keys d))" and "keys_ok d x"
  shows "distinct (map ik_key (idempotency_keys (commit_db x d)))"
proof -
  consider "tx_knew x = []" | k where "tx_knew x = [k]" using assms(2) by (cases "tx_knew x") (auto simp: keys_ok_def)
  then show ?thesis
    using assms by cases (auto simp: keys_ok_def commit_db_def distinct_map_filter)
qed

lemma inv_commit:
  assumes inv: "rc_inv c" and x: "rc_txs c u = Some x" "tx_pc x = Ready"
  shows "rc_inv (end_tx u (set_db (commit_db x (rc_db c)) c))"
proof -
  let ?d = "commit_db x (rc_db c)"
  note ok = commit_rows_ok [OF rc_invD(1,3) [OF inv] rc_invD(4) [OF inv x(1)]]
  have 1: "bookings_ok ?d (bookings ?d)" using ok(1) by (simp add: commit_db_def)
  have 2: "in_sequence (bookings_id_seq ?d) (map bk_id (bookings ?d))" using ok(2) by (simp add: commit_db_def)
  have 3: "tx_ok ?d y" if "v \<noteq> u" "rc_txs c v = Some y" for v y
    using x(2) by (intro committed_for_others [OF rc_invD(1) [OF inv] rc_invD(4) [OF inv x(1)] _ rc_invD(4) [OF inv that(2)]
        apart_commute [OF rc_invD(5) [OF inv that x(1)]]]) simp
  have 4: "distinct (map ik_key (idempotency_keys ?d))"
    using commit_keys_distinct [OF _ tx_okD(6) [OF rc_invD(4) [OF inv x(1)]]] inv by (simp add: rc_inv_def)
  show ?thesis using 1 2 3 4 inv unfolding rc_inv_def by (auto split: if_splits)
qed

lemma rc_inv_step:
  assumes "rc_step c ev c'" and inv: "rc_inv c"
  shows "rc_inv c'"
  using assms(1)
proof (cases rule: rc_step.cases)
  case (begin_call u call)
  then show ?thesis using inv_begin [OF inv] by simp
next
  case (take_lock u x k)
  then show ?thesis using inv_lock [OF inv] by simp
next
  case (no_stale_key u x)
  note ok = tx_okD [OF rc_invD(4) [OF inv no_stale_key(3)]]
  show ?thesis
    unfolding no_stale_key(2)
  proof (rule inv_pc [OF inv no_stale_key(3)])
    show "stage_ok (tx_call x) (x\<lparr>tx_pc := Scan 0\<rparr>)" using ok(4) no_stale_key(4) by (cases "tx_call x") auto
    show "sweep_ok (x\<lparr>tx_pc := Scan 0\<rparr>)" using ok(5) no_stale_key(4) by (auto simp: sweep_ok_def)
  qed (simp_all add: no_stale_key(4) released_ok_def)
next
  case (clear_key u x k)
  show ?thesis unfolding clear_key(2) by (rule inv_clear [OF inv clear_key(3-7)])
next
  case (record_key u x now m s b ttl key stale)
  show ?thesis unfolding record_key(2) by (rule inv_record [OF inv record_key(3-7)])
next
  case (refuse_key u x now m s b ttl key stale k)
  then show ?thesis using rc_inv_end_tx [OF inv, of "rc_db c"] rc_invD(3) [OF inv] by simp
next
  case (scan_keys u x now old limit ks)
  show ?thesis unfolding scan_keys(2) by (rule inv_scan_keys [OF inv scan_keys(3-8)])
next
  case (drop_key u x ks k)
  show ?thesis unfolding drop_key(2) by (rule inv_drop [OF inv drop_key(3-6)])
next
  case (pruned u x now old limit)
  show ?thesis unfolding pruned(2) by (rule inv_pruned [OF inv pruned(3-5)])
next
  case (scan u x n us ids)
  then show ?thesis using inv_scan [OF inv] by simp
next
  case (write_row u x n ids P f r)
  show ?thesis
  proof (cases "P r")
    case True
    then show ?thesis unfolding write_row(2) if_P [OF True] by (intro inv_write [OF inv write_row(3,4,6,5,7,8,9)])
  next
    case False
    show ?thesis using inv_skip [OF inv write_row(3,4,6,7) False] by (simp add: write_row(2) False)
  qed
next
  case (next_update u x n)
  then show ?thesis using inv_next [OF inv] by simp
next
  case (updated u x)
  then show ?thesis using inv_updated [OF inv] by simp
next
  case (no_row u x)
  then show ?thesis using rc_inv_end_tx [OF inv, of "rc_db c"] rc_invD(3) [OF inv] by simp
next
  case (insert_hold u x now m s b ttl key stale i row)
  show ?thesis unfolding insert_hold(2) by (rule inv_insert [OF inv insert_hold(3-11)])
next
  case (refuse_hold u x now m s b ttl key stale i row r)
  have "in_sequence (i + 1) (map bk_id (bookings (rc_db c)))"
    using rc_invD(3) [OF inv] refuse_hold(6,7) by (auto simp: in_sequence_def list_all_iff)
  then show ?thesis
    unfolding refuse_hold(2) by (intro rc_inv_end_tx [OF inv]) (simp_all add: refuse_hold(6))
next
  case (insert_refund u x now i b j)
  have "stage_ok (tx_call x) x" using tx_okD(4) [OF rc_invD(4) [OF inv insert_refund(3)]] .
  then show ?thesis
    unfolding insert_refund(2) using insert_refund(3-7) by (intro inv_side [OF inv insert_refund(3)]) (auto simp: refund_of_def)
next
  case (insert_event u x now i b k)
  have "stage_ok (tx_call x) x" using tx_okD(4) [OF rc_invD(4) [OF inv insert_event(3)]] .
  then show ?thesis
    unfolding insert_event(2) using insert_event(3-7) by (intro inv_side [OF inv insert_event(3)]) (auto simp: refund_of_def event_for_def)
next
  case (commit_call u x)
  then show ?thesis using inv_commit [OF inv] by simp
next
  case (abort_call u x)
  then show ?thesis using rc_inv_end_tx [OF inv, of "rc_db c"] rc_invD(3) [OF inv] by simp
qed

lemma rc_inv_start: "rc_start c \<Longrightarrow> rc_inv c"
  by (simp add: rc_start_def rc_inv_def schema_inv_def)

interpretation rc: invariant rc_start rc_next rc_inv
  by unfold_locales (auto simp: rc_next_def intro: rc_inv_start rc_inv_step)

end
