(* ===== verification/Serialisation.thy ===== *)
theory Serialisation
  imports ReadCommitted
begin

text \<open>
  What the interleaved transactions of \<open>ReadCommitted\<close> come to: a commit does to the tables exactly what the serial
  operation of the store does to the tables it finds at that moment, and no other step changes a table. The
  rest of the development may therefore run a transaction as one step.
\<close>

section \<open>The serial operations\<close>

text \<open>
  The operations of the store without faults. A sequence may stand at another value than the one the transaction
  drew, since transactions that draw in one order may commit in another.
\<close>

fun serial :: "booking_call \<Rightarrow> db \<Rightarrow> db \<Rightarrow> bool" where
  "serial (HoldCall now m s b ttl key stale) d d' \<longleftrightarrow>
     (\<exists>env row. tx_fault_free env \<and> he_tx_now env = now \<and> hold_tx env m s b ttl key stale d = (Inr row, d'))"
| "serial (ConfirmCall now i b) d d' \<longleftrightarrow> (\<exists>row. ConfirmHold NoFault now i b d = (Inr row, d'))"
| "serial (ReleaseCall now i b) d d' \<longleftrightarrow> (\<exists>m. ReleaseHold NoFault now i b d = (Inr m, d'))"
| "serial (CancelCall now i b) d d' \<longleftrightarrow>
     (\<exists>row. CancelBooking \<lparr>ce_now = now, ce_fault = \<lambda>_. NoFault\<rparr> i b d = (Inr row, d'))"
| "serial (SweepCall now limit) d d' \<longleftrightarrow> (\<exists>locked n. SweepExpiredHolds NoFault now locked limit d = (Inr n, d'))"
| "serial (PruneCall now old limit) d d' \<longleftrightarrow> (\<exists>locked n. PruneIdempotencyKeys NoFault now locked old limit d = (Inr n, d'))"

definition serialises :: "booking_call \<Rightarrow> db \<Rightarrow> db \<Rightarrow> bool" where
  "serialises call d d' \<longleftrightarrow> (\<exists>d0 d1. same_tables d d0 \<and> serial call d0 d1 \<and> same_tables d1 d')"


section \<open>Hold\<close>

lemma hold_merge:
  assumes ok: "tx_ok d x" and pc: "tx_pc x = Ready" and call: "tx_call x = HoldCall now m s b ttl key stale" and new: "tx_new x = [row]"
    and dist: "distinct (map bk_id (bookings d))"
  shows "merge_rows (tx_pend x) (bookings d) = hold_rows now m s b (bookings d)"
  unfolding merge_rows_def hold_rows_map
proof (rule map_cong [OF refl])
  fix r assume r: "r \<in> set (bookings d)"
  note o = tx_okD [OF ok]
  have row: "seat_key row = (m, s)" "active row"
    using o(2) new call by (auto simp: new_ok_def dest!: arg_cong [of row _ "\<lambda>r. (seat_key r, active r)"] simp: new_hold_def row_defs)
  have written: "previous_hold m s b r \<and> q = cancel_row now r \<or> stale_hold now m s r \<and> q = expire_row r"
    if q: "tx_pend x (bk_id r) = Some q" for q
  proof -
    from writes_okD [OF o(1) q] obtain r1 P f where "r1 \<in> set (bookings d)" "bk_id r1 = bk_id r"
        "(P, f) \<in> set (updates (matches d) (tx_call x))" "P r1" "q = f r1" .
    moreover from this have "r1 = r" using distinct_key_eq [OF dist _ r] by blast
    ultimately show ?thesis using call by auto
  qed
  have "\<not> previous_hold m s b r" if "tx_pend x (bk_id r) = None"
    using o(3) call r that pc by (auto simp: released_ok_def)
  moreover have "\<not> stale_hold now m s r" if "tx_pend x (bk_id r) = None"
  proof
    assume st: "stale_hold now m s r"
    have "\<not> clash row r" using o(2) new unwritten_in_merge [of r "bookings d" "tx_pend x", OF r that] by (simp add: new_ok_def)
    then show False using row st by (auto simp: clash_def stale_hold_def row_defs)
  qed
  moreover have "\<not> (previous_hold m s b r \<and> stale_hold now m s r)" by (auto simp: previous_hold_def stale_hold_def)
  ultimately show "(case tx_pend x (bk_id r) of None \<Rightarrow> r | Some r' \<Rightarrow> r') = hold_row now m s b r"
    using written by (auto simp: hold_row_def split: option.splits)
qed

definition plain_env :: "time \<Rightarrow> hold_env" where
  "plain_env now = \<lparr>he_lookup_now = now, he_before_tx = (\<lambda>d. d), he_tx_now = now, he_before_replay = (\<lambda>d. d),
                    he_replay_now = now, he_fault = (\<lambda>_. NoFault)\<rparr>"

lemma plain_env_simps [simp]:
  "tx_fault_free (plain_env now)" "he_tx_now (plain_env now) = now" "he_fault (plain_env now) site = NoFault"
  by (simp_all add: plain_env_def tx_fault_free_def)

text \<open>The keys a transaction leaves are those the serial \<open>DELETE\<close> leaves.\<close>

lemma hold_keys:
  assumes ok: "tx_ok d x" and pc: "tx_pc x = Ready" and call: "tx_call x = HoldCall now m s b ttl key stale" and new: "tx_new x = [row]"
  shows "filter (\<lambda>k. k \<notin> tx_kdel x) (idempotency_keys d) = keys_cleared key stale d" (is ?cleared)
    and "tx_knew x = (if key \<noteq> '''' then [\<lparr>ik_key = key, ik_booking_id = bk_id row, ik_created_at = now\<rparr>] else [])" (is ?recorded)
    and "key \<notin> ik_key ` set (keys_cleared key stale d) \<or> key = ''''" (is ?free)
proof -
  note o = tx_okD [OF ok]
  have stage: "key \<noteq> '''' \<longrightarrow> tx_knew x \<noteq> []" "key = '''' \<longrightarrow> stale = 0" using o(4) call pc by auto
  have kd: "tx_kdel x \<subseteq> {k \<in> set (idempotency_keys d). deletes (tx_call x) k}" using o(6) by (simp add: keys_ok_def)
  have kn: "k = \<lparr>ik_key = key, ik_booking_id = bk_id row, ik_created_at = now\<rparr> \<and> key \<noteq> ''''
      \<and> (\<forall>q \<in> set (idempotency_keys d). ik_key q = key \<longrightarrow> q \<in> tx_kdel x)" if "k \<in> set (tx_knew x)" for k
    using o(6) that new unfolding keys_ok_def call by auto
  show ?recorded
    using stage(1) kn o(6) by (cases "tx_knew x") (auto simp: keys_ok_def)
  have all: "\<forall>q \<in> set (idempotency_keys d). ik_key q = key \<longrightarrow> q \<in> tx_kdel x" if "key \<noteq> ''''"
    using stage(1) kn that by (cases "tx_knew x") auto
  then have "k \<in> tx_kdel x \<longleftrightarrow> deletes (tx_call x) k" if "k \<in> set (idempotency_keys d)" for k
    using kd that stage(2) call by auto
  then show cleared: ?cleared by (auto simp: keys_cleared_def call intro: filter_cong)
  show ?free
  proof (cases "key = ''''")
    case False
    then have "key \<notin> ik_key ` set (filter (\<lambda>k. k \<notin> tx_kdel x) (idempotency_keys d))" using all by auto
    then show ?thesis unfolding cleared by blast
  qed simp
qed

lemma hold_serialises:
  assumes inv: "rc_inv c" and x: "rc_txs c u = Some x" "tx_pc x = Ready" "tx_call x = HoldCall now m s b ttl key stale"
  shows "serialises (HoldCall now m s b ttl key stale) (rc_db c) (commit_db x (rc_db c))"
proof -
  let ?d = "rc_db c"
  note tx = rc_invD(4) [OF inv x(1)]
  note ok = tx_okD [OF tx]
  obtain row where new: "tx_new x = [row]"
    using ok(2,4) x(2,3) by (cases "tx_new x") (auto simp: new_ok_def)
  note keys = hold_keys [OF tx x(2,3) new]
  have row: "row = new_hold (bk_id row) m s b (now + microseconds ttl) now" "bk_id row < bookings_id_seq ?d"
    using ok(2) new x(3) by (auto simp: new_ok_def)
  have rows: "tx_rows ?d x = hold_rows now m s b (bookings ?d) @ [row]"
    using hold_merge [OF tx x(2,3) new rc_invD(2) [OF inv]] by (simp add: tx_rows_def new)
  define d0 where "d0 = ?d\<lparr>bookings_id_seq := bk_id row\<rparr>"
  have seq: "bk_id row \<le> max_int64" using row(2) rc_invD(3) [OF inv] by (simp add: in_sequence_def)
  have ok0: "bookings_ok d0 (bookings d0)" using rc_invD(1) [OF inv] by (simp add: d0_def)
  have ok1: "bookings_ok ?d (hold_rows now m s b (bookings ?d) @ [row])"
    using commit_rows_ok(1) [OF rc_invD(1,3) [OF inv] tx] by (simp add: rows)
  have cleared: "keys_cleared key stale d0 = keys_cleared key stale ?d" by (simp add: keys_cleared_def d0_def)
  let ?b = "before_insert (plain_env now) m s b key stale d0"
  let ?i = "?b\<lparr>bookings_id_seq := bk_id row + 1, bookings := hold_rows now m s b (bookings ?d) @ [row]\<rparr>"
  have insert: "sql_insert_hold now m s b (microseconds ttl) ?b = (Inr row, ?i)"
    using seq ok1 row(1) [symmetric]
    by (simp add: sql_insert_hold_def Let_def write_bookings_ok before_insert_def d0_def)
  then have inserted: "mapErrA insert_failure (sql_insert_hold now m s b (microseconds ttl)) ?b = (Inr row, ?i)" by simp
  define d1 where "d1 = ?i\<lparr>idempotency_keys := keys_cleared key stale ?d @ tx_knew x\<rparr>"
  have recorded: "(if key \<noteq> '''' then mapErrA record_failure (sql_record_key now key (bk_id row)) else returnA ()) ?i = (Inr (), d1)"
    using keys(2,3) by (auto simp: d1_def sql_record_key_def mapErrA_def before_insert_def cleared returnA_def)
  have "hold_body (plain_env now) m s b ttl key stale d0 = (Inr (booking_row_of row), d1)"
    unfolding hold_body_to_insert [OF ok0 plain_env_simps(1)] plain_env_simps
    by (subst bindA_eval(1), rule inserted, subst bindA_eval(1), rule recorded, simp add: returnA_def)
  then have "hold_tx (plain_env now) m s b ttl key stale d0 = (Inr (booking_row_of row), d1)"
    by (simp add: hold_tx_def in_tx_def)
  then have "serial (HoldCall now m s b ttl key stale) d0 d1"
    by (auto intro!: exI [of _ "plain_env now"])
  moreover have "same_tables ?d d0" by (simp add: d0_def same_tables_def)
  moreover have "tx_refund x = []" "tx_event x = []" using ok(4) x(3) by simp_all
  then have "same_tables d1 (commit_db x ?d)"
    by (simp add: same_tables_def commit_db_def rows keys(1) d1_def before_insert_def d0_def)
  ultimately show ?thesis unfolding serialises_def by blast
qed

text \<open>The other calls leave the keys alone.\<close>

lemma no_keys:
  assumes "keys_ok d x" and "\<forall>k. \<not> deletes (tx_call x) k" and "lock_of (tx_call x) = None"
  shows "tx_kdel x = {}" "tx_knew x = []"
proof -
  show "tx_kdel x = {}" using assms(1,2) by (auto simp: keys_ok_def)
  show "tx_knew x = []" using assms(1,3) by (cases "tx_knew x"; cases "tx_call x") (auto simp: keys_ok_def)
qed


section \<open>Confirm, release and cancel\<close>

text \<open>A compare-and-swap on the primary key that wrote a row.\<close>

lemma cas_merge:
  assumes ok: "writes_ok d x" and us: "updates (matches d) (tx_call x) = [(\<lambda>r. bk_id r = i \<and> Q r, f)]"
    and pend: "tx_pend x \<noteq> Map.empty" and dist: "distinct (map bk_id (bookings d))"
  obtains r where "r \<in> set (bookings d)" "bk_id r = i" "Q r"
    "merge_rows (tx_pend x) (bookings d) = update_where (\<lambda>r. bk_id r = i \<and> Q r) f (bookings d)"
proof -
  have only: "\<exists>r \<in> set (bookings d). bk_id r = i \<and> j = i \<and> Q r \<and> r' = f r" if "tx_pend x j = Some r'" for j r'
  proof -
    from writes_okD [OF ok that] obtain r P g where "r \<in> set (bookings d)" "bk_id r = j"
        "(P, g) \<in> set (updates (matches d) (tx_call x))" "P r" "r' = g r" .
    then show ?thesis using us by auto
  qed
  obtain j r' where "tx_pend x j = Some r'" using pend by (meson ext not_Some_eq)
  then obtain r where r: "r \<in> set (bookings d)" "bk_id r = i" "Q r" and w: "tx_pend x i = Some (f r)" using only by blast
  have "(case tx_pend x (bk_id q) of None \<Rightarrow> q | Some q' \<Rightarrow> q') = (if bk_id q = i \<and> Q q then f q else q)"
    if q: "q \<in> set (bookings d)" for q
  proof (cases "bk_id q = i")
    case True
    then have "q = r" using distinct_key_eq [OF dist q r(1)] r(2) by simp
    then show ?thesis using w r by simp
  next
    case False
    then have "tx_pend x (bk_id q) = None" using only by (cases "tx_pend x (bk_id q)") auto
    then show ?thesis using False by simp
  qed
  then have "merge_rows (tx_pend x) (bookings d) = update_where (\<lambda>r. bk_id r = i \<and> Q r) f (bookings d)"
    by (simp add: merge_rows_def update_where_def)
  then show thesis using that r by blast
qed

lemma no_new_row: "new_ok d x \<Longrightarrow> lock_of (tx_call x) = None \<Longrightarrow> tx_new x = []"
  by (cases "tx_call x"; cases "tx_new x") (auto simp: new_ok_def)

lemma cas_serialises:
  assumes inv: "rc_inv c" and x: "rc_txs c u = Some x" "tx_pc x = Ready"
    and call: "tx_call x = ConfirmCall now i b \<or> tx_call x = ReleaseCall now i b \<or> tx_call x = CancelCall now i b"
  shows "serialises (tx_call x) (rc_db c) (commit_db x (rc_db c))"
proof -
  let ?d = "rc_db c"
  note ok = tx_okD [OF rc_invD(4) [OF inv x(1)]]
  have rows: "tx_rows ?d x = merge_rows (tx_pend x) (bookings ?d)"
    using no_new_row [OF ok(2)] call by (auto simp: tx_rows_def)
  have pend: "tx_pend x \<noteq> Map.empty" using ok(4) x(2) call by auto
  have keys: "tx_kdel x = {}" "tx_knew x = []" by (rule no_keys [OF ok(6)]; use call in auto)+
  note cas = cas_merge [OF ok(1) _ pend rc_invD(2) [OF inv]]
  from call show ?thesis
  proof (elim disjE)
    assume call: "tx_call x = ConfirmCall now i b"
    have us: "updates (matches ?d) (tx_call x) = [(\<lambda>r. bk_id r = i \<and> confirmable now b r, confirm_row now)]" by (simp add: call)
    obtain r where r: "r \<in> set (bookings ?d)" "bk_id r = i" "confirmable now b r"
      "merge_rows (tx_pend x) (bookings ?d) = update_where (\<lambda>r. bk_id r = i \<and> confirmable now b r) (confirm_row now) (bookings ?d)"
      by (rule cas [OF us])
    have "serial (tx_call x) ?d (?d\<lparr>bookings := tx_rows ?d x\<rparr>)"
      using cas_ok [OF rc_invD(1) [OF inv] demotes_confirm r(1,2)] r(3,4) call
      by (simp add: ConfirmHold_def sql_confirm_hold_def withFault_def rows)
    then show ?thesis
      using ok(4) call unfolding serialises_def by (intro exI conjI) (auto simp: same_tables_def commit_db_def keys)
  next
    assume call: "tx_call x = ReleaseCall now i b"
    have us: "updates (matches ?d) (tx_call x) = [(\<lambda>r. bk_id r = i \<and> releasable b r, cancel_row now)]" by (simp add: call)
    obtain r where r: "r \<in> set (bookings ?d)" "bk_id r = i" "releasable b r"
      "merge_rows (tx_pend x) (bookings ?d) = update_where (\<lambda>r. bk_id r = i \<and> releasable b r) (cancel_row now) (bookings ?d)"
      by (rule cas [OF us])
    have "serial (tx_call x) ?d (?d\<lparr>bookings := tx_rows ?d x\<rparr>)"
      using cas_ok [OF rc_invD(1) [OF inv] demotes_cancel r(1,2)] r(3,4) call
      by (simp add: ReleaseHold_def sql_release_hold_def withFault_def rows)
    then show ?thesis
      using ok(4) call unfolding serialises_def by (intro exI conjI) (auto simp: same_tables_def commit_db_def keys)
  next
    assume call: "tx_call x = CancelCall now i b"
    have us: "updates (matches ?d) (tx_call x) = [(\<lambda>r. bk_id r = i \<and> cancellable now b (matches ?d) r, cancel_row now)]" by (simp add: call)
    obtain r where r: "r \<in> set (bookings ?d)" "bk_id r = i" "cancellable now b (matches ?d) r"
      "merge_rows (tx_pend x) (bookings ?d) =
         update_where (\<lambda>r. bk_id r = i \<and> cancellable now b (matches ?d) r) (cancel_row now) (bookings ?d)"
      by (rule cas [OF us])
    obtain j k where jk: "j \<le> max_int64" "k \<le> max_int64" "tx_refund x = [refund_of now i j]" "tx_event x = [event_for now i j k]"
      using ok(4) call x(2) by auto
    define d0 where "d0 = ?d\<lparr>refunds_id_seq := j, outbox_events_id_seq := k\<rparr>"
    have "bookings_ok d0 (bookings d0)" using rc_invD(1) [OF inv] by (simp add: d0_def)
    then have "serial (tx_call x) d0 (cancelled_db now i b d0)"
      using cancel_body_ok [of d0 r i "\<lparr>ce_now = now, ce_fault = \<lambda>_. NoFault\<rparr>" b] r jk(1,2) call
      by (simp add: CancelBooking_def in_tx_def d0_def)
    moreover have "same_tables (cancelled_db now i b d0) (commit_db x ?d)"
      using jk r(4) keys by (simp add: same_tables_def commit_db_def cancelled_db_def rows d0_def refund_of_def event_for_def)
    moreover have "same_tables ?d d0" by (simp add: d0_def same_tables_def)
    ultimately show ?thesis unfolding serialises_def by blast
  qed
qed


section \<open>Sweep\<close>

lemma sweep_merge:
  assumes ok: "writes_ok d x" and call: "tx_call x = SweepCall now limit" and dist: "distinct (map bk_id (bookings d))"
    and lim: "0 \<le> limit" "int (card (dom (tx_pend x))) \<le> limit"
  shows "merge_rows (tx_pend x) (bookings d) =
     update_where (\<lambda>r. bk_id r \<in> set (sweep_ids now (\<lambda>i. i \<notin> dom (tx_pend x)) limit (bookings d))) expire_row (bookings d)"
proof -
  let ?Q = "\<lambda>r. expired_hold now r \<and> bk_id r \<in> dom (tx_pend x)"
  have w: "expired_hold now r \<and> q = expire_row r" if r: "r \<in> set (bookings d)" "tx_pend x (bk_id r) = Some q" for r q
  proof -
    from writes_okD [OF ok r(2)] obtain r1 P f where "r1 \<in> set (bookings d)" "bk_id r1 = bk_id r"
        "(P, f) \<in> set (updates (matches d) (tx_call x))" "P r1" "q = f r1" .
    moreover from this have "r1 = r" using distinct_key_eq [OF dist _ r(1)] by blast
    ultimately show ?thesis using call by auto
  qed
  have fin: "finite (dom (tx_pend x))"
    by (rule finite_subset [of _ "bk_id ` set (bookings d)"]) (use ok in \<open>auto simp: writes_ok_def\<close>)
  have "length (filter ?Q (bookings d)) = card (bk_id ` set (filter ?Q (bookings d)))"
    using distinct_card [OF distinct_map_filter [OF dist, of ?Q]] by simp
  also have "\<dots> \<le> card (dom (tx_pend x))" by (rule card_mono [OF fin]) auto
  finally have "length (filter ?Q (bookings d)) \<le> nat limit" using lim by linarith
  then have "set (sweep_ids now (\<lambda>i. i \<notin> dom (tx_pend x)) limit (bookings d)) = bk_id ` {r \<in> set (bookings d). ?Q r}"
    by (simp add: sweep_ids_def order_limit_all)
  moreover have "bk_id r \<in> bk_id ` {r \<in> set (bookings d). ?Q r} \<longleftrightarrow> tx_pend x (bk_id r) \<noteq> None" if "r \<in> set (bookings d)" for r
    using that w by fastforce
  ultimately show ?thesis
    using w by (auto simp: merge_rows_def update_where_def split: option.splits)
qed

lemma sweep_serialises:
  assumes inv: "rc_inv c" and x: "rc_txs c u = Some x" "tx_pc x = Ready" "tx_call x = SweepCall now limit"
  shows "serialises (SweepCall now limit) (rc_db c) (commit_db x (rc_db c))"
proof -
  let ?d = "rc_db c"
  note ok = tx_okD [OF rc_invD(4) [OF inv x(1)]]
  have lim: "0 \<le> limit" "int (card (dom (tx_pend x))) \<le> limit" using ok(5) x(2,3) by (simp_all add: sweep_ok_def)
  have rows: "tx_rows ?d x = merge_rows (tx_pend x) (bookings ?d)"
    using no_new_row [OF ok(2)] x(3) by (simp add: tx_rows_def)
  have "\<exists>n. SweepExpiredHolds NoFault now (\<lambda>i. i \<notin> dom (tx_pend x)) limit ?d = (Inr n, ?d\<lparr>bookings := tx_rows ?d x\<rparr>)"
    using lim(1) by (simp add: SweepExpiredHolds_def sql_sweep_def withFault_def mapErrA_def Let_def
        update_bookings_ok [OF rc_invD(1) [OF inv] demotes_expire] rows sweep_merge [OF ok(1) x(3) rc_invD(2) [OF inv] lim])
  then have "serial (SweepCall now limit) ?d (?d\<lparr>bookings := tx_rows ?d x\<rparr>)" by auto
  moreover have "tx_kdel x = {}" "tx_knew x = []" by (rule no_keys [OF ok(6)]; use x(3) in simp)+
  ultimately show ?thesis
    using ok(4) x(3) unfolding serialises_def by (intro exI conjI) (auto simp: same_tables_def commit_db_def)
qed


section \<open>Pruning\<close>

lemma pruned_keys:
  assumes ok: "keys_ok d x" and call: "tx_call x = PruneCall now old limit" and dist: "distinct (map ik_key (idempotency_keys d))"
    and lim: "0 \<le> limit" "int (card (tx_kdel x)) \<le> limit" and k: "k \<in> set (idempotency_keys d)"
  shows "ik_key k \<in> set (prune_keys now (\<lambda>i. i \<notin> ik_key ` tx_kdel x) (microseconds old) limit (idempotency_keys d)) \<longleftrightarrow> k \<in> tx_kdel x"
proof -
  let ?Q = "\<lambda>k. ik_created_at k < now - microseconds old \<and> ik_key k \<in> ik_key ` tx_kdel x"
  have kd: "tx_kdel x \<subseteq> {k \<in> set (idempotency_keys d). ik_created_at k < now - microseconds old}"
    using ok call by (simp add: keys_ok_def)
  have mine: "ik_key q \<in> ik_key ` tx_kdel x \<longleftrightarrow> q \<in> tx_kdel x" if "q \<in> set (idempotency_keys d)" for q
  proof
    assume "ik_key q \<in> ik_key ` tx_kdel x"
    then obtain k' where k': "k' \<in> tx_kdel x" "ik_key q = ik_key k'" by auto
    then have "k' = q" using kd distinct_key_eq [OF dist _ that, of k'] by auto
    with k' show "q \<in> tx_kdel x" by simp
  qed simp
  have fin: "finite (tx_kdel x)" by (rule finite_subset [OF kd]) simp
  have "length (filter ?Q (idempotency_keys d)) = card (set (filter ?Q (idempotency_keys d)))"
    using distinct_card [OF distinct_filter [of "idempotency_keys d" ?Q]] dist by (simp add: distinct_map)
  also have "\<dots> \<le> card (tx_kdel x)" using mine by (intro card_mono [OF fin]) auto
  finally have "length (filter ?Q (idempotency_keys d)) \<le> nat limit" using lim by linarith
  then have "set (prune_keys now (\<lambda>i. i \<notin> ik_key ` tx_kdel x) (microseconds old) limit (idempotency_keys d))
      = ik_key ` {q \<in> set (idempotency_keys d). ?Q q}"
    by (simp add: prune_keys_def order_limit_all)
  then have "ik_key k \<in> set (prune_keys now (\<lambda>i. i \<notin> ik_key ` tx_kdel x) (microseconds old) limit (idempotency_keys d))
      \<longleftrightarrow> (\<exists>q \<in> set (idempotency_keys d). ik_key k = ik_key q \<and> ?Q q)"
    unfolding image_iff by blast
  also have "\<dots> \<longleftrightarrow> ?Q k"
  proof
    assume "\<exists>q \<in> set (idempotency_keys d). ik_key k = ik_key q \<and> ?Q q"
    then obtain q where q: "q \<in> set (idempotency_keys d)" "ik_key k = ik_key q" "?Q q" by blast
    have "k = q" by (rule distinct_key_eq [OF dist k q(1,2)])
    with q(3) show "?Q k" by simp
  qed (use k in blast)
  also have "\<dots> \<longleftrightarrow> k \<in> tx_kdel x" using mine [OF k] kd by auto
  finally show ?thesis .
qed

lemma prune_serialises:
  assumes inv: "rc_inv c" and x: "rc_txs c u = Some x" "tx_pc x = Ready" "tx_call x = PruneCall now old limit"
  shows "serialises (PruneCall now old limit) (rc_db c) (commit_db x (rc_db c))"
proof -
  let ?d = "rc_db c" and ?d1 = "(rc_db c)\<lparr>idempotency_keys := filter (\<lambda>k. k \<notin> tx_kdel x) (idempotency_keys (rc_db c))\<rparr>"
  note ok = tx_okD [OF rc_invD(4) [OF inv x(1)]]
  have lim: "0 \<le> limit" "int (card (tx_kdel x)) \<le> limit" using ok(5) x(2,3) by (simp_all add: sweep_ok_def)
  have dist: "distinct (map ik_key (idempotency_keys ?d))" using inv by (simp add: rc_inv_def)
  have "\<exists>n. PruneIdempotencyKeys NoFault now (\<lambda>i. i \<notin> ik_key ` tx_kdel x) old limit ?d = (Inr n, ?d1)"
    using lim(1) pruned_keys [OF ok(6) x(3) dist lim]
    by (auto simp: PruneIdempotencyKeys_def sql_prune_def withFault_def mapErrA_def Let_def cong: filter_cong)
  then have "serial (PruneCall now old limit) ?d ?d1" by auto
  moreover have "tx_pend x = Map.empty"
  proof
    fix i show "tx_pend x i = None"
      using ok(1) x(3) by (cases "tx_pend x i") (auto simp: writes_ok_def)
  qed
  moreover have "tx_knew x = []" using ok(6) x(3) by (cases "tx_knew x") (auto simp: keys_ok_def)
  ultimately show ?thesis
    using ok(4) no_new_row [OF ok(2)] x(3) unfolding serialises_def
    by (intro exI conjI) (auto simp: same_tables_def commit_db_def tx_rows_def merge_rows_def)
qed


section \<open>Every step\<close>

lemma commit_serialises:
  assumes "rc_inv c" and "rc_txs c u = Some x" "tx_pc x = Ready"
  shows "serialises (tx_call x) (rc_db c) (commit_db x (rc_db c))"
  using hold_serialises [OF assms] cas_serialises [OF assms] sweep_serialises [OF assms] prune_serialises [OF assms]
  by (cases "tx_call x") auto

lemma step_serialises:
  assumes "rc_step c ev c'" and "rc_inv c"
  shows "case ev of Committed call \<Rightarrow> serialises call (rc_db c) (rc_db c') | _ \<Rightarrow> same_tables (rc_db c) (rc_db c')"
  using assms(1)
proof (cases rule: rc_step.cases)
  case (commit_call u x)
  then show ?thesis using commit_serialises [OF assms(2)] by simp
qed (simp_all add: same_tables_def)

text \<open>
  With the lock a hold is refused only because the seat has an active booking: the buyer's other hold never
  stands in the way, however many tabs the buyer uses.
\<close>

lemma refused_seat_taken:
  assumes "rc_step c (Refused call) c'" and inv: "rc_inv c"
  shows "\<exists>now m s b ttl key stale. call = HoldCall now m s b ttl key stale
     \<and> (\<exists>r \<in> set (bookings (rc_db c)). active r \<and> bk_match_id r = m \<and> bk_seat_id r = s)"
  using assms(1)
proof (cases rule: rc_step.cases)
  case (refuse_hold u x now m s b ttl key stale i row r)
  note ok = tx_okD [OF rc_invD(4) [OF inv refuse_hold(3)]]
  have new: "tx_new x = []" using no_new [OF ok(2)] refuse_hold(4) by simp
  have row: "seat_key row = (m, s)" "buyer_key row = (m, b)" by (simp_all add: refuse_hold(8) new_hold_def row_defs)
  have act: "active r" using refuse_hold(10) held_active [of r] unfolding clash_def by blast
  have "r \<in> set (merge_rows (tx_pend x) (bookings (rc_db c)))" using refuse_hold(9) new by (simp add: tx_rows_def)
  then have "r \<in> set (bookings (rc_db c)) \<and> tx_pend x (bk_id r) = None"
  proof (cases rule: in_merge_cases)
    case (2 r0)
    from writes_okD [OF ok(1) this(2)] obtain r1 P f where "(P, f) \<in> set (updates (matches (rc_db c)) (tx_call x))" "r = f r1" .
    then have "r = cancel_row now r1 \<or> r = expire_row r1" using refuse_hold(5) by auto
    then show ?thesis using act by auto
  qed simp
  then have r: "r \<in> set (bookings (rc_db c))" "tx_pend x (bk_id r) = None" by simp_all
  have "\<not> previous_hold m s b r"
    using ok(3) [unfolded released_ok_def, rule_format, OF refuse_hold(5) r(1) _ r(2)] refuse_hold(4) by fastforce
  moreover have "seat_key r = (m, s) \<or> is_held r \<and> buyer_key r = (m, b)"
    using refuse_hold(10) row unfolding clash_def by metis
  ultimately have "bk_match_id r = m" "bk_seat_id r = s"
    by (auto simp: seat_key_def buyer_key_def is_held_def previous_hold_def)
  then show ?thesis using refuse_hold(1,5) act r(1) by (intro exI conjI bexI [of _ r]) simp_all
qed

end
