(* ===== verification/IsolationProperties.thy ===== *)
theory IsolationProperties
  imports Serialisation Fixture
begin

text \<open>
  The properties of the store's transactions at \<open>READ COMMITTED\<close>, and a run of two buyers after one seat on which
  they are applied.
\<close>

section \<open>The transactions are serialisable\<close>

text \<open>C3: the transactions are serialisable although they run at READ COMMITTED. Whatever holds, with
  or without idempotency keys, confirmations, releases, cancellations, sweeps and prunings run at the same time,
  statement by statement and row by row, every commit has on the tables exactly the effect of that operation run
  alone at the moment of the commit; no other step changes a table; and in between no seat is oversold and no
  idempotency key stands for two bookings.\<close>

theorem read_committed_serialises:
  assumes "reachable rc_start rc_next c" and "rc_step c ev c'"
  shows "(case ev of Committed call \<Rightarrow> serialises call (rc_db c) (rc_db c') | _ \<Rightarrow> same_tables (rc_db c) (rc_db c'))
     \<and> OversoldSeats NoFault (rc_db c') = Inr 0 \<and> distinct (map ik_key (idempotency_keys (rc_db c')))"
proof -
  have inv: "rc_inv c" by (rule rc.reachable_I [OF assms(1)])
  note inv' = rc_inv_step [OF assms(2) inv]
  have "oversold (rc_db c') = []" by (rule oversold_ok [OF rc_invD(1) [OF inv']])
  moreover have "distinct (map ik_key (idempotency_keys (rc_db c')))" using inv' by (simp add: rc_inv_def)
  ultimately show ?thesis using step_serialises [OF assms(2) inv] by (simp add: OversoldSeats_def query_def)
qed

text \<open>A hold that finds nothing to release or to expire gets to its insert.\<close>

lemma hold_walk:
  assumes x: "rc_txs c u = Some (begin_tx (HoldCall now m s b ttl key 0))" (is "_ = Some (begin_tx ?call)")
    and free: "\<forall>v y. rc_txs c v = Some y \<longrightarrow> \<not> holds_lock y (m, b)"
    and none: "\<forall>r \<in> set (bookings (rc_db c)). \<not> previous_hold m s b r \<and> \<not> stale_hold now m s r"
  shows "rc_next\<^sup>*\<^sup>* c (set_tx u (begin_tx ?call\<lparr>tx_pc := Inserting\<rparr>) c)"
proof -
  let ?st = "\<lambda>pc. set_tx u (begin_tx ?call\<lparr>tx_pc := pc\<rparr>) c"
  have again: "set_tx u y (?st pc) = set_tx u y c" for y pc by (simp add: set_tx_def)
  have at: "rc_txs (?st pc) u = Some (begin_tx ?call\<lparr>tx_pc := pc\<rparr>)" for pc by simp
  have rows: "tx_rows (rc_db c) (begin_tx ?call\<lparr>tx_pc := pc\<rparr>) = bookings (rc_db c)" for pc
    by (simp add: tx_rows_def merge_rows_def begin_tx_def)
  have call: "tx_call (begin_tx ?call) = ?call" "tx_pc (begin_tx ?call) = Locking" by (simp_all add: begin_tx_def)
  have 1: "rc_step c Internal (?st (Scan 0))"
    using rc_step.take_lock [OF x call(2), of "(m, b)"] call free by simp
  have scan: "rc_step (?st (Scan n)) Internal (?st (Rows n {}))" if "n < 2" for n
  proof -
    have "\<not> fst (updates ms ?call ! n) r" if "r \<in> set (bookings (rc_db c))" for r ms
      using \<open>n < 2\<close> none that by (cases n) auto
    then have "{} = bk_id ` {r \<in> set (bookings (rc_db c)). fst (updates (matches (rc_db c)) ?call ! n) r}" by auto
    then show ?thesis
      using rc_step.scan [OF at [of "Scan n"], of n _ "{}", OF _ refl] that by (simp add: call rows again)
  qed
  have skip: "rc_step (?st (Rows n {})) Internal (?st (Scan (Suc n)))" for n
    using rc_step.next_update [OF at [of "Rows n {}"], of n] by (simp add: again)
  have 2: "rc_step (?st (Scan 2)) Internal (?st Inserting)"
    using rc_step.updated [OF at [of "Scan 2"]] by (simp add: call again)
  have "rc_next c (?st (Scan 0))" "rc_next (?st (Scan 0)) (?st (Rows 0 {}))" "rc_next (?st (Rows 0 {})) (?st (Scan 1))"
      "rc_next (?st (Scan 1)) (?st (Rows 1 {}))" "rc_next (?st (Rows 1 {})) (?st (Scan 2))" "rc_next (?st (Scan 2)) (?st Inserting)"
    using 1 2 scan [of 0] scan [of 1] skip [of 0] skip [of 1] by (auto simp: rc_next_def numeral_2_eq_2)
  then show ?thesis by (meson converse_rtranclp_into_rtranclp rtranclp.rtrancl_refl)
qed

text \<open>Erin and frank are after the same seat; erin's transaction, which has an idempotency key, inserts first.\<close>

definition erin_call :: booking_call where
  "erin_call = HoldCall 200 ''M1'' ''A4'' ''erin'' 300000000000 ''erin-1'' 0"

definition frank_call :: booking_call where
  "frank_call = HoldCall 210 ''M1'' ''A4'' ''frank'' 300000000000 '''' 0"

definition erin_row :: bookings_row where
  "erin_row = new_hold 5 ''M1'' ''A4'' ''erin'' 300000200 200"

definition quiet_rc :: rc_sys where
  "quiet_rc = \<lparr>rc_db = demo_db, rc_txs = Map.empty\<rparr>"

definition racing :: rc_sys where
  "racing = set_tx 1 (begin_tx frank_call) (set_tx 0 (begin_tx erin_call) quiet_rc)"

definition erin_key :: idempotency_keys_row where
  "erin_key = \<lparr>ik_key = ''erin-1'', ik_booking_id = 5, ik_created_at = 200\<rparr>"

definition erin_tx :: "tx_pc \<Rightarrow> idempotency_keys_row list \<Rightarrow> rc_tx" where
  "erin_tx pc ks = begin_tx erin_call\<lparr>tx_pc := pc, tx_new := [erin_row], tx_knew := ks\<rparr>"

definition inserted :: "tx_pc \<Rightarrow> idempotency_keys_row list \<Rightarrow> rc_sys" where
  "inserted pc ks = set_tx 0 (erin_tx pc ks) (set_db (demo_db\<lparr>bookings_id_seq := 6\<rparr>) racing)"

abbreviation recorded :: rc_sys where
  "recorded \<equiv> inserted Ready [erin_key]"

definition erin_done :: rc_sys where
  "erin_done = end_tx 0 (set_db (commit_db (erin_tx Ready [erin_key]) (rc_db recorded)) recorded)"

lemma race_calls [simp]:
  "tx_call (begin_tx call) = call" "\<not> holds_lock (begin_tx call) k" "written (begin_tx call) = {}"
  "tx_pend (begin_tx call) = Map.empty" "tx_new (begin_tx call) = []"
  "tx_kdel (begin_tx call) = {}"
  by (cases call; simp add: begin_tx_def holds_lock_def written_def)+

lemma race_states:
  "rc_db racing = demo_db" "rc_txs racing = [0 \<mapsto> begin_tx erin_call, 1 \<mapsto> begin_tx frank_call]"
  "rc_db (inserted pc ks) = demo_db\<lparr>bookings_id_seq := 6\<rparr>"
  "rc_txs (inserted pc ks) = [0 \<mapsto> erin_tx pc ks, 1 \<mapsto> begin_tx frank_call]"
  by (auto simp: racing_def inserted_def quiet_rc_def)

lemma erin_done_states:
  "bookings (rc_db erin_done) = bookings demo_db @ [erin_row]" "bookings_id_seq (rc_db erin_done) = 6"
  "rc_txs erin_done = [1 \<mapsto> begin_tx frank_call]"
  by (auto simp: erin_done_def inserted_def racing_def quiet_rc_def commit_db_def tx_rows_def merge_rows_def erin_tx_def)

lemma racing_reached: "reachable rc_start rc_next racing"
proof -
  have "rc_start quiet_rc" by (simp add: rc_start_def quiet_rc_def)
  moreover have "rc_next quiet_rc (set_tx 0 (begin_tx erin_call) quiet_rc)"
    using rc_step.begin_call [of quiet_rc 0 erin_call] by (force simp: rc_next_def quiet_rc_def erin_call_def)
  moreover have "rc_next (set_tx 0 (begin_tx erin_call) quiet_rc) racing"
    unfolding racing_def using rc_step.begin_call [of "set_tx 0 (begin_tx erin_call) quiet_rc" 1 frank_call]
    by (force simp: rc_next_def quiet_rc_def frank_call_def)
  ultimately show ?thesis by (meson reachable_intros)
qed

lemma demo_no_hold:
  "r \<in> set (bookings demo_db) \<Longrightarrow> b \<noteq> ''alice'' \<Longrightarrow> b \<noteq> ''carol'' \<Longrightarrow>
     \<not> previous_hold ''M1'' ''A4'' b r \<and> \<not> stale_hold now ''M1'' ''A4'' r \<and> seat_key r \<noteq> (''M1'', ''A4'')
     \<and> \<not> (is_held r \<and> buyer_key r = (''M1'', b))"
  by (auto simp: demo_tables demo_rows previous_hold_def stale_hold_def row_defs)

lemma erin_row_simps [simp]:
  "bk_id erin_row = 5" "seat_key erin_row = (''M1'', ''A4'')" "buyer_key erin_row = (''M1'', ''erin'')" "active erin_row"
  "\<not> previous_hold ''M1'' ''A4'' b erin_row" "\<not> stale_hold 210 ''M1'' ''A4'' erin_row"
  by (simp_all add: erin_row_def new_hold_def row_defs previous_hold_def stale_hold_def expires_before_def)

lemma inserted_reached: "reachable rc_start rc_next (inserted Recording [])"
proof -
  let ?x = "begin_tx erin_call\<lparr>tx_pc := Inserting\<rparr>" and ?c = "set_tx 0 (begin_tx erin_call\<lparr>tx_pc := Inserting\<rparr>) racing"
  have "rc_next\<^sup>*\<^sup>* racing ?c"
    unfolding erin_call_def
    by (rule hold_walk) (use demo_no_hold in \<open>auto simp: race_states erin_call_def [symmetric]\<close>)
  then have c: "reachable rc_start rc_next ?c" by (rule reachable_run [OF racing_reached])
  have "rc_step ?c Internal (set_tx 0 (?x\<lparr>tx_pc := after_insert (tx_call ?x), tx_new := [erin_row]\<rparr>) (set_db ((rc_db ?c)\<lparr>bookings_id_seq := 5 + 1\<rparr>) ?c))"
  proof (rule rc_step.insert_hold)
    show "rc_txs ?c 0 = Some ?x" "tx_pc ?x = Inserting" by simp_all
    show "tx_call ?x = HoldCall 200 ''M1'' ''A4'' ''erin'' 300000000000 ''erin-1'' 0" by (simp add: erin_call_def)
    show "5 = bookings_id_seq (rc_db ?c)" "(5::int) \<le> max_int64" "seat_exists ''M1'' ''A4'' (rc_db ?c)"
      by (simp_all add: race_states demo_tables seat_exists_def max_int64_def demo_seat_def)
    show "erin_row = new_hold 5 ''M1'' ''A4'' ''erin'' (200 + microseconds 300000000000) 200"
      by (simp add: erin_row_def microseconds_def go_div_def)
    show "\<forall>r \<in> set (tx_rows (rc_db ?c) ?x). \<not> clash erin_row r"
    proof
      fix r assume "r \<in> set (tx_rows (rc_db ?c) ?x)"
      then have "r \<in> set (bookings demo_db)" by (simp add: race_states tx_rows_def merge_rows_def)
      then show "\<not> clash erin_row r" using demo_no_hold [of r "''erin''"] unfolding clash_def by simp metis
    qed
    show "\<forall>v y. v \<noteq> 0 \<longrightarrow> rc_txs ?c v = Some y \<longrightarrow> (\<forall>r \<in> written y. \<not> clash erin_row r)"
      by (simp add: race_states)
  qed
  moreover have "set_tx 0 y (set_db d ?c) = set_tx 0 y (set_db d racing)" for y d by (simp add: set_tx_def set_db_def)
  ultimately have "rc_step ?c Internal (inserted Recording [])"
    by (simp add: inserted_def erin_tx_def race_states) (simp add: begin_tx_def erin_call_def)
  then show ?thesis using reachable_intros(2) [OF c] by (auto simp: rc_next_def)
qed

lemma recorded_reached: "reachable rc_start rc_next recorded"
proof -
  have tx: "rc_txs (inserted Recording []) 0 = Some (erin_tx Recording [])" by (simp add: race_states)
  have "rc_step (inserted Recording []) Internal
      (set_tx 0 (erin_tx Recording []\<lparr>tx_pc := Ready, tx_knew := [erin_key]\<rparr>) (inserted Recording []))"
    using rc_step.record_key [OF tx, of 200 "''M1''" "''A4''" "''erin''" 300000000000 "''erin-1''" 0]
    by (simp add: erin_tx_def erin_call_def [symmetric] erin_key_def race_states demo_tables key_pending_def)
      (simp add: erin_call_def begin_tx_def)
  moreover have "set_tx 0 (erin_tx Recording []\<lparr>tx_pc := Ready, tx_knew := [erin_key]\<rparr>) (inserted Recording []) = recorded"
    by (simp add: inserted_def set_tx_def erin_tx_def begin_tx_def)
  ultimately show ?thesis using reachable_intros(2) [OF inserted_reached] by (auto simp: rc_next_def)
qed

lemma erin_commits: "rc_step recorded (Committed erin_call) erin_done"
  using rc_step.commit_call [of recorded 0 "erin_tx Ready [erin_key]"] by (simp add: erin_done_def erin_tx_def race_states)

theorem read_committed_serialises_witness:
  "rc_step recorded (Committed erin_call) erin_done \<and> serialises erin_call (rc_db recorded) (rc_db erin_done)
   \<and> OversoldSeats NoFault (rc_db erin_done) = Inr 0 \<and> length (bookings (rc_db erin_done)) = 5"
  using read_committed_serialises [OF recorded_reached erin_commits] erin_commits
  by (simp add: erin_done_states demo_tables)


section \<open>The advisory lock\<close>

text \<open>C7: the lock makes changing seats reliable. However many requests of one buyer run at the same time, a hold is
  refused by the indexes only when its seat has an active booking, never because of the buyer's other hold.\<close>

theorem refusal_means_taken:
  assumes "reachable rc_start rc_next c" and "rc_step c (Refused call) c'"
  shows "\<exists>now m s b ttl key stale. call = HoldCall now m s b ttl key stale
     \<and> (\<exists>r \<in> set (bookings (rc_db c)). active r \<and> bk_match_id r = m \<and> bk_seat_id r = s)"
  by (rule refused_seat_taken [OF assms(2) rc.reachable_I [OF assms(1)]])

theorem refusal_means_taken_witness:
  "\<exists>c c'. reachable rc_start rc_next c \<and> rc_step c (Refused frank_call) c'
     \<and> (\<exists>r \<in> set (bookings (rc_db c)). active r \<and> bk_match_id r = ''M1'' \<and> bk_seat_id r = ''A4'')"
proof -
  let ?x = "begin_tx frank_call\<lparr>tx_pc := Inserting\<rparr>" and ?c = "set_tx 1 (begin_tx frank_call\<lparr>tx_pc := Inserting\<rparr>) erin_done"
  have finished: "reachable rc_start rc_next erin_done"
    using reachable_intros(2) [OF recorded_reached] erin_commits by (auto simp: rc_next_def)
  have "rc_next\<^sup>*\<^sup>* erin_done ?c"
    unfolding frank_call_def
    by (rule hold_walk) (use demo_no_hold in \<open>auto simp: erin_done_states frank_call_def [symmetric]\<close>)
  then have c: "reachable rc_start rc_next ?c" by (rule reachable_run [OF finished])
  have "rc_step ?c (Refused (tx_call ?x)) (end_tx 1 (set_db ((rc_db ?c)\<lparr>bookings_id_seq := 6 + 1\<rparr>) ?c))"
  proof (rule rc_step.refuse_hold)
    show "rc_txs ?c 1 = Some ?x" "tx_pc ?x = Inserting" by simp_all
    show "tx_call ?x = HoldCall 210 ''M1'' ''A4'' ''frank'' 300000000000 '''' 0" by (simp add: frank_call_def)
    show "6 = bookings_id_seq (rc_db ?c)" "(6::int) \<le> max_int64" by (simp_all add: erin_done_states max_int64_def)
    show "erin_row \<in> set (tx_rows (rc_db ?c) ?x)" by (simp add: tx_rows_def merge_rows_def erin_done_states)
    show "clash (new_hold 6 ''M1'' ''A4'' ''frank'' (210 + microseconds 300000000000) 210) erin_row"
      by (simp add: clash_def new_hold_def row_defs erin_row_def)
    show "\<not> row_locked ?c 1 (bk_id erin_row)" by (auto simp: row_locked_def erin_done_states split: if_splits)
  qed (rule refl)
  then have r: "rc_step ?c (Refused frank_call) (end_tx 1 (set_db ((rc_db ?c)\<lparr>bookings_id_seq := 6 + 1\<rparr>) ?c))" by simp
  show ?thesis
    using refusal_means_taken [OF c r] c r by (intro exI conjI) (assumption, assumption, auto simp: frank_call_def)
qed

end
