(* ===== verification/Spec2Isabelle.thy ===== *)
theory Spec2Isabelle
  imports ServerProperties SystemProperties IsolationProperties
begin

text \<open>
  A verification of the cricket stadium booking service, a Go program on PostgreSQL (all sources named below
  are under \<open>src/cricket-stadium-booking\<close>). Buyers hold a seat of a match for a few minutes, confirm the hold
  into a sale, release it, or cancel a sale, which opens a refund that a worker process drives through a
  transactional outbox. The promise of the program is that no seat is ever sold twice and that every
  cancelled sale is refunded exactly once, with requests, retries and workers running concurrently and any
  call able to fail. This development states that promise over a model of the code and proves it.

  \<^bold>\<open>The parts and how they interact.\<close> The server process answers HTTP requests: \<open>internal/httpapi\<close> routes a
  request through recovery, compression and the rate limiter to a handler, which validates it and calls
  \<open>internal/booking\<close>; the service runs the store's operation under a bounded retry loop, and after a write
  drops the match from its seat-map cache. \<open>internal/store\<close> holds every SQL statement; several of its operations
  are one transaction of many statements. The database's constraints (\<open>migrations/\<close>) are part of the design: the
  partial unique indexes are what decides a race. The worker process (\<open>cmd/worker\<close>) polls the outbox, settles
  refunds and runs the maintenance statements. \<open>cmd/loadtest\<close> races many buyers and asks the database for
  oversold seats.

  \<^bold>\<open>Theories, in the order of their dependencies.\<close>
  \<^item> \<open>Prelude\<close>: times, \<open>int64\<close> bounds, sequencing of calls that can fail and change a state (\<open>action\<close>, \<open>bindA\<close>), the
    locale \<open>step_contract\<close> (a reflexive and transitive relation and the calls that obey it), updates of tables
    as lists of rows, decimal numbers.
  \<^item> \<open>Errors\<close>: Go error values, wrapping, \<open>errors.Is\<close>, \<open>errors.As\<close> and the SQLSTATE classifiers (\<open>store/errors.go\<close>,
    \<open>booking/errors.go\<close>).
  \<^item> \<open>Schema\<close>: the tables as the record \<open>db\<close>, the constraints (\<open>bookings_violation\<close>), faults before and after the
    effect of a call, transactions with their deferred rollback, the invariant \<open>schema_inv\<close> and the locale
    \<open>db_contract\<close>.
  \<^item> \<open>Holds\<close> and \<open>HoldCorrect\<close>: \<open>store/holds.go\<close>, one definition per statement and one per function; what each
    operation returns and leaves, on every branch; the idempotency keys.
  \<^item> \<open>Refunds\<close>, \<open>Outbox\<close>, \<open>Maintenance\<close>, \<open>SeatBoard\<close>, \<open>History\<close>: \<open>store/refunds.go\<close>, \<open>outbox.go\<close>, \<open>invariants.go\<close>,
    \<open>seats.go\<close> and \<open>bookings.go\<close>. \<open>SeatBoard\<close> has the abstract specification, a board that maps a seat to the
    buyer who holds or owns it, which the operations refine.
  \<^item> \<open>Worker\<close>: \<open>cmd/worker/main.go\<close>, a batch, the maintenance jobs and a tick of the loop.
  \<^item> \<open>Contracts\<close>: the contract of the whole store (\<open>store_contract\<close>), interpreted on the schema's invariant, on
    the life cycle of a booking and on the progress of refunds.
  \<^item> \<open>StoreSystem\<close>: the concurrent system as the step relation \<open>sys_step\<close>: any number of requests and workers
    whose store calls interleave; reachability and its invariant by rule induction.
  \<^item> \<open>ReadCommitted\<close>: the same transactions as PostgreSQL runs them, the step relation \<open>rc_step\<close>: statement by statement
    and row by row, with snapshots, row locks, the waits of the unique indexes and the advisory lock; its
    invariant. \<open>Serialisation\<close>: every commit has the effect of the serial operation.
  \<^item> \<open>Migrations\<close>: a fresh installation (\<open>migrations/0002_seed_fixtures.sql\<close>), which is a start of that system, and
    \<open>migrations/0008_single_active_buyer_hold.sql\<close> as a program on a database in use.
  \<^item> \<open>Retry\<close>, \<open>SeatCache\<close>, \<open>Service\<close>: \<open>internal/booking\<close>, the retry loop with its 64-bit backoff, the cache and the
    version of a snapshot, the service's operations; the locales \<open>hold_calls\<close> and \<open>request_contract\<close> lift the
    store's contracts to the service.
  \<^item> \<open>CacheSystem\<close>: the cache under concurrency, the step relation \<open>cache_step\<close> of callers, shared flights, writers
    and invalidations; \<open>load\<close> of \<open>SeatCache\<close> is a run of it.
  \<^item> \<open>Config\<close>: \<open>internal/config\<close>.
  \<^item> \<open>Delivery\<close>, \<open>HttpApi\<close>, \<open>RateLimit\<close>, \<open>ResponseWriter\<close>, \<open>Static\<close>, \<open>Router\<close>: \<open>internal/httpapi\<close>, from header
    parsing to the whole server \<open>NewServer\<close>. \<open>ResponseWriter\<close> states \<open>http.ResponseWriter\<close> as a locale, interpreted
    on the writer of the standard library and on the compressing one.
  \<^item> \<open>Observability\<close>: \<open>internal/observability/log.go\<close> and the lines the handlers write.
  \<^item> \<open>Startup\<close>: what the two processes build before they serve, \<open>store/pool.go\<close>, \<open>cmd/server/main.go\<close> and the
    main loop of \<open>cmd/worker/main.go\<close>.
  \<^item> \<open>LoadTest\<close>, \<open>Contention\<close>, \<open>Latency\<close>, \<open>LoadMain\<close>: \<open>cmd/loadtest/main.go\<close>, the two scenarios, the latency
    statistics with the rounding of their floating-point product, the fixtures and the whole run.
  \<^item> \<open>Lifecycle\<close>: the server process from its start to its exit as the step relation \<open>proc_step\<close>, composed with the
    system of \<open>StoreSystem\<close>; the load test process with its exit status.
  \<^item> \<open>Fixture\<close>: the concrete database on which properties are applied.
  \<^item> \<open>HoldProperties\<close>, \<open>RefundProperties\<close>, \<open>ServiceProperties\<close>, \<open>ServerProperties\<close>, \<open>SystemProperties\<close>,
    \<open>IsolationProperties\<close> and this theory: the properties, each after its statement in words.

  \<^bold>\<open>What is shown.\<close> \<^emph>\<open>Safety of the system\<close>: in every reachable state no seat is oversold, a buyer holds one seat
  of a match at most, cancelled sales and refunds correspond one to one, and so do refunds and outbox events;
  bookings and refunds only move forward; the whole HTTP server, fed any requests, stays inside these states;
  GET and HEAD requests write nothing; the transactions are serialisable at the isolation level they run at, and
  the advisory lock keeps a buyer's own requests from refusing each other; migration 0008 brings every older database under the invariant. \<^emph>\<open>Exact behaviour\<close>: when each operation of the store grants, refuses or
  fails, and the tables it leaves; all-or-nothing under any fault (an error leaves the tables as they were, but for a commit whose reply is lost);
  replay, re-pointing and refusal of idempotency keys, up to the answer of the handler. The load test reaches its report and never finds an oversold seat, and its exit status says so. \<^emph>\<open>Refinement\<close>:
  hold, confirm and release refine the board, and the seat list shows it, one line per seat and sorted (\<open>board_listing\<close>,
  which says so without the code's query). \<^emph>\<open>Progress\<close>: enough fault-free ticks of
  the worker drain the outbox; a failed event can be claimed again at once; a server that is told to stop answers
  what it accepted, or ends after ten seconds. \<^emph>\<open>Bounds and termination\<close>: the retry loop within the deadline of its
  request, the backoff, the staleness of the cache under every interleaving, one query per match and TTL, what a
  configuration that loads gives the store, the service, the pool and the worker. \<^emph>\<open>Delivery\<close>: compression is transparent,
  304 is answered exactly for an unchanged snapshot, errors are translated, exactly the malformed requests (\<open>bad_buyer\<close>,
  \<open>int64_text\<close> and the limits of 255 bytes, stated apart from the code's validators) are answered 400 and change nothing.

  \<^bold>\<open>How the model relates to the code.\<close>
  \<^item> A transaction is one step: it runs on the state at its begin. The code runs at \<open>READ COMMITTED\<close> with row locks and
    an advisory lock per buyer and match. For the calls that write \<open>bookings\<close> or \<open>idempotency_keys\<close> the property
    \<open>read_committed_serialises\<close> proves that this comes to the same: a commit does what the serial operation does at
    that moment (up to the order in which identities are drawn). What other sessions commit between two transactions
    of a request is a parameter (\<open>he_before_tx\<close>, \<open>he_before_replay\<close>, the attempts of the retry loop), and the step
    relation \<open>sys_step\<close> interleaves at the same points. \<open>SKIP LOCKED\<close> is modelled by the set of rows others have locked.
  \<^item> Each call of the database may fail before or after its effect; a lost reply of a commit is a failure after it.
  \<^item> A table is a list of rows in the order in which a scan returns them; \<open>UPDATE\<close> and \<open>INSERT ... RETURNING\<close> keep it.
    Identity columns are \<open>bigint\<close> sequences that fail when exhausted and are not rolled back. Timestamps are whole
    microseconds and Go durations whole nanoseconds, both unbounded except where the code converts them.
  \<^item> Code outside the repository is a parameter: the collation, the digest and the text of a time that make a
    version, \<open>singleflight\<close> (whether a load joins a flight; in \<open>CacheSystem\<close> its documented promise of one flight per
    key), the token bucket, \<open>ParseDuration\<close>, \<open>ParseFloat\<close>,
    \<open>SplitHostPort\<close>, \<open>DetectContentType\<close>, the gzip encoder, the JSON encoder, clocks, random draws and the fate of
    every network call. What a property needs of them is a hypothesis of it, met in its witness.
  \<^item> Header names and values are ASCII; a request's path is given as its segments, already cleaned by the
    multiplexer; JSON bodies are trees, and the response is what the handler passes to \<open>net/http\<close>.
  \<^item> Recursion is structural or has its measure; nothing runs on fuel. Loops that the code runs forever (the janitor,
    the worker's ticker) are lists of rounds, or steps of a relation.

  \<^bold>\<open>Not modelled.\<close> The output of the log and of the load test's report as text; the sockets under the server, of
  which the documented behaviour of \<open>ListenAndServe\<close> and \<open>Shutdown\<close> is used; the bytes of JSON and gzip; the text of
  error messages; the browser client under \<open>web/\<close>, which is not Go; the tests. The worker of this commit settles a
  refund without calling a payment provider, so there is none in the model.
\<close>

section \<open>The running system\<close>

lemma reachable_db_inv: "reachable sys_start sys_step s \<Longrightarrow> db_inv (fst s)"
  using sys.reachable_I by (auto simp: sys_inv_def)

lemma refund_one_event:
  assumes "db_inv d" and "r \<in> set (refunds d)"
  shows "length (filter (\<lambda>e. ob_payload e = refund_payload (rf_id r)) (outbox_events d)) = 1"
proof -
  have "mset (map event_content (outbox_events d)) = mset (map event_of_refund (refunds d))"
    using assms(1) unfolding db_inv_def refund_inv_parts by blast
  then have "mset (map (\<lambda>t. snd (snd t)) (map event_content (outbox_events d))) =
      mset (map (\<lambda>t. snd (snd t)) (map event_of_refund (refunds d)))"
    unfolding mset_map by (rule arg_cong)
  then have eq: "mset (map ob_payload (outbox_events d)) = mset (map (\<lambda>r. refund_payload (rf_id r)) (refunds d))"
    by (simp add: event_content_def event_of_refund_def comp_def)
  have "distinct (map rf_id (refunds d))" using assms(1) by (simp add: db_inv_def schema_inv_def)
  then have "distinct (map (\<lambda>r. refund_payload (rf_id r)) (refunds d))"
    by (auto simp: distinct_map inj_on_def)
  then have dist: "distinct (map ob_payload (outbox_events d))"
    using eq mset_eq_imp_distinct_iff by blast
  have "refund_payload (rf_id r) \<in> set (map ob_payload (outbox_events d))"
    using mset_eq_setD [OF eq] assms(2) by auto
  then obtain e where "e \<in> set (outbox_events d)" "ob_payload e = refund_payload (rf_id r)" by auto
  then show ?thesis using filter_key_singleton [OF dist] by fastforce
qed

text \<open>C1: no seat is ever sold or held twice. In every state the system can reach, under any interleaving of
  holds, confirmations, releases, cancellations, sweeps and worker steps with any faults, the load test's
  query counts no oversold seat, at most one active booking occupies a seat, and no buyer holds more than
  one seat of a match.\<close>

theorem no_oversell:
  assumes "reachable sys_start sys_step s"
  shows "OversoldSeats NoFault (fst s) = Inr 0
    \<and> (\<forall>k. length (filter (\<lambda>b. active b \<and> seat_key b = k) (bookings (fst s))) \<le> 1)
    \<and> (\<forall>k. length (filter (\<lambda>b. is_held b \<and> buyer_key b = k) (bookings (fst s))) \<le> 1)"
proof -
  have inv: "schema_inv (fst s)" using reachable_db_inv [OF assms] by (simp add: db_inv_def)
  then have dist: "distinct (map seat_key (filter active (bookings (fst s))))"
    "distinct (map buyer_key (filter is_held (bookings (fst s))))"
    by (simp_all add: schema_inv_def bookings_ok_def)
  have "length (filter (\<lambda>b. active b \<and> seat_key b = k) (bookings (fst s))) \<le> 1"
    "length (filter (\<lambda>b. is_held b \<and> buyer_key b = k) (bookings (fst s))) \<le> 1" for k
    using distinct_key_index_le_1 [OF dist(1)] distinct_key_index_le_1 [OF dist(2)] .
  then show ?thesis using oversold_empty [OF inv] by (simp add: OversoldSeats_def query_def)
qed

theorem no_oversell_witness:
  "bookings demo_returned \<noteq> [] \<and> OversoldSeats NoFault demo_returned = Inr 0"
proof -
  have "length (bookings demo_returned) = 1" by code_simp
  then show ?thesis using no_oversell [OF demo_run(4)] by auto
qed

text \<open>C5: every sale that was cancelled is refunded exactly once. In every reachable state a booking has
  exactly one refund if it was sold and then cancelled, and none otherwise; every refund has exactly one
  outbox event; and an event is marked processed only when its refund is no longer pending, whatever the
  workers' crashes, failures and overlapping leases.\<close>

theorem refunds_match_cancellations:
  assumes "reachable sys_start sys_step s"
  shows "(\<forall>b \<in> set (bookings (fst s)).
            length (filter (\<lambda>r. rf_booking_id r = bk_id b) (refunds (fst s))) = (if sold_cancelled b then 1 else 0))
    \<and> (\<forall>r \<in> set (refunds (fst s)).
            length (filter (\<lambda>e. ob_payload e = refund_payload (rf_id r)) (outbox_events (fst s))) = 1)
    \<and> (\<forall>e \<in> set (outbox_events (fst s)). ob_processed_at e \<noteq> None \<longrightarrow>
            (\<exists>r \<in> set (refunds (fst s)). ob_payload e = refund_payload (rf_id r) \<and> rf_status r \<noteq> Pending))"
proof -
  let ?d = "fst s"
  have inv: "db_inv ?d" using reachable_db_inv [OF assms] .
  have rf: "distinct (map rf_booking_id (refunds ?d))" using db_inv_distinct_refunds [OF inv] .
  have 1: "length (filter (\<lambda>r. rf_booking_id r = bk_id b) (refunds ?d)) = (if sold_cancelled b then 1 else 0)"
    if b: "b \<in> set (bookings ?d)" for b
  proof (cases "sold_cancelled b")
    case True
    then obtain r where "r \<in> set (refunds ?d)" "rf_booking_id r = bk_id b"
      using booking_refund_iff [OF inv b] by blast
    then show ?thesis using filter_key_singleton [OF rf] True by fastforce
  next
    case False
    then have "filter (\<lambda>r. rf_booking_id r = bk_id b) (refunds ?d) = []"
      using booking_refund_iff [OF inv b] by (auto simp: filter_empty_conv)
    then show ?thesis using False by simp
  qed
  have 2: "length (filter (\<lambda>e. ob_payload e = refund_payload (rf_id r)) (outbox_events ?d)) = 1"
    if "r \<in> set (refunds ?d)" for r
    using refund_one_event [OF inv that] .
  have 3: "\<exists>r \<in> set (refunds ?d). ob_payload e = refund_payload (rf_id r) \<and> rf_status r \<noteq> Pending"
    if e: "e \<in> set (outbox_events ?d)" "ob_processed_at e \<noteq> None" for e
  proof -
    obtain r where r: "r \<in> set (refunds ?d)" "ob_event_type e = ''refund_requested''"
        "ob_payload e = refund_payload (rf_id r)" "decode_refund_id (ob_payload e) = Some (rf_id r)"
      using polled_event_decodes [OF inv e(1)] .
    moreover have "refund_done (refunds ?d) e" using inv e unfolding db_inv_def refund_inv_parts by blast
    ultimately show ?thesis by (auto simp: refund_done_def list_all_iff)
  qed
  show ?thesis using 1 2 3 by blast
qed

theorem refunds_match_cancellations_witness:
  "length (filter (\<lambda>r. rf_booking_id r = bk_id (hd (bookings demo_returned))) (refunds demo_returned)) = 1"
proof -
  have "sold_cancelled (hd (bookings demo_returned))" "length (bookings demo_returned) = 1" by code_simp+
  moreover have "hd (bookings demo_returned) \<in> set (bookings demo_returned)"
    using calculation(2) by (intro hd_in_set) auto
  ultimately show ?thesis using refunds_match_cancellations [OF demo_run(4)] by simp
qed

text \<open>C12: a booking only moves forward. Along every run of the system no booking disappears or changes its
  match, seat or buyer; a sold booking can only become cancelled; an expired or cancelled one never changes
  its state again; and the instant of the sale is never rewritten.\<close>

theorem bookings_move_forward:
  assumes "reachable sys_start sys_step s" and "sys_step\<^sup>*\<^sup>* s s'" and "b \<in> set (bookings (fst s))"
  shows "\<exists>b' \<in> set (bookings (fst s')). evolves b b'"
  using life_run.run_R [OF assms(2)] reachable_db_inv [OF assms(1)] assms(3)
  unfolding lifecycle_def db_inv_def by blast

theorem bookings_move_forward_witness:
  "\<exists>b' \<in> set (bookings demo_returned). evolves (hd (bookings demo_held)) b'"
proof -
  have "length (bookings demo_held) = 1" by code_simp
  then have "hd (bookings demo_held) \<in> set (bookings demo_held)" by (intro hd_in_set) auto
  then show ?thesis
    using bookings_move_forward [OF demo_run(1) rtranclp_trans [OF demo_run(2,3)]] by simp
qed

text \<open>C13: a refund is paid once and no event is lost. Along every run of the system the outbox keeps every
  event with its content, and a refund that left the pending state keeps its row for good: status,
  completion time and external reference.\<close>

theorem refunds_paid_once:
  assumes "sys_step\<^sup>*\<^sup>* s s'"
  shows "set (settled (fst s)) \<subseteq> set (settled (fst s')) \<and> set (event_ids (fst s)) \<subseteq> set (event_ids (fst s'))"
  using progress_run.run_R [OF assms] unfolding refund_progress_def by simp

theorem refunds_paid_once_witness:
  "event_ids demo_bought = [] \<and> set (event_ids demo_bought) \<subseteq> set (event_ids demo_returned)"
proof -
  have "event_ids demo_bought = []" by code_simp
  then show ?thesis using refunds_paid_once [OF demo_run(3)] by simp
qed

end
